(* ===== verification/Prelude.thy ===== *)
theory Prelude
  imports Main "HOL-Library.Word" "HOL-Library.Sublist"
begin

text \<open>
  Shared vocabulary of the development: the integer types and status codes of
  \<^verbatim>\<open>src/src/core/types.h\<close>, memory faults as values, and the functions of the C
  library that the sources call, in the C locale.

  A byte is a \<^typ>\<open>char\<close>, a block of memory a \<^typ>\<open>string\<close> (a list of bytes), and a C
  string the bytes before the first NUL. An access outside its block is the value
  \<^verbatim>\<open>Inl Out_of_bounds\<close>; a model that returns \<^verbatim>\<open>Inr\<close> has shown that every access it
  makes is inside the block.
\<close>

unbundle bit_operations_syntax

named_theorems np_word \<open>reading word arithmetic as arithmetic on natural numbers\<close>
named_theorems np_clib \<open>characterisations of the C library functions\<close>
named_theorems np_invar \<open>operations keep the invariant of their component\<close>
named_theorems np_abs \<open>operations seen through the abstraction of their component\<close>

section \<open>Types and status codes\<close>

type_synonym u16 = "16 word"
type_synonym u32 = "32 word"
type_synonym u64 = "64 word"
type_synonym usize = "64 word"

datatype np_status_t =
    NP_OK | NP_ERR | NP_ERR_AGAIN | NP_ERR_CLOSED | NP_ERR_NOMEM | NP_ERR_TIMEOUT
  | NP_ERR_PARSE | NP_ERR_CONFIG | NP_ERR_TLS | NP_ERR_UPSTREAM

fun np_code :: "np_status_t \<Rightarrow> int" where
  "np_code NP_OK = 0"
| "np_code NP_ERR = -1"
| "np_code NP_ERR_AGAIN = -2"
| "np_code NP_ERR_CLOSED = -3"
| "np_code NP_ERR_NOMEM = -4"
| "np_code NP_ERR_TIMEOUT = -5"
| "np_code NP_ERR_PARSE = -6"
| "np_code NP_ERR_CONFIG = -7"
| "np_code NP_ERR_TLS = -8"
| "np_code NP_ERR_UPSTREAM = -9"

abbreviation NP_MAX_HEADERS :: nat where "NP_MAX_HEADERS \<equiv> 64"
abbreviation NP_MAX_HEADER_LEN :: nat where "NP_MAX_HEADER_LEN \<equiv> 8192"
abbreviation NP_ARENA_SIZE :: usize where "NP_ARENA_SIZE \<equiv> 65536"
abbreviation NP_READ_BUF_SIZE :: usize where "NP_READ_BUF_SIZE \<equiv> 65536"
abbreviation NP_WRITE_BUF_SIZE :: usize where "NP_WRITE_BUF_SIZE \<equiv> 131072"

section \<open>Faults as values\<close>

datatype mem_fault = Out_of_bounds | Divide_by_zero

type_synonym 'a mem = "mem_fault + 'a"

definition mbind :: "'e + 'a \<Rightarrow> ('a \<Rightarrow> 'e + 'b) \<Rightarrow> 'e + 'b" where
  "mbind m f = (case m of Inl e \<Rightarrow> Inl e | Inr x \<Rightarrow> f x)"

text \<open>\<open>memcpy (dst + off, src, n)\<close> with \<open>n\<close> the length of \<open>src\<close>.\<close>

definition memcpy_at :: "string \<Rightarrow> nat \<Rightarrow> string \<Rightarrow> string mem" where
  "memcpy_at dst off src =
     (if off + length src \<le> length dst
      then Inr (take off dst @ src @ drop (off + length src) dst)
      else Inl Out_of_bounds)"

section \<open>The C library\<close>

definition cstr :: "string \<Rightarrow> string" where
  "cstr s = takeWhile (\<lambda>c. c \<noteq> CHR 0x00) s"

text \<open>
  \<open>strncpy (dst, src, n)\<close> into an array of more than \<open>n\<close> bytes whose byte \<open>n\<close> is NUL:
  the C string that the array then holds.
\<close>

definition strncpy :: "nat \<Rightarrow> string \<Rightarrow> string" where
  "strncpy n src = take n (cstr src)"

definition isspace :: "char \<Rightarrow> bool" where
  "isspace c = (let k = (of_char c :: nat) in k = 32 \<or> 9 \<le> k \<and> k \<le> 13)"

definition isdigit :: "char \<Rightarrow> bool" where
  "isdigit c = (let k = (of_char c :: nat) in 48 \<le> k \<and> k \<le> 57)"

definition tolower :: "char \<Rightarrow> int" where
  "tolower c = (let k = (of_char c :: int) in if 65 \<le> k \<and> k \<le> 90 then k + 32 else k)"

fun memchr :: "char \<Rightarrow> string \<Rightarrow> nat option" where
  "memchr c [] = None"
| "memchr c (x # xs) = (if x = c then Some 0 else map_option Suc (memchr c xs))"

definition strchr :: "char \<Rightarrow> string \<Rightarrow> nat option" where
  "strchr c s = memchr c (cstr s)"

fun strrchr :: "char \<Rightarrow> string \<Rightarrow> nat option" where
  "strrchr c [] = None"
| "strrchr c (x # xs) =
     (case strrchr c xs of Some i \<Rightarrow> Some (Suc i) | None \<Rightarrow> if x = c then Some 0 else None)"

fun strstr :: "string \<Rightarrow> string \<Rightarrow> nat option" where
  "strstr [] pat = (if pat = [] then Some 0 else None)"
| "strstr (x # xs) pat =
     (if prefix pat (x # xs) then Some 0 else map_option Suc (strstr xs pat))"

abbreviation LLONG_MAX :: int where "LLONG_MAX \<equiv> 9223372036854775807"
abbreviation LLONG_MIN :: int where "LLONG_MIN \<equiv> -9223372036854775808"
abbreviation INT_MAX :: int where "INT_MAX \<equiv> 2147483647"
abbreviation INT_MIN :: int where "INT_MIN \<equiv> -2147483648"

definition digits_val :: "string \<Rightarrow> int" where
  "digits_val ds = foldl (\<lambda>v d. 10 * v + (of_char d - 48)) 0 ds"

text \<open>\<open>strtoll (s, &end, 10)\<close>: the value and the text from \<open>end\<close> on.\<close>

definition strtoll :: "string \<Rightarrow> int \<times> string" where
  "strtoll s =
     (let s1 = dropWhile isspace s;
          neg = (case s1 of c # _ \<Rightarrow> c = CHR ''-'' | [] \<Rightarrow> False);
          s2 = (case s1 of c # r \<Rightarrow> if c = CHR ''-'' \<or> c = CHR ''+'' then r else s1 | [] \<Rightarrow> []);
          ds = takeWhile isdigit s2;
          v = (if neg then - digits_val ds else digits_val ds)
      in if ds = [] then (0, s)
         else (max LLONG_MIN (min LLONG_MAX v), dropWhile isdigit s2))"

text \<open>\<open>atoi\<close>: the value of \<open>strtol\<close> converted to a 32-bit \<open>int\<close>.\<close>

definition atoi :: "string \<Rightarrow> int" where
  "atoi s = sint (word_of_int (fst (strtoll (cstr s))) :: 32 word)"

text \<open>Decimal and hexadecimal output of \<open>printf\<close>.\<close>

definition digit_char :: "nat \<Rightarrow> char" where
  "digit_char d = char_of (if d < 10 then 48 + d else 87 + d)"

fun nat_base :: "nat \<Rightarrow> nat \<Rightarrow> string" where
  "nat_base b n =
     (if n < b \<or> b \<le> 1 then [digit_char n] else nat_base b (n div b) @ [digit_char (n mod b)])"

declare nat_base.simps [simp del]

abbreviation dec_nat :: "nat \<Rightarrow> string" where "dec_nat \<equiv> nat_base 10"
abbreviation hex_nat :: "nat \<Rightarrow> string" where "hex_nat \<equiv> nat_base 16"

definition dec_int :: "int \<Rightarrow> string" where
  "dec_int i = (if i < 0 then CHR ''-'' # dec_nat (nat (- i)) else dec_nat (nat i))"

definition pad_left :: "nat \<Rightarrow> char \<Rightarrow> string \<Rightarrow> string" where
  "pad_left w c s = replicate (w - length s) c @ s"

text \<open>
  The first \<open>n\<close> bytes of an array of \<open>sz\<close> bytes after \<open>n = snprintf (array, sz, ...)\<close> has
  formatted the text \<open>s\<close>: \<open>n\<close> is the length of the whole text, the array holds at most
  \<open>sz - 1\<close> bytes of it and a NUL.
\<close>

definition fmt_bytes :: "nat \<Rightarrow> string \<Rightarrow> string mem" where
  "fmt_bytes sz s =
     (if length s < sz then Inr s
      else if length s = sz then Inr (take (sz - 1) s @ [CHR 0x00])
      else Inl Out_of_bounds)"

text \<open>
  \<open>n += snprintf (array + n, sz - n, ...)\<close> on an array of \<open>sz\<close> bytes that holds the C string
  \<open>w\<close>: \<open>n\<close> is the length of all text so far, of which at most \<open>sz - 1\<close> bytes are in the array.
  When \<open>n\<close> is beyond \<open>sz\<close> the unsigned difference wraps and the call writes outside the array.
\<close>

definition snprintf_at :: "nat \<Rightarrow> string \<times> nat \<Rightarrow> string \<Rightarrow> (string \<times> nat) mem" where
  "snprintf_at sz wn s =
     (case wn of (w, n) \<Rightarrow>
        if sz < n then Inl Out_of_bounds else Inr (w @ take (sz - 1 - n) s, n + length s))"

fun snprintf_all :: "nat \<Rightarrow> string \<times> nat \<Rightarrow> string list \<Rightarrow> (string \<times> nat) mem" where
  "snprintf_all sz wn [] = Inr wn"
| "snprintf_all sz wn (s # ss) = mbind (snprintf_at sz wn s) (\<lambda>wn. snprintf_all sz wn ss)"

abbreviation CRLF :: string where "CRLF \<equiv> [CHR 0x0D, CHR 0x0A]"
abbreviation LF :: string where "LF \<equiv> [CHR 0x0A]"

section \<open>Lemmas\<close>

subsection \<open>Results and memory\<close>

lemma mbind_simps [simp]: "mbind (Inl e) f = Inl e" "mbind (Inr x) f = f x"
  by (simp_all add: mbind_def)

lemma mbind_Inr_iff: "mbind m f = Inr y \<longleftrightarrow> (\<exists>x. m = Inr x \<and> f x = Inr y)"
  by (cases m) auto

lemma snprintf_all_fits:
  "n + length (concat ss) < sz \<Longrightarrow> snprintf_all sz (w, n) ss = Inr (w @ concat ss, n + length (concat ss))"
  by (induction ss arbitrary: w n) (simp_all add: snprintf_at_def)

lemma length_memcpy_at: "memcpy_at dst off src = Inr d \<Longrightarrow> length d = length dst"
  by (auto simp: memcpy_at_def split: if_splits)

lemma memcpy_at_Inr_iff:
  "memcpy_at dst off src = Inr d \<longleftrightarrow>
     off + length src \<le> length dst \<and> d = take off dst @ src @ drop (off + length src) dst"
  by (auto simp: memcpy_at_def)

subsection \<open>Words\<close>

lemma unat_diff_np [np_word]: "unat b \<le> unat a \<Longrightarrow> unat (a - b) = unat a - unat b"
  for a b :: "'a::len word"
  by (simp add: unat_sub word_le_nat_alt)

lemma unat_add_np [np_word]:
  "unat a + unat b < 2 ^ LENGTH('a) \<Longrightarrow> unat (a + b) = unat a + unat b"
  for a b :: "'a::len word"
  by (rule unat_add_lem [THEN iffD1])

lemma unat_of_nat_np [np_word]: "n < 2 ^ 64 \<Longrightarrow> unat (of_nat n :: usize) = n"
  by (simp add: unat_of_nat)

lemma unat_usize_less [simp]: "unat (w :: usize) < 2 ^ 64"
  using unsigned_less [of w] by simp

lemma of_nat_le_usize: "n \<le> unat w \<Longrightarrow> (of_nat n :: usize) \<le> w"
  using unat_usize_less [of w]
  by (simp add: word_le_nat_alt unat_of_nat)

subsection \<open>Strings\<close>

lemma cstr_no_nul [np_clib]: "CHR 0x00 \<notin> set (cstr s)"
  by (auto simp: cstr_def dest: set_takeWhileD)

lemma cstr_ident [np_clib]: "CHR 0x00 \<notin> set s \<Longrightarrow> cstr s = s"
  unfolding cstr_def by (subst takeWhile_eq_all_conv) auto

lemma cstr_idem [simp]: "cstr (cstr s) = cstr s"
  by (simp add: cstr_ident cstr_no_nul)

lemma length_cstr_le: "length (cstr s) \<le> length s"
  by (simp add: cstr_def length_takeWhile_le)

lemma set_cstr_subset: "set (cstr s) \<subseteq> set s"
  by (auto simp: cstr_def dest: set_takeWhileD)

lemma length_strncpy [simp]: "length (strncpy n s) \<le> n"
  by (simp add: strncpy_def)

lemma strncpy_no_nul [np_clib]: "CHR 0x00 \<notin> set (strncpy n s)"
  unfolding strncpy_def using cstr_no_nul in_set_takeD by metis

lemma strncpy_ident [np_clib]: "CHR 0x00 \<notin> set s \<Longrightarrow> length s \<le> n \<Longrightarrow> strncpy n s = s"
  by (simp add: strncpy_def cstr_ident)

lemma memchr_None_iff [np_clib]: "memchr c s = None \<longleftrightarrow> c \<notin> set s"
  by (induction s) auto

lemma memchr_SomeD:
  "memchr c s = Some i \<Longrightarrow> i < length s \<and> s ! i = c \<and> c \<notin> set (take i s)"
proof (induction s arbitrary: i)
  case Nil
  then show ?case by simp
next
  case (Cons x s)
  then show ?case by (cases i) (auto split: if_splits)
qed

lemma memchr_append [np_clib]: "c \<notin> set xs \<Longrightarrow> memchr c (xs @ c # ys) = Some (length xs)"
  by (induction xs) auto

lemma memchr_skip:
  "c \<notin> set xs \<Longrightarrow> memchr c (xs @ ys) = map_option (\<lambda>i. length xs + i) (memchr c ys)"
  by (cases "memchr c ys"; induction xs; auto)

lemma strrchr_None_iff [np_clib]: "strrchr c s = None \<longleftrightarrow> c \<notin> set s"
  by (induction s) (auto split: option.splits)

lemma strrchr_SomeD:
  "strrchr c s = Some i \<Longrightarrow> i < length s \<and> s ! i = c \<and> c \<notin> set (drop (Suc i) s)"
proof (induction s arbitrary: i)
  case Nil
  then show ?case by simp
next
  case (Cons x s)
  then show ?case
    by (auto simp: strrchr_None_iff split: option.splits if_splits)
qed

lemma strstr_None_iff [np_clib]: "strstr s pat = None \<longleftrightarrow> \<not> sublist pat s"
proof (induction s)
  case Nil
  then show ?case by simp
next
  case (Cons x s)
  then show ?case by (auto simp: sublist_Cons_right)
qed

subsection \<open>Decimal output\<close>

lemma nat_base_ne_Nil [simp]: "nat_base b n \<noteq> []"
  by (subst nat_base.simps) simp

lemma isdigit_digit_char: "d < 10 \<Longrightarrow> isdigit (digit_char d)"
  by (simp add: isdigit_def digit_char_def Let_def)

lemma of_char_digit_char: "d < 10 \<Longrightarrow> (of_char (digit_char d) :: int) = 48 + int d"
proof -
  assume "d < 10"
  then have "(of_char (digit_char d) :: nat) = 48 + d"
    by (simp add: digit_char_def)
  then show ?thesis
    by (metis of_nat_of_char of_nat_add of_nat_numeral)
qed

lemma dec_nat_digits: "list_all isdigit (dec_nat n)"
proof (induction n rule: less_induct)
  case (less n)
  show ?case
    by (subst nat_base.simps) (use less [of "n div 10"] in \<open>auto simp: isdigit_digit_char\<close>)
qed

lemma digits_val_snoc: "digits_val (ds @ [d]) = 10 * digits_val ds + (of_char d - 48)"
  by (simp add: digits_val_def)

lemma digits_val_dec_nat: "digits_val (dec_nat n) = int n"
proof (induction n rule: less_induct)
  case (less n)
  show ?case
  proof (cases "n < 10")
    case True
    then show ?thesis
      by (subst nat_base.simps) (simp add: digits_val_def of_char_digit_char)
  next
    case False
    then have "n div 10 < n" by simp
    then have "digits_val (dec_nat (n div 10)) = int (n div 10)" by (rule less)
    with False show ?thesis
      by (subst nat_base.simps) (simp add: digits_val_snoc of_char_digit_char zdiv_int zmod_int)
  qed
qed

lemma isdigit_not_space: "isdigit c \<Longrightarrow> \<not> isspace c"
  by (auto simp: isdigit_def isspace_def Let_def)

lemma isdigit_not_sign: "isdigit c \<Longrightarrow> c \<noteq> CHR ''-'' \<and> c \<noteq> CHR ''+'' \<and> c \<noteq> CHR 0x00"
  by (auto simp: isdigit_def)

text \<open>Reading back the decimal output of a value of type \<open>long long\<close>.\<close>

lemma strtoll_dec_nat:
  assumes "int n \<le> LLONG_MAX"
  shows "strtoll (dec_nat n) = (int n, [])"
proof -
  obtain c r where cr: "dec_nat n = c # r" by (cases "dec_nat n") auto
  have all: "\<forall>x \<in> set (dec_nat n). isdigit x"
    using dec_nat_digits by (simp add: list_all_iff)
  then have c: "isdigit c" and r: "\<forall>x \<in> set r. isdigit x" by (simp_all add: cr)
  have tk: "takeWhile isdigit r = r" using r by (simp add: takeWhile_eq_all_conv)
  have dv: "digits_val (c # r) = int n" using digits_val_dec_nat [of n] by (simp add: cr)
  show ?thesis
    unfolding strtoll_def Let_def cr
    using assms c r isdigit_not_space [OF c] isdigit_not_sign [OF c] by (simp add: tk dv)
qed

lemma length_nat_base_le: "2 \<le> b \<Longrightarrow> n < b ^ Suc k \<Longrightarrow> length (nat_base b n) \<le> Suc k"
proof (induction k arbitrary: n)
  case 0
  then show ?case by (subst nat_base.simps) simp
next
  case (Suc k)
  then have "n div b < b ^ Suc k" by (simp add: less_mult_imp_div_less mult.commute)
  then have "length (nat_base b (n div b)) \<le> Suc k" using Suc by blast
  then show ?case by (subst nat_base.simps) simp
qed

lemma length_dec_nat_le: "n < 10 ^ Suc k \<Longrightarrow> length (dec_nat n) \<le> Suc k"
  by (rule length_nat_base_le) simp_all

text \<open>The value of a text of digits; leading zeros do not change it.\<close>

definition digit_val :: "char \<Rightarrow> nat" where
  "digit_val c = (let k = of_char c in if k < 58 then k - 48 else k - 87)"

definition base_val :: "nat \<Rightarrow> string \<Rightarrow> nat" where
  "base_val b ds = foldl (\<lambda>v d. b * v + digit_val d) 0 ds"

lemma digit_val_digit_char: "d < 16 \<Longrightarrow> digit_val (digit_char d) = d"
  by (simp add: digit_val_def digit_char_def Let_def)

lemma base_val_nat_base: "2 \<le> b \<Longrightarrow> b \<le> 16 \<Longrightarrow> base_val b (nat_base b n) = n"
proof (induction n rule: less_induct)
  case (less n)
  show ?case
  proof (cases "n < b")
    case True
    then show ?thesis
      using less.prems by (subst nat_base.simps) (simp add: base_val_def digit_val_digit_char)
  next
    case False
    with less.prems have "n div b < n" by simp
    then have "base_val b (nat_base b (n div b)) = n div b" using less by blast
    moreover have "n mod b < 16" using less.prems by (meson less_le_trans mod_less_divisor less_le_trans zero_less_numeral)
    ultimately show ?thesis
      using False less.prems by (subst nat_base.simps) (simp add: base_val_def digit_val_digit_char)
  qed
qed

lemma base_val_zeros: "base_val b (replicate k (CHR ''0'') @ ds) = base_val b ds"
  by (induction k) (simp_all add: base_val_def digit_val_def)

lemma pad_left_nat_base_inject:
  assumes "2 \<le> b" "b \<le> 16" "pad_left w (CHR ''0'') (nat_base b m) = pad_left w (CHR ''0'') (nat_base b n)"
  shows "m = n"
  using assms base_val_nat_base by (metis base_val_zeros pad_left_def)

end
