(* ===== verification/Socket.thy ===== *)
theory Socket
  imports Prelude
begin

text \<open>
  The sockets of \<^verbatim>\<open>src/src/net/socket.c\<close>, with the conversion of addresses of the C library. What
  the kernel answers to each call is an argument; the result of a function holds the options it
  sets and the descriptors it closes. The lemmas say that a descriptor is handed to the caller
  exactly when the function succeeds and is closed otherwise.
\<close>

section \<open>Addresses\<close>

text \<open>An IPv4 address is the word whose first byte is the most significant.\<close>

definition octet :: "u32 \<Rightarrow> nat \<Rightarrow> nat" where
  "octet a i = unat a div 256 ^ (3 - i) mod 256"

definition inet_ntop :: "u32 \<Rightarrow> string" where
  "inet_ntop a = dec_nat (octet a 0) @ ''.'' @ dec_nat (octet a 1) @ ''.'' @ dec_nat (octet a 2) @ ''.'' @ dec_nat (octet a 3)"

fun split_dots :: "string \<Rightarrow> string list" where
  "split_dots [] = [[]]"
| "split_dots (c # s) =
     (if c = CHR ''.'' then [] # split_dots s
      else (case split_dots s of [] \<Rightarrow> [[c]] | p # ps \<Rightarrow> (c # p) # ps))"

text \<open>A part: digits of a value below 256, with no zero in front.\<close>

definition octet_ok :: "string \<Rightarrow> bool" where
  "octet_ok p \<longleftrightarrow> p \<noteq> [] \<and> list_all isdigit p \<and> digits_val p < 256 \<and> (hd p = CHR ''0'' \<longrightarrow> length p = 1)"

definition inet_pton :: "string \<Rightarrow> u32 option" where
  "inet_pton s =
     (case split_dots s of
        [a, b, c, d] \<Rightarrow>
          if octet_ok a \<and> octet_ok b \<and> octet_ok c \<and> octet_ok d
          then Some (word_of_int (((digits_val a * 256 + digits_val b) * 256 + digits_val c) * 256 + digits_val d))
          else None
      | _ \<Rightarrow> None)"

section \<open>Model\<close>

record np_socket_t =
  sk_fd :: int
  sk_addr :: "u32 \<times> u16"

datatype sockopt =
    SO_REUSEADDR | SO_REUSEPORT | SO_RCVBUF | SO_SNDBUF | SO_KEEPALIVE
  | TCP_NODELAY | TCP_KEEPIDLE | TCP_KEEPINTVL | TCP_KEEPCNT

text \<open>\<open>flags\<close> is the answer of \<^verbatim>\<open>F_GETFL\<close>, \<open>ok\<close> whether \<^verbatim>\<open>F_SETFL\<close> succeeds; with the flags set.\<close>

abbreviation O_NONBLOCK :: u32 where "O_NONBLOCK \<equiv> 0x800"

definition socket_set_nonblocking :: "int \<Rightarrow> bool \<Rightarrow> np_status_t \<times> u32 option" where
  "socket_set_nonblocking flags ok =
     (if flags < 0 then (NP_ERR, None)
      else if \<not> ok then (NP_ERR, None)
      else (NP_OK, Some (word_of_int flags OR O_NONBLOCK)))"

text \<open>
  \<open>fd\<close> is the descriptor \<^verbatim>\<open>socket\<close> returns, the booleans say whether \<^verbatim>\<open>bind\<close> and \<^verbatim>\<open>listen\<close>
  succeed. The result is the status, the socket filled in, the options and the descriptors closed.
\<close>

definition socket_create_listener ::
  "np_socket_t \<Rightarrow> string option \<Rightarrow> u16 \<Rightarrow> int \<Rightarrow> (u32 \<times> u16 \<Rightarrow> bool) \<Rightarrow> bool \<Rightarrow>
   np_status_t \<times> np_socket_t \<times> (sockopt \<times> int) list \<times> int list" where
  "socket_create_listener sock host port fd bind listen =
     (if fd < 0 then (NP_ERR, sock, [], [])
      else
        (let opts = [(SO_REUSEADDR, 1), (SO_REUSEPORT, 1), (TCP_NODELAY, 1), (SO_RCVBUF, 256 * 1024), (SO_SNDBUF, 256 * 1024)];
             sin = (case host of
                None \<Rightarrow> Some 0
              | Some h \<Rightarrow> if h = ''0.0.0.0'' then Some 0 else inet_pton h)
         in case sin of
              None \<Rightarrow> (NP_ERR, sock, opts, [fd])
            | Some a \<Rightarrow>
                if \<not> bind (a, port) then (NP_ERR, sock, opts, [fd])
                else if \<not> listen then (NP_ERR, sock, opts, [fd])
                else (NP_OK, sock\<lparr>sk_fd := fd, sk_addr := (a, port)\<rparr>, opts, [])))"

datatype accept_result = Accept_fd int "u32 \<times> u16" | Accept_eagain | Accept_errno

definition socket_accept ::
  "accept_result \<Rightarrow> np_status_t \<times> (int \<times> u32 \<times> u16) option \<times> (sockopt \<times> int) list" where
  "socket_accept r =
     (case r of
        Accept_eagain \<Rightarrow> (NP_ERR_AGAIN, None, [])
      | Accept_errno \<Rightarrow> (NP_ERR, None, [])
      | Accept_fd fd peer \<Rightarrow>
          (NP_OK, Some (fd, peer),
           [(TCP_NODELAY, 1), (SO_KEEPALIVE, 1), (TCP_KEEPIDLE, 60), (TCP_KEEPINTVL, 10), (TCP_KEEPCNT, 3)]))"

datatype connect_result = Connect_ok | Connect_inprogress | Connect_errno

definition socket_connect_nonblock ::
  "string \<Rightarrow> u16 \<Rightarrow> int \<Rightarrow> (u32 \<times> u16 \<Rightarrow> connect_result) \<Rightarrow> np_status_t \<times> int option \<times> int list" where
  "socket_connect_nonblock host port fd connect =
     (if fd < 0 then (NP_ERR, None, [])
      else case inet_pton host of
        None \<Rightarrow> (NP_ERR, None, [fd])
      | Some a \<Rightarrow> if connect (a, port) = Connect_errno then (NP_ERR, None, [fd]) else (NP_OK, Some fd, []))"

definition socket_close :: "int \<Rightarrow> int list" where
  "socket_close fd = (if 0 \<le> fd then [fd] else [])"

section \<open>Addresses in text\<close>

lemma octet_less: "octet a i < 256"
  by (simp add: octet_def)

lemma octets_value: "int (((octet a 0 * 256 + octet a 1) * 256 + octet a 2) * 256 + octet a 3) = uint a"
proof -
  let ?n = "unat a"
  have "?n < 2 ^ 32" using unsigned_less [of a] by simp
  then have "?n div 16777216 < 256" by (simp add: less_mult_imp_div_less)
  then have 0: "octet a 0 = ?n div 16777216" by (simp add: octet_def)
  have step: "m div 256 * 256 + m mod 256 = m" for m :: nat by simp
  have "octet a 0 * 256 + octet a 1 = ?n div 65536"
    unfolding 0 using step [of "?n div 65536"] by (simp add: octet_def div_mult2_eq [symmetric])
  moreover have "?n div 65536 * 256 + octet a 2 = ?n div 256"
    using step [of "?n div 256"] by (simp add: octet_def div_mult2_eq [symmetric])
  moreover have "?n div 256 * 256 + octet a 3 = ?n" by (simp add: octet_def)
  ultimately have "((octet a 0 * 256 + octet a 1) * 256 + octet a 2) * 256 + octet a 3 = ?n" by (simp only:)
  then show ?thesis by simp
qed

lemma split_dots_digits: "list_all isdigit p \<Longrightarrow> split_dots (p @ CHR ''.'' # s) = p # split_dots s"
  by (induction p) (auto simp: isdigit_def)

lemma split_dots_last: "list_all isdigit p \<Longrightarrow> split_dots p = [p]"
  by (induction p) (auto simp: isdigit_def)

lemma dec_nat_leading: "hd (dec_nat n) = CHR ''0'' \<Longrightarrow> length (dec_nat n) = 1"
proof (induction n rule: less_induct)
  case (less n)
  show ?case
  proof (cases "n < 10")
    case True
    then show ?thesis by (subst nat_base.simps) simp
  next
    case False
    have eq: "dec_nat n = dec_nat (n div 10) @ [digit_char (n mod 10)]" using False by (subst nat_base.simps) simp
    then have hd0: "hd (dec_nat (n div 10)) = CHR ''0''" using less.prems by simp
    with hd0 have len: "length (dec_nat (n div 10)) = 1" using less.IH [of "n div 10"] False by simp
    then have d: "dec_nat (n div 10) = [CHR ''0'']" using hd0 by (cases "dec_nat (n div 10)") auto
    have "digits_val (dec_nat (n div 10)) = 0" unfolding d by (simp add: digits_val_def)
    then have "n div 10 = 0" by (simp add: digits_val_dec_nat)
    with False show ?thesis by simp
  qed
qed

lemma octet_ok_dec: "n < 256 \<Longrightarrow> octet_ok (dec_nat n)"
  using dec_nat_leading [of n] by (simp add: octet_ok_def dec_nat_digits digits_val_dec_nat)

text \<open>Reading an address back from its text.\<close>

lemma inet_pton_ntop: "inet_pton (inet_ntop a) = Some a"
proof -
  let ?o = "\<lambda>i. dec_nat (octet a i)"
  have "split_dots (inet_ntop a) = [?o 0, ?o 1, ?o 2, ?o 3]"
    by (simp add: inet_ntop_def split_dots_digits split_dots_last dec_nat_digits)
  moreover have "((int (octet a 0) * 256 + int (octet a 1)) * 256 + int (octet a 2)) * 256 + int (octet a 3) = uint a"
    using octets_value [of a] by simp
  ultimately show ?thesis
    by (simp add: inet_pton_def octet_ok_dec octet_less digits_val_dec_nat)
qed

lemma length_inet_ntop: "length (inet_ntop a) \<le> 15"
proof -
  have "length (dec_nat (octet a i)) \<le> 3" for i
    using length_dec_nat_le [of "octet a i" 2] octet_less [of a i] by simp
  from this [of 0] this [of 1] this [of 2] this [of 3] show ?thesis by (simp add: inet_ntop_def)
qed

section \<open>Descriptors\<close>

text \<open>Which descriptor a call leaves open: the one it returns, or none.\<close>

lemma create_listener_fd:
  assumes "socket_create_listener sock host port fd bind listen = (st, sock', opts, closed)"
  shows "st = NP_OK \<longleftrightarrow> 0 \<le> fd \<and> closed = []" "st = NP_OK \<Longrightarrow> sk_fd sock' = fd"
    "st \<noteq> NP_OK \<Longrightarrow> sock' = sock \<and> closed = (if 0 \<le> fd then [fd] else [])"
  using assms by (auto simp: socket_create_listener_def Let_def split: if_splits option.splits)

lemma connect_nonblock_fd:
  assumes "socket_connect_nonblock host port fd connect = (st, r, closed)"
  shows "st = NP_OK \<longleftrightarrow> r = Some fd \<and> 0 \<le> fd \<and> closed = []"
    "st \<noteq> NP_OK \<Longrightarrow> r = None \<and> closed = (if 0 \<le> fd then [fd] else [])"
  using assms by (auto simp: socket_connect_nonblock_def split: if_splits option.splits)

end
