(* ===== verification/Buffer.thy ===== *)
theory Buffer
  imports Prelude
begin

text \<open>
  The I/O buffer of \<^verbatim>\<open>src/src/net/buffer.c\<close>: a block with a read and a write position,
  kept as 64-bit words because \<^verbatim>\<open>buf_consume\<close> and \<^verbatim>\<open>buf_produce\<close> add without a check
  and \<^verbatim>\<open>buf_readable\<close> subtracts without one. The kernel's answer to a \<^verbatim>\<open>read\<close> or
  \<^verbatim>\<open>write\<close> is an argument of the operation that makes the call. The locale
  \<open>byte_queue\<close> is the interface the response writers use; the buffer interprets it,
  and a run of buffer operations refines a FIFO queue of bytes.
\<close>

section \<open>Model\<close>

text \<open>The block is the empty string when \<^verbatim>\<open>data\<close> is \<^verbatim>\<open>NULL\<close>.\<close>

record np_buf_t =
  b_data :: string
  b_cap :: usize
  b_read_pos :: usize
  b_write_pos :: usize

text \<open>The argument \<open>m\<close> is the result of \<open>malloc (cap)\<close>.\<close>

definition buf_init :: "np_buf_t \<Rightarrow> usize \<Rightarrow> string option \<Rightarrow> np_buf_t \<times> np_status_t" where
  "buf_init b cap m =
     (case m of
        None \<Rightarrow> (b\<lparr>b_data := []\<rparr>, NP_ERR_NOMEM)
      | Some d \<Rightarrow> (b\<lparr>b_data := d, b_cap := cap, b_read_pos := 0, b_write_pos := 0\<rparr>, NP_OK))"

definition buf_free :: "np_buf_t \<Rightarrow> np_buf_t" where
  "buf_free b = b\<lparr>b_data := [], b_cap := 0, b_read_pos := 0, b_write_pos := 0\<rparr>"

definition buf_reset :: "np_buf_t \<Rightarrow> np_buf_t" where
  "buf_reset b = b\<lparr>b_read_pos := 0, b_write_pos := 0\<rparr>"

definition buf_readable :: "np_buf_t \<Rightarrow> usize" where
  "buf_readable b = b_write_pos b - b_read_pos b"

definition buf_writable :: "np_buf_t \<Rightarrow> usize" where
  "buf_writable b = b_cap b - b_write_pos b"

definition buf_consume :: "np_buf_t \<Rightarrow> usize \<Rightarrow> np_buf_t" where
  "buf_consume b n =
     (let b = b\<lparr>b_read_pos := b_read_pos b + n\<rparr>
      in if b_read_pos b = b_write_pos b then b\<lparr>b_read_pos := 0, b_write_pos := 0\<rparr> else b)"

definition buf_produce :: "np_buf_t \<Rightarrow> usize \<Rightarrow> np_buf_t" where
  "buf_produce b n = b\<lparr>b_write_pos := b_write_pos b + n\<rparr>"

text \<open>The bytes at \<^verbatim>\<open>buf_read_ptr\<close>, as many as \<^verbatim>\<open>buf_readable\<close> says.\<close>

definition buf_read_ptr :: "np_buf_t \<Rightarrow> string mem" where
  "buf_read_ptr b =
     (if unat (b_read_pos b) + unat (buf_readable b) \<le> length (b_data b)
      then Inr (take (unat (buf_readable b)) (drop (unat (b_read_pos b)) (b_data b)))
      else Inl Out_of_bounds)"

definition buf_compact :: "np_buf_t \<Rightarrow> np_buf_t mem" where
  "buf_compact b =
     (let readable = buf_readable b
      in if readable = 0 then Inr (buf_reset b)
         else if 0 < b_read_pos b then
           mbind (buf_read_ptr b) (\<lambda>s.
           mbind (memcpy_at (b_data b) 0 s) (\<lambda>d.
             Inr (b\<lparr>b_data := d, b_read_pos := 0, b_write_pos := readable\<rparr>)))
         else Inr b)"

text \<open>
  The pair \<open>memcpy (buf_write_ptr (b), s, n); buf_produce (b, n)\<close> that every writer of a
  buffer consists of.
\<close>

definition buf_memcpy :: "np_buf_t \<Rightarrow> string \<Rightarrow> np_buf_t mem" where
  "buf_memcpy b s =
     mbind (memcpy_at (b_data b) (unat (b_write_pos b)) s) (\<lambda>d.
       Inr (buf_produce (b\<lparr>b_data := d\<rparr>) (of_nat (length s))))"

text \<open>The same under the guard \<open>buf_writable (b) >= n\<close>: nothing is written when it fails.\<close>

definition buf_try_memcpy :: "np_buf_t \<Rightarrow> string \<Rightarrow> np_buf_t mem" where
  "buf_try_memcpy b s =
     (if of_nat (length s) \<le> buf_writable b then buf_memcpy b s else Inr b)"

text \<open>The answer of the kernel to \<open>read\<close>; no data at all is the end of the stream.\<close>

datatype read_result = Read_data string | Read_eagain | Read_errno

definition buf_read_fd :: "np_buf_t \<Rightarrow> read_result \<Rightarrow> (np_buf_t \<times> int) mem" where
  "buf_read_fd b r =
     mbind (buf_compact b) (\<lambda>b.
       if buf_writable b = 0 then Inr (b, 0)
       else (case r of
          Read_data s \<Rightarrow>
            if 0 < length s then mbind (buf_memcpy b s) (\<lambda>b. Inr (b, int (length s)))
            else Inr (b, np_code NP_ERR_CLOSED)
        | Read_eagain \<Rightarrow> Inr (b, np_code NP_ERR_AGAIN)
        | Read_errno \<Rightarrow> Inr (b, np_code NP_ERR)))"

text \<open>The answer of the kernel to \<open>write\<close>: how many of the bytes it took.\<close>

datatype write_result = Write_n nat | Write_eagain | Write_errno

text \<open>The third component is what the kernel took.\<close>

definition buf_write_fd :: "np_buf_t \<Rightarrow> write_result \<Rightarrow> (np_buf_t \<times> int \<times> string) mem" where
  "buf_write_fd b w =
     (if buf_readable b = 0 then Inr (b, 0, [])
      else mbind (buf_read_ptr b) (\<lambda>s.
        case w of
          Write_n n \<Rightarrow>
            Inr (if 0 < n then buf_consume b (of_nat n) else b, int n, take n s)
        | Write_eagain \<Rightarrow> Inr (b, np_code NP_ERR_AGAIN, [])
        | Write_errno \<Rightarrow> Inr (b, np_code NP_ERR, [])))"

text \<open>
  The kernel as the loops over these calls meet it: its answer to a \<^verbatim>\<open>read\<close> depends on the room
  there is, its answer to a \<^verbatim>\<open>write\<close> on the bytes offered.
\<close>

type_synonym kernel_read = "nat \<Rightarrow> read_result"
type_synonym kernel_write = "string \<Rightarrow> write_result"

text \<open>\<open>n = buf_read_fd (b, fd)\<close>, with what was read.\<close>

definition buf_recv :: "kernel_read \<Rightarrow> np_buf_t \<Rightarrow> (np_buf_t \<times> int \<times> string) mem" where
  "buf_recv k b =
     (let r = k (unat (b_cap b - buf_readable b))
      in mbind (buf_read_fd b r) (\<lambda>(b, n).
           Inr (b, n, case r of Read_data s \<Rightarrow> if 0 < n then s else [] | _ \<Rightarrow> [])))"

definition buf_send :: "kernel_write \<Rightarrow> np_buf_t \<Rightarrow> (np_buf_t \<times> int \<times> string) mem" where
  "buf_send k b =
     buf_write_fd b (k (take (unat (buf_readable b)) (drop (unat (b_read_pos b)) (b_data b))))"

text \<open>
  \<open>do { n = buf_read_fd (b, fd); } while (n > 0);\<close> over the answers the kernel gives in
  turn; when they are used up the next call would block. Likewise for \<^verbatim>\<open>buf_write_fd\<close>.
\<close>

fun buf_recv_all :: "kernel_read list \<Rightarrow> np_buf_t \<Rightarrow> (np_buf_t \<times> int \<times> string) mem" where
  "buf_recv_all [] b = buf_recv (\<lambda>_. Read_eagain) b"
| "buf_recv_all (k # ks) b =
     mbind (buf_recv k b) (\<lambda>(b, n, s).
       if 0 < n then mbind (buf_recv_all ks b) (\<lambda>(b, n, s'). Inr (b, n, s @ s')) else Inr (b, n, s))"

fun buf_send_all :: "kernel_write list \<Rightarrow> np_buf_t \<Rightarrow> (np_buf_t \<times> int \<times> string) mem" where
  "buf_send_all [] b = buf_send (\<lambda>_. Write_eagain) b"
| "buf_send_all (k # ks) b =
     mbind (buf_send k b) (\<lambda>(b, n, s).
       if 0 < n then mbind (buf_send_all ks b) (\<lambda>(b, n, s'). Inr (b, n, s @ s')) else Inr (b, n, s))"

text \<open>Invariant and abstraction.\<close>

definition buf_ok :: "np_buf_t \<Rightarrow> bool" where
  "buf_ok b \<longleftrightarrow> length (b_data b) = unat (b_cap b) \<and>
     unat (b_read_pos b) \<le> unat (b_write_pos b) \<and> unat (b_write_pos b) \<le> unat (b_cap b)"

definition buf_contents :: "np_buf_t \<Rightarrow> string" where
  "buf_contents b =
     take (unat (b_write_pos b) - unat (b_read_pos b)) (drop (unat (b_read_pos b)) (b_data b))"

definition buf_room :: "np_buf_t \<Rightarrow> nat" where
  "buf_room b = unat (b_cap b) - unat (b_write_pos b)"

text \<open>What the kernel promises: at most the bytes asked for.\<close>

definition read_within :: "np_buf_t \<Rightarrow> read_result \<Rightarrow> bool" where
  "read_within b r \<longleftrightarrow>
     (case r of Read_data s \<Rightarrow> length s \<le> unat (b_cap b) - length (buf_contents b) | _ \<Rightarrow> True)"

definition write_within :: "np_buf_t \<Rightarrow> write_result \<Rightarrow> bool" where
  "write_within b w \<longleftrightarrow>
     (case w of Write_n n \<Rightarrow> n \<le> length (buf_contents b) | _ \<Rightarrow> True)"

text \<open>
  A run of buffer operations, with the bytes that entered the buffer and the bytes that
  the kernel took from it.
\<close>

datatype buf_op = Op_read read_result | Op_write write_result | Op_append string | Op_compact

definition buf_step :: "np_buf_t \<Rightarrow> buf_op \<Rightarrow> (np_buf_t \<times> string \<times> string) mem" where
  "buf_step b op =
     (case op of
        Op_read r \<Rightarrow> mbind (buf_read_fd b r) (\<lambda>(b', n).
          Inr (b', case r of Read_data s \<Rightarrow> if 0 < n then s else [] | _ \<Rightarrow> [], []))
      | Op_write w \<Rightarrow> mbind (buf_write_fd b w) (\<lambda>(b', n, s). Inr (b', [], s))
      | Op_append s \<Rightarrow> mbind (buf_try_memcpy b s) (\<lambda>b'.
          Inr (b', if of_nat (length s) \<le> buf_writable b then s else [], []))
      | Op_compact \<Rightarrow> mbind (buf_compact b) (\<lambda>b'. Inr (b', [], [])))"

fun buf_run :: "np_buf_t \<Rightarrow> buf_op list \<Rightarrow> (np_buf_t \<times> string \<times> string) mem" where
  "buf_run b [] = Inr (b, [], [])"
| "buf_run b (op # ops) =
     mbind (buf_step b op) (\<lambda>(b1, i1, o1).
     mbind (buf_run b1 ops) (\<lambda>(b2, i2, o2). Inr (b2, i1 @ i2, o1 @ o2)))"

definition op_within :: "np_buf_t \<Rightarrow> buf_op \<Rightarrow> bool" where
  "op_within b op =
     (case op of
        Op_read r \<Rightarrow> read_within b r
      | Op_write w \<Rightarrow> write_within b w
      | Op_append s \<Rightarrow> length s < 2 ^ 64
      | Op_compact \<Rightarrow> True)"

fun run_within :: "np_buf_t \<Rightarrow> buf_op list \<Rightarrow> bool" where
  "run_within b [] = True"
| "run_within b (op # ops) =
     (op_within b op \<and> (case buf_step b op of Inl _ \<Rightarrow> True | Inr (b', _, _) \<Rightarrow> run_within b' ops))"

section \<open>The buffer as a queue of bytes\<close>

lemma unat_buf_readable [np_word]:
  "buf_ok b \<Longrightarrow> unat (buf_readable b) = unat (b_write_pos b) - unat (b_read_pos b)"
  by (simp add: buf_ok_def buf_readable_def np_word)

lemma unat_buf_writable [np_word]: "buf_ok b \<Longrightarrow> unat (buf_writable b) = buf_room b"
  by (simp add: buf_ok_def buf_writable_def buf_room_def np_word)

lemma buf_readable_contents: "buf_ok b \<Longrightarrow> unat (buf_readable b) = length (buf_contents b)"
  by (auto simp: np_word buf_contents_def buf_ok_def)

lemma buf_readable_0_iff: "buf_ok b \<Longrightarrow> buf_readable b = 0 \<longleftrightarrow> buf_contents b = []"
  by (metis buf_readable_contents length_0_conv unat_eq_zero)

lemma buf_writable_0_iff: "buf_ok b \<Longrightarrow> buf_writable b = 0 \<longleftrightarrow> buf_room b = 0"
  by (metis unat_buf_writable unat_eq_zero)

lemma buf_read_ptr_contents: "buf_ok b \<Longrightarrow> buf_read_ptr b = Inr (buf_contents b)"
  by (auto simp: buf_read_ptr_def buf_contents_def np_word) (auto simp: buf_ok_def)

lemma length_buf_contents:
  "buf_ok b \<Longrightarrow> length (buf_contents b) = unat (b_write_pos b) - unat (b_read_pos b)"
  by (auto simp: buf_contents_def buf_ok_def)

lemma buf_room_contents_le: "buf_ok b \<Longrightarrow> length (buf_contents b) + buf_room b \<le> unat (b_cap b)"
  by (auto simp: length_buf_contents buf_room_def buf_ok_def)

lemma buf_init_ok [np_invar]:
  assumes "length d = unat cap"
  shows "buf_ok (fst (buf_init b cap (Some d)))" "buf_contents (fst (buf_init b cap (Some d))) = []"
    "buf_room (fst (buf_init b cap (Some d))) = unat cap"
  using assms by (simp_all add: buf_init_def buf_ok_def buf_contents_def buf_room_def)

lemma buf_reset_ok [np_invar]: "buf_ok b \<Longrightarrow> buf_ok (buf_reset b)"
  by (simp add: buf_reset_def buf_ok_def)

lemma buf_reset_contents [simp]: "buf_contents (buf_reset b) = []"
  by (simp add: buf_reset_def buf_contents_def)

lemma buf_reset_room [simp]: "buf_room (buf_reset b) = unat (b_cap b)"
  by (simp add: buf_reset_def buf_room_def)

lemma buf_reset_cap [simp]: "b_cap (buf_reset b) = b_cap b"
  by (simp add: buf_reset_def)

lemma buf_memcpy_fits:
  assumes ok: "buf_ok b" and fits: "length s \<le> buf_room b"
  shows "\<exists>b'. buf_memcpy b s = Inr b' \<and> buf_ok b' \<and> buf_contents b' = buf_contents b @ s \<and>
     buf_room b' = buf_room b - length s \<and> b_cap b' = b_cap b"
proof -
  let ?r = "unat (b_read_pos b)" and ?w = "unat (b_write_pos b)" and ?c = "unat (b_cap b)"
  from ok have le: "?r \<le> ?w" "?w \<le> ?c" "length (b_data b) = ?c" by (simp_all add: buf_ok_def)
  with fits have fit: "?w + length s \<le> ?c" by (simp add: buf_room_def)
  have less: "?w + length s < 2 ^ 64" using fit unat_usize_less [of "b_cap b"] by linarith
  then have n: "unat (b_write_pos b + of_nat (length s)) = ?w + length s"
    by (simp add: np_word)
  have "take (?w + length s - ?r) (drop ?r (take ?w (b_data b) @ s)) =
      take (?w - ?r) (drop ?r (b_data b)) @ s"
    using le by (simp add: take_drop)
  then show ?thesis
    using le fit n
    by (simp add: buf_memcpy_def memcpy_at_def buf_produce_def buf_ok_def buf_contents_def
        buf_room_def)
qed

lemma buf_memcpy_overflow:
  "buf_ok b \<Longrightarrow> buf_room b < length s \<Longrightarrow> buf_memcpy b s = Inl Out_of_bounds"
  by (simp add: buf_memcpy_def memcpy_at_def buf_ok_def buf_room_def)

lemma buf_try_memcpy_eq:
  assumes "buf_ok b" "length s < 2 ^ 64"
  shows "buf_try_memcpy b s = (if length s \<le> buf_room b then buf_memcpy b s else Inr b)"
  using assms by (simp add: buf_try_memcpy_def word_le_nat_alt np_word)

lemma buf_consume_ok:
  assumes ok: "buf_ok b" and n: "n \<le> length (buf_contents b)"
  shows "buf_ok (buf_consume b (of_nat n))"
    and "buf_contents (buf_consume b (of_nat n)) = drop n (buf_contents b)"
    and "b_cap (buf_consume b (of_nat n)) = b_cap b"
    and "buf_room b \<le> buf_room (buf_consume b (of_nat n))"
proof -
  let ?r = "unat (b_read_pos b)" and ?w = "unat (b_write_pos b)"
  from ok have le: "?r \<le> ?w" "?w \<le> unat (b_cap b)" "length (b_data b) = unat (b_cap b)"
    by (simp_all add: buf_ok_def)
  from n ok le(1) have n': "?r + n \<le> ?w" by (simp add: length_buf_contents)
  then have less: "?r + n < 2 ^ 64" using unat_usize_less [of "b_write_pos b"] by linarith
  then have u: "unat (b_read_pos b + of_nat n) = ?r + n" by (simp add: np_word)
  have eq: "b_read_pos b + of_nat n = b_write_pos b \<longleftrightarrow> ?r + n = ?w"
    using u by (metis word_unat_eq_iff)
  show "buf_ok (buf_consume b (of_nat n))"
    using le n' u eq by (auto simp: buf_consume_def buf_ok_def)
  show "buf_contents (buf_consume b (of_nat n)) = drop n (buf_contents b)"
    using le n' u eq
    by (auto simp: buf_consume_def buf_contents_def drop_take add.commute diff_diff_left)
  show "b_cap (buf_consume b (of_nat n)) = b_cap b"
    by (simp add: buf_consume_def Let_def)
  show "buf_room b \<le> buf_room (buf_consume b (of_nat n))"
    by (simp add: buf_consume_def buf_room_def Let_def)
qed

lemma buf_compact_ok:
  assumes ok: "buf_ok b"
  shows "\<exists>b'. buf_compact b = Inr b' \<and> buf_ok b' \<and> buf_contents b' = buf_contents b \<and>
     b_cap b' = b_cap b \<and> buf_room b' = unat (b_cap b) - length (buf_contents b)"
proof (cases "buf_readable b = 0")
  case True
  with ok have "buf_contents b = []" by (simp add: buf_readable_0_iff)
  with True ok show ?thesis by (simp add: buf_compact_def np_invar)
next
  case rd: False
  let ?n = "unat (b_write_pos b) - unat (b_read_pos b)"
  from ok have le: "unat (b_read_pos b) \<le> unat (b_write_pos b)"
    "unat (b_write_pos b) \<le> unat (b_cap b)" "length (b_data b) = unat (b_cap b)"
    by (simp_all add: buf_ok_def)
  have len: "length (buf_contents b) = ?n" using ok by (rule length_buf_contents)
  show ?thesis
  proof (cases "0 < b_read_pos b")
    case True
    with rd ok le len show ?thesis
      by (simp add: buf_compact_def buf_read_ptr_contents memcpy_at_def buf_ok_def
          buf_room_def unat_buf_readable [OF ok] Let_def)
         (simp add: buf_contents_def unat_buf_readable [OF ok] le)
  next
    case False
    then have "b_read_pos b = 0" by (simp add: word_gt_0)
    with rd ok len show ?thesis by (simp add: buf_compact_def buf_room_def Let_def)
  qed
qed

subsection \<open>The interface of the response writers\<close>

locale byte_queue =
  fixes invar :: "'b \<Rightarrow> bool"
    and contents :: "'b \<Rightarrow> string"
    and room :: "'b \<Rightarrow> nat"
    and put :: "'b \<Rightarrow> string \<Rightarrow> 'b mem"
  assumes put_fits: "invar b \<Longrightarrow> length s \<le> room b \<Longrightarrow>
      \<exists>b'. put b s = Inr b' \<and> invar b' \<and> contents b' = contents b @ s \<and> room b' = room b - length s"
    and put_overflow: "invar b \<Longrightarrow> room b < length s \<Longrightarrow> put b s = Inl Out_of_bounds"
begin

lemma put_Inr_iff: "invar b \<Longrightarrow> (\<exists>b'. put b s = Inr b') \<longleftrightarrow> length s \<le> room b"
  using put_fits [of b s] put_overflow [of b s] by (metis not_le sum.distinct(1))

lemma guarded_put:
  assumes "invar b"
  shows "\<exists>b'. (if length s \<le> room b then put b s else Inr b) = Inr b' \<and> invar b' \<and>
     contents b' = contents b @ (if length s \<le> room b then s else []) \<and> room b' \<le> room b"
  using put_fits [OF assms, of s] assms by auto

text \<open>
  A header and then a body, each under its guard: when both fit the queue gains both;
  when only the header fits it gains the header alone.
\<close>

lemma guarded_put_two:
  assumes inv: "invar b"
  shows "\<exists>b' b''. (if length h \<le> room b then put b h else Inr b) = Inr b' \<and>
     (if length s \<le> room b' then put b' s else Inr b') = Inr b'' \<and> invar b' \<and> invar b'' \<and>
     contents b'' = contents b @ (if length h \<le> room b then h else []) @
       (if length s \<le> room b' then s else []) \<and>
     (length h + length s \<le> room b \<longrightarrow> contents b'' = contents b @ h @ s)"
proof (cases "length h \<le> room b")
  case True
  then obtain b' where b': "put b h = Inr b'" "invar b'" "contents b' = contents b @ h"
      "room b' = room b - length h"
    using put_fits [OF inv] by blast
  obtain b'' where b'': "(if length s \<le> room b' then put b' s else Inr b') = Inr b''" "invar b''"
      "contents b'' = contents b' @ (if length s \<le> room b' then s else [])"
    using guarded_put [OF b'(2)] by blast
  show ?thesis using True b' b'' by (intro exI [of _ b'] exI [of _ b'']) auto
next
  case False
  obtain b'' where "(if length s \<le> room b then put b s else Inr b) = Inr b''" "invar b''"
      "contents b'' = contents b @ (if length s \<le> room b then s else [])"
    using guarded_put [OF inv] by blast
  with False inv show ?thesis by (intro exI [of _ b] exI [of _ b'']) auto
qed

end

locale byte_fifo = byte_queue +
  fixes consume :: "'b \<Rightarrow> nat \<Rightarrow> 'b"
    and compact :: "'b \<Rightarrow> 'b mem"
  assumes consume_ok: "invar b \<Longrightarrow> n \<le> length (contents b) \<Longrightarrow>
      invar (consume b n) \<and> contents (consume b n) = drop n (contents b) \<and> room b \<le> room (consume b n)"
    and compact_ok: "invar b \<Longrightarrow>
      \<exists>b'. compact b = Inr b' \<and> invar b' \<and> contents b' = contents b \<and> room b \<le> room b'"
begin

text \<open>Consuming in two steps is consuming at once, and compaction loses nothing.\<close>

lemma consume_consume:
  assumes "invar b" "m + n \<le> length (contents b)"
  shows "contents (consume (consume b m) n) = contents (consume b (m + n))"
  using consume_ok [OF assms(1), of m] consume_ok [OF assms(1), of "m + n"]
    consume_ok [of "consume b m" n] assms by (simp add: add.commute)

lemma compact_then_put:
  assumes "invar b" "length s \<le> room b"
  shows "\<exists>b' b''. compact b = Inr b' \<and> put b' s = Inr b'' \<and> invar b'' \<and> contents b'' = contents b @ s"
  using compact_ok [OF assms(1)] put_fits assms by (metis order_trans)

end

interpretation bufq: byte_fifo buf_ok buf_contents buf_room buf_memcpy
  "\<lambda>b n. buf_consume b (of_nat n)" buf_compact
proof unfold_locales
  fix b s
  show "buf_ok b \<Longrightarrow> length s \<le> buf_room b \<Longrightarrow>
      \<exists>b'. buf_memcpy b s = Inr b' \<and> buf_ok b' \<and> buf_contents b' = buf_contents b @ s \<and>
        buf_room b' = buf_room b - length s"
    using buf_memcpy_fits by blast
  show "buf_ok b \<Longrightarrow> buf_room b < length s \<Longrightarrow> buf_memcpy b s = Inl Out_of_bounds"
    by (rule buf_memcpy_overflow)
next
  fix b n
  show "buf_ok b \<Longrightarrow> n \<le> length (buf_contents b) \<Longrightarrow>
      buf_ok (buf_consume b (of_nat n)) \<and>
      buf_contents (buf_consume b (of_nat n)) = drop n (buf_contents b) \<and>
      buf_room b \<le> buf_room (buf_consume b (of_nat n))"
    using buf_consume_ok by blast
next
  fix b
  assume ok: "buf_ok b"
  have "buf_room b \<le> unat (b_cap b) - length (buf_contents b)"
    using buf_room_contents_le [OF ok] by linarith
  then show "\<exists>b'. buf_compact b = Inr b' \<and> buf_ok b' \<and> buf_contents b' = buf_contents b \<and>
      buf_room b \<le> buf_room b'"
    using buf_compact_ok [OF ok] by metis
qed

lemmas buf_eval = buf_ok_def buf_contents_def buf_room_def buf_init_def buf_reset_def
  buf_readable_def buf_writable_def buf_consume_def buf_produce_def buf_read_ptr_def
  buf_compact_def buf_memcpy_def buf_try_memcpy_def memcpy_at_def buf_read_fd_def
  buf_write_fd_def buf_step_def op_within_def read_within_def write_within_def Let_def

section \<open>Reading and writing\<close>

lemma buf_read_fd_ok:
  assumes ok: "buf_ok b" and kernel: "read_within b r"
  shows "\<exists>b' n. buf_read_fd b r = Inr (b', n) \<and> buf_ok b' \<and> b_cap b' = b_cap b \<and>
     buf_contents b' = buf_contents b @ (case r of Read_data s \<Rightarrow> if 0 < n then s else [] | _ \<Rightarrow> [])"
proof -
  obtain c where c: "buf_compact b = Inr c" "buf_ok c" "buf_contents c = buf_contents b"
      "b_cap c = b_cap b" "buf_room c = unat (b_cap b) - length (buf_contents b)"
    using buf_compact_ok [OF ok] by blast
  show ?thesis
  proof (cases "\<exists>s. r = Read_data s \<and> s \<noteq> [] \<and> buf_writable c \<noteq> 0")
    case True
    then obtain s where s: "r = Read_data s" "s \<noteq> []" "buf_writable c \<noteq> 0" by blast
    with kernel c(5) have "length s \<le> buf_room c" by (simp add: read_within_def)
    then obtain d where d: "buf_memcpy c s = Inr d" "buf_ok d" "buf_contents d = buf_contents c @ s"
        "b_cap d = b_cap c"
      using buf_memcpy_fits [OF c(2)] by blast
    with s c show ?thesis by (simp add: buf_read_fd_def)
  next
    case False
    with c show ?thesis by (auto simp: buf_read_fd_def split: read_result.splits)
  qed
qed

lemma buf_write_fd_ok:
  assumes ok: "buf_ok b" and kernel: "write_within b w"
  shows "\<exists>b' n s. buf_write_fd b w = Inr (b', n, s) \<and> buf_ok b' \<and> b_cap b' = b_cap b \<and>
     buf_contents b = s @ buf_contents b' \<and> (0 < n \<longrightarrow> n = int (length s)) \<and> (n \<le> 0 \<longrightarrow> s = [])"
proof (cases "buf_readable b = 0 \<or> (\<forall>n. w \<noteq> Write_n n)")
  case True
  with ok show ?thesis
    by (auto simp: buf_write_fd_def buf_read_ptr_contents split: write_result.splits)
next
  case False
  then obtain n where n: "w = Write_n n" "buf_readable b \<noteq> 0" by blast
  with kernel have "n \<le> length (buf_contents b)" by (simp add: write_within_def)
  with n ok buf_consume_ok [OF ok this] show ?thesis
    by (simp add: buf_write_fd_def buf_read_ptr_contents)
qed

text \<open>A kernel that reads at most what there is room for, and takes at most what it is offered.\<close>

definition kernel_read_ok :: "kernel_read \<Rightarrow> bool" where
  "kernel_read_ok k \<longleftrightarrow> (\<forall>room s. k room = Read_data s \<longrightarrow> length s \<le> room)"

definition kernel_write_ok :: "kernel_write \<Rightarrow> bool" where
  "kernel_write_ok k \<longleftrightarrow> (\<forall>s n. k s = Write_n n \<longrightarrow> n \<le> length s)"

lemma buf_recv_ok:
  assumes ok: "buf_ok b" and k: "kernel_read_ok k"
  shows "\<exists>b' n s. buf_recv k b = Inr (b', n, s) \<and> buf_ok b' \<and> b_cap b' = b_cap b \<and>
     buf_contents b' = buf_contents b @ s \<and> (n \<le> 0 \<longrightarrow> s = [])"
proof -
  let ?r = "k (unat (b_cap b - buf_readable b))"
  have "unat (buf_readable b) \<le> unat (b_cap b)"
    using ok by (auto simp: np_word buf_ok_def)
  then have "unat (b_cap b - buf_readable b) = unat (b_cap b) - length (buf_contents b)"
    using ok by (simp add: np_word length_buf_contents)
  then have "read_within b ?r"
    using k by (auto simp: read_within_def kernel_read_ok_def split: read_result.splits)
  from buf_read_fd_ok [OF ok this] obtain b' n where
    "buf_read_fd b ?r = Inr (b', n)" "buf_ok b'" "b_cap b' = b_cap b"
    "buf_contents b' = buf_contents b @ (case ?r of Read_data s \<Rightarrow> if 0 < n then s else [] | _ \<Rightarrow> [])" by blast
  then show ?thesis by (simp add: buf_recv_def split: read_result.splits)
qed

lemma buf_send_ok:
  assumes ok: "buf_ok b" and k: "kernel_write_ok k"
  shows "\<exists>b' n s. buf_send k b = Inr (b', n, s) \<and> buf_ok b' \<and> b_cap b' = b_cap b \<and>
     buf_contents b = s @ buf_contents b' \<and> (n \<le> 0 \<longrightarrow> s = [])"
proof -
  have c: "take (unat (buf_readable b)) (drop (unat (b_read_pos b)) (b_data b)) = buf_contents b"
    using ok by (simp add: np_word buf_contents_def buf_ok_def)
  have "write_within b (k (buf_contents b))"
    using k by (auto simp: write_within_def kernel_write_ok_def split: write_result.splits)
  from buf_write_fd_ok [OF ok this] show ?thesis unfolding buf_send_def c by blast
qed

text \<open>Both loops keep the bytes in order: what is read goes behind, what is sent was in front.\<close>

lemma buf_recv_all_ok:
  assumes "buf_ok b" "list_all kernel_read_ok ks"
  shows "\<exists>b' n s. buf_recv_all ks b = Inr (b', n, s) \<and> buf_ok b' \<and> b_cap b' = b_cap b \<and>
     buf_contents b' = buf_contents b @ s"
  using assms
proof (induction ks arbitrary: b)
  case Nil
  then show ?case using buf_recv_ok [OF Nil(1), of "\<lambda>_. Read_eagain"] by (auto simp: kernel_read_ok_def)
next
  case (Cons k ks)
  from buf_recv_ok [OF Cons.prems(1), of k] Cons.prems(2) obtain c n s where
    c: "buf_recv k b = Inr (c, n, s)" "buf_ok c" "b_cap c = b_cap b" "buf_contents c = buf_contents b @ s" by auto
  from Cons.IH [OF c(2)] Cons.prems(2) c show ?case by auto
qed

lemma buf_send_all_ok:
  assumes "buf_ok b" "list_all kernel_write_ok ks"
  shows "\<exists>b' n s. buf_send_all ks b = Inr (b', n, s) \<and> buf_ok b' \<and> b_cap b' = b_cap b \<and>
     buf_contents b = s @ buf_contents b'"
  using assms
proof (induction ks arbitrary: b)
  case Nil
  then show ?case using buf_send_ok [OF Nil(1), of "\<lambda>_. Write_eagain"] by (auto simp: kernel_write_ok_def)
next
  case (Cons k ks)
  from buf_send_ok [OF Cons.prems(1), of k] Cons.prems(2) obtain c n s where
    c: "buf_send k b = Inr (c, n, s)" "buf_ok c" "b_cap c = b_cap b" "buf_contents b = s @ buf_contents c" by auto
  from Cons.IH [OF c(2)] Cons.prems(2) c show ?case by auto
qed

lemma buf_try_memcpy_ok:
  assumes ok: "buf_ok b" and len: "length s < 2 ^ 64"
  shows "\<exists>b'. buf_try_memcpy b s = Inr b' \<and> buf_ok b' \<and> b_cap b' = b_cap b \<and>
     buf_contents b' = buf_contents b @ (if of_nat (length s) \<le> buf_writable b then s else [])"
proof (cases "length s \<le> buf_room b")
  case True
  with ok len show ?thesis
    using buf_memcpy_fits [OF ok True]
    by (auto simp: buf_try_memcpy_def word_le_nat_alt np_word)
next
  case False
  with ok len show ?thesis by (auto simp: buf_try_memcpy_def word_le_nat_alt np_word)
qed

lemma buf_step_fifo:
  assumes ok: "buf_ok b" and within: "op_within b op"
  shows "\<exists>b' i s. buf_step b op = Inr (b', i, s) \<and> buf_ok b' \<and> b_cap b' = b_cap b \<and>
     buf_contents b @ i = s @ buf_contents b'"
proof (cases op)
  case (Op_read r)
  then show ?thesis
    using buf_read_fd_ok [OF ok, of r] within
    by (auto simp: buf_step_def op_within_def)
next
  case (Op_write w)
  then show ?thesis
    using buf_write_fd_ok [OF ok, of w] within by (auto simp: buf_step_def op_within_def)
next
  case (Op_append s)
  then show ?thesis
    using buf_try_memcpy_ok [OF ok, of s] within by (auto simp: buf_step_def op_within_def)
next
  case Op_compact
  then show ?thesis using buf_compact_ok [OF ok] by (auto simp: buf_step_def)
qed

text \<open>C22: Any sequence of reads, writes, guarded appends and compactions of a buffer, with a
  kernel that moves no more bytes than it is asked to, ends without an access outside the
  buffer's block, keeps its invariant and its capacity, and behaves as a queue of bytes:
  what it held followed by what came in is what was taken out followed by what it holds.\<close>

theorem buf_run_fifo:
  assumes "buf_ok b" and "run_within b ops"
  shows "\<exists>b' i s. buf_run b ops = Inr (b', i, s) \<and> buf_ok b' \<and> b_cap b' = b_cap b \<and>
     buf_contents b @ i = s @ buf_contents b'"
  using assms
proof (induction ops arbitrary: b)
  case Nil
  then show ?case by simp
next
  case (Cons op ops)
  then have "op_within b op" by simp
  from buf_step_fifo [OF Cons.prems(1) this] obtain b1 i1 s1 where
    1: "buf_step b op = Inr (b1, i1, s1)" "buf_ok b1" "b_cap b1 = b_cap b"
      "buf_contents b @ i1 = s1 @ buf_contents b1" by blast
  with Cons.prems have "run_within b1 ops" by simp
  from Cons.IH [OF 1(2) this] obtain b2 i2 s2 where
    2: "buf_run b1 ops = Inr (b2, i2, s2)" "buf_ok b2" "b_cap b2 = b_cap b1"
      "buf_contents b1 @ i2 = s2 @ buf_contents b2" by blast
  have "buf_contents b @ i1 @ i2 = s1 @ s2 @ buf_contents b2"
    using 1(4) 2(4) by (metis append.assoc)
  with 1 2 show ?case by simp
qed

theorem buf_run_fifo_witness:
  "\<exists>b' i s. buf_run \<lparr>b_data = ''xxxxxxxx'', b_cap = 8, b_read_pos = 0, b_write_pos = 0\<rparr>
       [Op_append ''abcde'', Op_write (Write_n 2), Op_read (Read_data ''fg'')] = Inr (b', i, s) \<and>
     buf_ok b' \<and> i = s @ buf_contents b'"
proof -
  let ?b = "\<lparr>b_data = ''xxxxxxxx'', b_cap = 8, b_read_pos = 0, b_write_pos = 0\<rparr>"
  let ?ops = "[Op_append ''abcde'', Op_write (Write_n 2), Op_read (Read_data ''fg'')]"
  have 1: "buf_ok ?b" by (simp add: buf_eval)
  have 2: "run_within ?b ?ops" by (simp add: buf_eval)
  have 3: "buf_contents ?b = []" by (simp add: buf_eval)
  show ?thesis using buf_run_fifo [OF 1 2] unfolding 3 append_Nil by blast
qed

end
