(* ===== verification/Arena.thy ===== *)
theory Arena
  imports Prelude
begin

text \<open>
  The arena allocator of \<^verbatim>\<open>src/src/core/memory.c\<close>. Addresses and sizes are 64-bit
  words, since the code adds sizes without a check and pads by the address. The answer of
  \<^verbatim>\<open>malloc\<close> is an argument; \<open>malloc_ok\<close> states what the C library documents of it
  (16-byte alignment, a block that does not wrap and does not overlap a live one, no
  block of half the address space or more). The main lemma shows that every pointer the
  arena hands out is aligned, inside a block, and apart from all others.
\<close>

section \<open>Model\<close>

record arena_block =
  blk_start :: usize
  blk_cap :: usize
  blk_used :: usize

text \<open>The blocks in the order of the \<^verbatim>\<open>next\<close> pointers, \<^verbatim>\<open>head\<close> first.\<close>

record arena_t =
  a_blocks :: "arena_block list"
  a_block_size :: usize

text \<open>\<open>sizeof (arena_block_t)\<close>: four 8-byte fields.\<close>

abbreviation BLOCK_HDR :: usize where "BLOCK_HDR \<equiv> 32"

definition block_create :: "usize \<Rightarrow> usize option \<Rightarrow> arena_block option" where
  "block_create sz m =
     (case m of
        None \<Rightarrow> None
      | Some p \<Rightarrow> Some \<lparr>blk_start = p + BLOCK_HDR, blk_cap = sz, blk_used = 0\<rparr>)"

text \<open>\<open>m1\<close> says whether \<open>malloc (sizeof (arena_t))\<close> succeeds, \<open>m2\<close> is the block's.\<close>

definition arena_create :: "usize \<Rightarrow> bool \<Rightarrow> usize option \<Rightarrow> arena_t option" where
  "arena_create block_size m1 m2 =
     (if \<not> m1 then None
      else (case block_create block_size m2 of
         None \<Rightarrow> None
       | Some b \<Rightarrow> Some \<lparr>a_blocks = [b], a_block_size = block_size\<rparr>))"

definition arena_alloc_aligned ::
  "arena_t \<Rightarrow> usize \<Rightarrow> usize \<Rightarrow> usize option \<Rightarrow> arena_t \<times> usize option" where
  "arena_alloc_aligned a sz align m =
     (let block = hd (a_blocks a);
          pad = (align - ((blk_start block + blk_used block) mod align)) mod align;
          need = sz + pad
      in if blk_used block + need > blk_cap block then
           (let bsize = (if need > a_block_size a then need else a_block_size a)
            in case block_create bsize m of
                 None \<Rightarrow> (a, None)
               | Some nb \<Rightarrow>
                   (a\<lparr>a_blocks := nb\<lparr>blk_used := blk_used nb + need\<rparr> # a_blocks a\<rparr>,
                    Some (blk_start nb + blk_used nb + 0)))
         else
           (a\<lparr>a_blocks := block\<lparr>blk_used := blk_used block + need\<rparr> # tl (a_blocks a)\<rparr>,
            Some (blk_start block + blk_used block + pad)))"

definition arena_alloc :: "arena_t \<Rightarrow> usize \<Rightarrow> usize option \<Rightarrow> arena_t \<times> usize option" where
  "arena_alloc a sz m = arena_alloc_aligned a sz 8 m"

text \<open>The loop that frees every block that has a next one, and keeps the last.\<close>

fun reset_loop :: "arena_block list \<Rightarrow> arena_block list" where
  "reset_loop (b # c # bs) = reset_loop (c # bs)"
| "reset_loop bs = bs"

definition arena_reset :: "arena_t \<Rightarrow> arena_t" where
  "arena_reset a =
     a\<lparr>a_blocks := (case reset_loop (a_blocks a) of
        [] \<Rightarrow> []
      | b # bs \<Rightarrow> b\<lparr>blk_used := 0\<rparr> # bs)\<rparr>"

text \<open>The addresses of the blocks freed, head first; the arena itself is freed last.\<close>

fun arena_destroy :: "arena_block list \<Rightarrow> usize list" where
  "arena_destroy [] = []"
| "arena_destroy (b # bs) = (blk_start b - BLOCK_HDR) # arena_destroy bs"

text \<open>
  A run of allocations: sizes, alignments and the answers of \<^verbatim>\<open>malloc\<close>; the result
  lists address, size and alignment of the allocations that succeed.
\<close>

type_synonym alloc_req = "usize \<times> usize \<times> usize option"

fun arena_run :: "arena_t \<Rightarrow> alloc_req list \<Rightarrow> arena_t \<times> (usize \<times> usize \<times> usize) list" where
  "arena_run a [] = (a, [])"
| "arena_run a ((sz, align, m) # rs) =
     (let (a1, p) = arena_alloc_aligned a sz align m; (a2, ps) = arena_run a1 rs
      in (a2, case p of None \<Rightarrow> ps | Some q \<Rightarrow> (q, sz, align) # ps))"

section \<open>Invariant\<close>

definition block_ok :: "arena_block \<Rightarrow> bool" where
  "block_ok b \<longleftrightarrow> unat (blk_start b) + unat (blk_cap b) < 2 ^ 64 \<and> blk_used b \<le> blk_cap b \<and>
     unat (blk_cap b) < 2 ^ 63 \<and> unat (blk_start b) mod 16 = 0"

definition block_area :: "arena_block \<Rightarrow> nat set" where
  "block_area b = {unat (blk_start b)..<unat (blk_start b) + unat (blk_cap b)}"

definition arena_ok :: "arena_t \<Rightarrow> bool" where
  "arena_ok a \<longleftrightarrow> a_blocks a \<noteq> [] \<and> list_all block_ok (a_blocks a) \<and>
     sorted_wrt (\<lambda>b c. block_area b \<inter> block_area c = {}) (a_blocks a) \<and>
     unat (a_block_size a) < 2 ^ 62"

text \<open>What \<^verbatim>\<open>malloc\<close> promises for a block of \<open>n\<close> bytes beside the live blocks.\<close>

definition malloc_ok :: "arena_block list \<Rightarrow> usize option \<Rightarrow> nat \<Rightarrow> bool" where
  "malloc_ok bs m n =
     (case m of
        None \<Rightarrow> True
      | Some p \<Rightarrow> unat p mod 16 = 0 \<and> unat p + n < 2 ^ 64 \<and>
          list_all (\<lambda>b. unat p + n \<le> unat (blk_start b) \<or>
            unat (blk_start b) + unat (blk_cap b) \<le> unat p) bs)"

text \<open>Sizes that an allocation of this program can ask for: below a quarter of the memory.\<close>

definition req_ok :: "arena_t \<Rightarrow> alloc_req \<Rightarrow> bool" where
  "req_ok a r = (case r of (sz, align, m) \<Rightarrow>
     unat sz < 2 ^ 62 \<and> unat align \<in> {1, 2, 4, 8, 16} \<and>
     malloc_ok (a_blocks a) m (32 + max (unat sz + 16) (unat (a_block_size a))))"

fun reqs_ok :: "arena_t \<Rightarrow> alloc_req list \<Rightarrow> bool" where
  "reqs_ok a [] = True"
| "reqs_ok a ((sz, align, m) # rs) =
     (req_ok a (sz, align, m) \<and> reqs_ok (fst (arena_alloc_aligned a sz align m)) rs)"

definition region :: "usize \<times> usize \<Rightarrow> nat set" where
  "region r = {unat (fst r)..<unat (fst r) + unat (snd r)}"

text \<open>The bytes the arena has given out or skipped as padding.\<close>

definition used_area :: "arena_t \<Rightarrow> nat set" where
  "used_area a =
     (\<Union>b \<in> set (a_blocks a). {unat (blk_start b)..<unat (blk_start b) + unat (blk_used b)})"

section \<open>One allocation\<close>

lemma unat_pad:
  fixes align x :: usize
  assumes "0 < unat align" "unat align \<le> 16"
  shows "unat ((align - x mod align) mod align) = (unat align - unat x mod unat align) mod unat align"
    and "unat ((align - x mod align) mod align) < 16"
proof -
  have le: "unat (x mod align) \<le> unat align"
    using assms(1) by (simp add: unat_mod mod_le_divisor)
  show eq: "unat ((align - x mod align) mod align) =
      (unat align - unat x mod unat align) mod unat align"
    using le by (simp add: unat_mod np_word)
  have "(unat align - unat x mod unat align) mod unat align < unat align"
    using assms(1) by simp
  then show "unat ((align - x mod align) mod align) < 16" using eq assms(2) by linarith
qed

lemma pad_aligns:
  fixes x al :: nat
  assumes "0 < al"
  shows "(x + (al - x mod al) mod al) mod al = 0"
proof -
  have "(x + (al - x mod al) mod al) mod al = (x + (al - x mod al)) mod al"
    by (simp add: mod_add_right_eq)
  also have "x + (al - x mod al) = (x div al) * al + al"
    using mod_less_divisor [OF assms, of x] div_mult_mod_eq [of x al] by linarith
  finally show ?thesis by simp
qed

lemma align_dvd_16: "(al :: nat) \<in> {1, 2, 4, 8, 16} \<Longrightarrow> x mod 16 = 0 \<Longrightarrow> x mod al = 0"
  by auto

text \<open>Bounds of the sizes computed: none of the unchecked additions wraps.\<close>

lemma alloc_sizes:
  assumes b: "block_ok b" and hsz: "unat sz < 2 ^ 62" and al: "unat align \<in> {1, 2, 4, 8, 16}"
  defines "pad \<equiv> (align - ((blk_start b + blk_used b) mod align)) mod align"
  shows "unat pad < 16" and "unat (sz + pad) = unat sz + unat pad"
    and "unat (blk_used b + (sz + pad)) = unat (blk_used b) + unat sz + unat pad"
    and "unat (blk_start b + blk_used b) = unat (blk_start b) + unat (blk_used b)"
    and "(unat (blk_start b) + unat (blk_used b) + unat pad) mod unat align = 0"
proof -
  from al have a: "0 < unat align" "unat align \<le> 16" by auto
  from b have u: "unat (blk_used b) \<le> unat (blk_cap b)" "unat (blk_cap b) < 2 ^ 63"
      "unat (blk_start b) + unat (blk_cap b) < 2 ^ 64"
    by (simp_all add: block_ok_def word_le_nat_alt)
  show p: "unat pad < 16" unfolding pad_def using a by (rule unat_pad(2))
  show s: "unat (sz + pad) = unat sz + unat pad" using p hsz by (simp add: np_word)
  show "unat (blk_used b + (sz + pad)) = unat (blk_used b) + unat sz + unat pad"
    using u(1,2) p hsz s by (subst unat_add_np) simp_all
  show st: "unat (blk_start b + blk_used b) = unat (blk_start b) + unat (blk_used b)"
    using u by (simp add: np_word)
  show "(unat (blk_start b) + unat (blk_used b) + unat pad) mod unat align = 0"
    unfolding pad_def unat_pad(1) [OF a] st using a(1) by (rule pad_aligns)
qed

lemma disjoint_Ico: "b \<le> c \<or> d \<le> a \<Longrightarrow> {a..<b} \<inter> {c..<d} = {}" for a :: nat
  by auto

text \<open>What an allocation leaves: the invariant, everything given out before, and a new region.\<close>

definition alloc_post :: "arena_t \<Rightarrow> usize \<Rightarrow> usize \<Rightarrow> arena_t \<Rightarrow> usize \<Rightarrow> bool" where
  "alloc_post a sz align a' p \<longleftrightarrow>
     arena_ok a' \<and> used_area a \<subseteq> used_area a' \<and> region (p, sz) \<subseteq> used_area a' \<and>
     region (p, sz) \<inter> used_area a = {} \<and> unat p mod unat align = 0 \<and>
     (\<exists>b \<in> set (a_blocks a'). region (p, sz) \<subseteq> block_area b)"

lemma used_sub_area:
  assumes "arena_ok a" "c \<in> set (a_blocks a)"
  shows "{unat (blk_start c)..<unat (blk_start c) + unat (blk_used c)} \<subseteq> block_area c"
proof -
  from assms have "block_ok c" by (simp add: arena_ok_def list_all_iff)
  then show ?thesis by (auto simp: block_area_def block_ok_def word_le_nat_alt)
qed

lemma alloc_in_head:
  assumes ok: "arena_ok a" and bs: "a_blocks a = b # bs"
    and hsz: "unat sz < 2 ^ 62" and al: "unat align \<in> {1, 2, 4, 8, 16}"
    and pad: "pad = (align - ((blk_start b + blk_used b) mod align)) mod align"
    and fits: "\<not> blk_used b + (sz + pad) > blk_cap b"
  shows "alloc_post a sz align (a\<lparr>a_blocks := b\<lparr>blk_used := blk_used b + (sz + pad)\<rparr> # bs\<rparr>)
     (blk_start b + blk_used b + pad)"
proof -
  let ?b = "b\<lparr>blk_used := blk_used b + (sz + pad)\<rparr>" and ?p = "blk_start b + blk_used b + pad"
  let ?a = "a\<lparr>a_blocks := ?b # bs\<rparr>"
  from ok bs have b: "block_ok b"
    and dis: "sorted_wrt (\<lambda>b c. block_area b \<inter> block_area c = {}) (b # bs)"
    by (simp_all add: arena_ok_def)
  note sizes = alloc_sizes [OF b hsz al, folded pad]
  from fits have fit: "unat (blk_used b) + unat sz + unat pad \<le> unat (blk_cap b)"
    using sizes(3) by (simp add: word_le_nat_alt not_less)
  have p: "unat ?p = unat (blk_start b) + unat (blk_used b) + unat pad"
    using sizes(4) fit b by (subst unat_add_np) (auto simp: block_ok_def)
  have okb: "block_ok ?b" using b fit sizes(3) by (simp add: block_ok_def word_le_nat_alt)
  have reg: "region (?p, sz) \<subseteq> {unat (blk_start b) + unat (blk_used b)..<
      unat (blk_start b) + unat (blk_used b) + unat sz + unat pad}"
    using p by (auto simp: region_def)
  then have inb: "region (?p, sz) \<subseteq> block_area b" using fit by (auto simp: block_area_def)
  have "region (?p, sz) \<inter> block_area c = {}" if "c \<in> set bs" for c
    using inb dis that by auto
  moreover have "region (?p, sz) \<inter> {unat (blk_start b)..<unat (blk_start b) + unat (blk_used b)} = {}"
    using reg by auto
  ultimately have "region (?p, sz) \<inter> used_area a = {}"
    using used_sub_area [OF ok] by (fastforce simp: used_area_def bs)
  moreover have "arena_ok ?a" using ok okb by (simp add: arena_ok_def bs block_area_def)
  moreover have "used_area a \<subseteq> used_area ?a" using sizes(3) by (auto simp: used_area_def bs)
  moreover have "region (?p, sz) \<subseteq> used_area ?a"
    using reg sizes(3) p by (auto simp: used_area_def region_def)
  moreover have "region (?p, sz) \<subseteq> block_area ?b" using inb by (simp add: block_area_def)
  ultimately show ?thesis using p sizes(5) by (auto simp: alloc_post_def)
qed

lemma alloc_in_new_block:
  assumes ok: "arena_ok a" and bs: "a_blocks a = b # bs"
    and hsz: "unat sz < 2 ^ 62" and al: "unat align \<in> {1, 2, 4, 8, 16}"
    and pad: "unat pad < 16"
    and mal: "malloc_ok (b # bs) (Some q) (32 + max (unat sz + 16) (unat (a_block_size a)))"
    and bsize: "bsize = (if sz + pad > a_block_size a then sz + pad else a_block_size a)"
  shows "alloc_post a sz align
     (a\<lparr>a_blocks := \<lparr>blk_start = q + 32, blk_cap = bsize, blk_used = sz + pad\<rparr> # b # bs\<rparr>) (q + 32)"
proof -
  let ?nb = "\<lparr>blk_start = q + 32, blk_cap = bsize, blk_used = sz + pad\<rparr>"
  let ?a = "a\<lparr>a_blocks := ?nb # b # bs\<rparr>"
  have bsz: "unat (a_block_size a) < 2 ^ 62" using ok by (simp add: arena_ok_def)
  have need: "unat (sz + pad) = unat sz + unat pad" using pad hsz by (simp add: np_word)
  have le: "unat bsize \<le> max (unat sz + 16) (unat (a_block_size a))"
    "unat sz + unat pad \<le> unat bsize"
    using pad need by (auto simp: bsize word_less_nat_alt)
  from mal have q: "unat q mod 16 = 0"
    "unat q + (32 + max (unat sz + 16) (unat (a_block_size a))) < 2 ^ 64"
    "\<And>c. c \<in> set (b # bs) \<Longrightarrow>
       unat q + (32 + max (unat sz + 16) (unat (a_block_size a))) \<le> unat (blk_start c) \<or>
       unat (blk_start c) + unat (blk_cap c) \<le> unat q"
    by (auto simp: malloc_ok_def list_all_iff)
  have q32: "unat (q + 32) = unat q + 32" using q(2) by (subst unat_add_np) simp_all
  have okn: "block_ok ?nb"
    using q(1,2) q32 le need hsz bsz by (auto simp: block_ok_def word_le_nat_alt)
  have far: "block_area ?nb \<inter> block_area c = {}" if "c \<in> set (b # bs)" for c
    unfolding block_area_def using q(3) [OF that] q32 le(1) by (intro disjoint_Ico) auto
  have reg: "region (q + 32, sz) \<subseteq> block_area ?nb"
    using q32 le by (auto simp: region_def block_area_def)
  have "region (q + 32, sz) \<inter> used_area a = {}"
    using reg far used_sub_area [OF ok] unfolding used_area_def bs by blast
  moreover have "arena_ok ?a" using ok okn far by (auto simp: arena_ok_def bs)
  moreover have "used_area a \<subseteq> used_area ?a" by (auto simp: used_area_def bs)
  moreover have "region (q + 32, sz) \<subseteq> used_area ?a"
    using need by (auto simp: used_area_def region_def)
  moreover have "unat (q + 32) mod unat align = 0"
  proof -
    have "(unat q + 32) mod 16 = 0" using q(1) by presburger
    from align_dvd_16 [OF al this] show ?thesis by (simp only: q32)
  qed
  ultimately show ?thesis using reg by (auto simp: alloc_post_def)
qed

lemma alloc_step:
  assumes ok: "arena_ok a" and rq: "req_ok a (sz, align, m)"
  obtains p where "snd (arena_alloc_aligned a sz align m) = Some p"
      "alloc_post a sz align (fst (arena_alloc_aligned a sz align m)) p"
  | "arena_alloc_aligned a sz align m = (a, None)"
proof -
  obtain b bs where bs: "a_blocks a = b # bs"
    using ok by (cases "a_blocks a") (auto simp: arena_ok_def)
  from rq have hsz: "unat sz < 2 ^ 62" and al: "unat align \<in> {1, 2, 4, 8, 16}"
    and mal: "malloc_ok (b # bs) m (32 + max (unat sz + 16) (unat (a_block_size a)))"
    by (simp_all add: req_ok_def bs)
  define pad where "pad = (align - ((blk_start b + blk_used b) mod align)) mod align"
  have p16: "unat pad < 16" unfolding pad_def using al by (intro unat_pad(2)) auto
  show thesis
  proof (cases "blk_used b + (sz + pad) > blk_cap b")
    case False
    then have "arena_alloc_aligned a sz align m =
        (a\<lparr>a_blocks := b\<lparr>blk_used := blk_used b + (sz + pad)\<rparr> # bs\<rparr>,
         Some (blk_start b + blk_used b + pad))"
      by (simp add: arena_alloc_aligned_def bs pad_def Let_def)
    with alloc_in_head [OF ok bs hsz al pad_def False] that(1) show thesis by simp
  next
    case True
    show thesis
    proof (cases m)
      case None
      with True have "arena_alloc_aligned a sz align m = (a, None)"
        by (simp add: arena_alloc_aligned_def bs pad_def Let_def block_create_def)
      then show thesis by (rule that(2))
    next
      case (Some q)
      let ?bsize = "if sz + pad > a_block_size a then sz + pad else a_block_size a"
      have "arena_alloc_aligned a sz align m =
          (a\<lparr>a_blocks := \<lparr>blk_start = q + 32, blk_cap = ?bsize, blk_used = sz + pad\<rparr> # b # bs\<rparr>,
           Some (q + 32))"
        using True Some unfolding pad_def
        by (simp add: arena_alloc_aligned_def bs Let_def block_create_def)
      with alloc_in_new_block [OF ok bs hsz al p16 mal [unfolded Some] refl] that(1)
      show thesis by simp
    qed
  qed
qed

section \<open>Runs of allocations\<close>

abbreviation alloc_region :: "usize \<times> usize \<times> usize \<Rightarrow> nat set" where
  "alloc_region r \<equiv> region (fst r, fst (snd r))"

text \<open>C27: Every pointer that a run of allocations returns is aligned as asked, lies in memory that
  the arena got from \<^verbatim>\<open>malloc\<close>, is apart from whatever was given out before the run, and the
  regions of the run are pairwise disjoint.
\<close>

theorem arena_run_disjoint:
  assumes "arena_ok a" and "reqs_ok a rs" and "arena_run a rs = (a', ps)"
  shows "arena_ok a' \<and> used_area a \<subseteq> used_area a' \<and>
     sorted_wrt (\<lambda>r s. alloc_region r \<inter> alloc_region s = {}) ps \<and>
     (\<forall>(p, sz, align) \<in> set ps. region (p, sz) \<subseteq> used_area a' \<and>
        region (p, sz) \<inter> used_area a = {} \<and> unat p mod unat align = 0)"
  using assms
proof (induction rs arbitrary: a ps)
  case Nil
  then show ?case by simp
next
  case (Cons r rs)
  obtain sz align m where r: "r = (sz, align, m)" by (cases r)
  let ?x = "arena_alloc_aligned a sz align m"
  obtain qs where run: "arena_run (fst ?x) rs = (a', qs)"
    and ps: "ps = (case snd ?x of None \<Rightarrow> qs | Some p \<Rightarrow> (p, sz, align) # qs)"
    using Cons.prems(3) by (auto simp: r Let_def split: prod.splits)
  from Cons.prems have rq: "req_ok a (sz, align, m)" and rest: "reqs_ok (fst ?x) rs"
    by (simp_all add: r)
  from alloc_step [OF Cons.prems(1) rq] show ?case
  proof cases
    case (1 p)
    then have ok: "arena_ok (fst ?x)" by (simp add: alloc_post_def)
    note IH = Cons.IH [OF ok rest run]
    have new: "region (p, sz) \<subseteq> used_area (fst ?x)" "used_area a \<subseteq> used_area (fst ?x)"
      using 1(2) by (simp_all add: alloc_post_def)
    have old: "region (p, sz) \<inter> used_area a = {}" "unat p mod unat align = 0"
      using 1(2) by (simp_all add: alloc_post_def)
    have apart: "region (q, z) \<inter> used_area (fst ?x) = {} \<and> region (q, z) \<subseteq> used_area a' \<and>
        unat q mod unat l = 0" if "(q, z, l) \<in> set qs" for q z l
      using IH that by fast
    have qs: "\<forall>(q, z, l) \<in> set qs. region (q, z) \<subseteq> used_area a' \<and> region (q, z) \<inter> used_area a = {} \<and>
        unat q mod unat l = 0"
      using apart new(2) by blast
    have p: "\<forall>r \<in> set qs. region (p, sz) \<inter> alloc_region r = {}"
      using apart new(1) by fastforce
    have "region (p, sz) \<subseteq> used_area a'" "used_area a \<subseteq> used_area a'"
      using IH new by blast+
    moreover have "ps = (p, sz, align) # qs" by (simp add: ps 1(1))
    ultimately show ?thesis
      using IH old qs p by simp
  next
    case 2
    with Cons.prems(1) rest run have "arena_run a rs = (a', qs)" "reqs_ok a rs" by simp_all
    with Cons.IH [OF Cons.prems(1)] 2 show ?thesis by (simp add: ps)
  qed
qed

theorem arena_run_disjoint_witness:
  "\<exists>a' ps. arena_run \<lparr>a_blocks = [\<lparr>blk_start = 1024, blk_cap = 64, blk_used = 0\<rparr>], a_block_size = 64\<rparr>
       [(5, 1, None), (8, 8, None), (100, 8, Some 4096)] = (a', ps) \<and>
     ps = [(1024, 5, 1), (1032, 8, 8), (4128, 100, 8)] \<and>
     sorted_wrt (\<lambda>r s. alloc_region r \<inter> alloc_region s = {}) ps"
proof -
  let ?a = "\<lparr>a_blocks = [\<lparr>blk_start = 1024, blk_cap = 64, blk_used = 0\<rparr>], a_block_size = 64\<rparr>"
  let ?rs = "[(5, 1, None), (8, 8, None), (100, 8, Some 4096)] :: alloc_req list"
  have 1: "arena_ok ?a" by (simp add: arena_ok_def block_ok_def)
  have 2: "reqs_ok ?a ?rs"
    by (simp add: req_ok_def malloc_ok_def arena_alloc_aligned_def block_create_def Let_def)
  have 3: "snd (arena_run ?a ?rs) = [(1024, 5, 1), (1032, 8, 8), (4128, 100, 8)]"
    by (simp add: arena_alloc_aligned_def block_create_def Let_def)
  obtain a' ps where run: "arena_run ?a ?rs = (a', ps)" by (rule prod.exhaust)
  with 3 have "ps = [(1024, 5, 1), (1032, 8, 8), (4128, 100, 8)]" by (simp only: snd_conv)
  then show ?thesis
    using run arena_run_disjoint [OF 1 2 run] by blast
qed

lemma reset_loop_last: "bs \<noteq> [] \<Longrightarrow> reset_loop bs = [last bs]"
  by (induction bs rule: reset_loop.induct) auto

lemma alloc_keeps_last:
  assumes "a_blocks a \<noteq> []"
    and a'_def: "a' = fst (arena_alloc_aligned a sz align m)"
  shows "a_blocks a' \<noteq> []" "(last (a_blocks a'))\<lparr>blk_used := 0\<rparr> = (last (a_blocks a))\<lparr>blk_used := 0\<rparr>"
    "a_block_size a' = a_block_size a"
  using assms(1) unfolding a'_def
  by (cases "a_blocks a"; auto simp: arena_alloc_aligned_def Let_def split: option.splits)+

lemma arena_run_keeps_last:
  assumes "a_blocks a \<noteq> []"
    and a'_def: "a' = fst (arena_run a rs)"
  shows "a_blocks a' \<noteq> [] \<and>
     (last (a_blocks a'))\<lparr>blk_used := 0\<rparr> = (last (a_blocks a))\<lparr>blk_used := 0\<rparr> \<and>
     a_block_size a' = a_block_size a"
  using assms(1) unfolding a'_def
proof (induction rs arbitrary: a)
  case Nil
  then show ?case by simp
next
  case (Cons r rs)
  obtain sz align m where r: "r = (sz, align, m)" by (cases r)
  note step = alloc_keeps_last [OF Cons.prems refl, of sz align m]
  have "fst (arena_run a (r # rs)) = fst (arena_run (fst (arena_alloc_aligned a sz align m)) rs)"
    by (simp add: r Let_def split: prod.splits)
  with Cons.IH [OF step(1)] step(2,3) show ?case by simp
qed

text \<open>Resetting an arena after any number of allocations gives back exactly the arena that
  \<^verbatim>\<open>arena_create\<close> returned: its first block, empty, and no other.
\<close>

theorem arena_reset_fresh:
  assumes "arena_create bsize m1 m2 = Some a"
  shows "arena_reset (fst (arena_run a rs)) = a"
proof -
  from assms obtain b where a: "a = \<lparr>a_blocks = [b], a_block_size = bsize\<rparr>" and b: "blk_used b = 0"
    by (auto simp: arena_create_def block_create_def split: if_splits option.splits)
  have b0: "b\<lparr>blk_used := 0\<rparr> = b" using b by simp
  have ne: "a_blocks a \<noteq> []" by (simp add: a)
  note run = arena_run_keeps_last [OF ne refl, of rs]
  then have "arena_reset (fst (arena_run a rs)) =
      (fst (arena_run a rs))\<lparr>a_blocks := [b]\<rparr>"
    by (simp add: arena_reset_def reset_loop_last a b0)
  also have "\<dots> = a" using run by (simp add: a)
  finally show ?thesis .
qed

theorem arena_reset_fresh_witness:
  "\<exists>a. arena_create 64 True (Some 1024) = Some a \<and>
     length (a_blocks (fst (arena_run a [(8, 8, None), (100, 8, Some 4096)]))) = 2 \<and>
     arena_reset (fst (arena_run a [(8, 8, None), (100, 8, Some 4096)])) = a"
proof -
  obtain a where a: "arena_create 64 True (Some 1024) = Some a"
    by (simp add: arena_create_def block_create_def)
  then have "a = \<lparr>a_blocks = [\<lparr>blk_start = 1056, blk_cap = 64, blk_used = 0\<rparr>], a_block_size = 64\<rparr>"
    by (simp add: arena_create_def block_create_def)
  then have "length (a_blocks (fst (arena_run a [(8, 8, None), (100, 8, Some 4096)]))) = 2"
    by (simp add: arena_alloc_aligned_def block_create_def Let_def)
  with a arena_reset_fresh [OF a] show ?thesis by blast
qed

end
