(* ===== verification/String_Util.thy ===== *)
theory String_Util
  imports Prelude
begin

text \<open>
  The string slices of \<^verbatim>\<open>src/src/core/string_util.c\<close>. A \<^verbatim>\<open>str_t\<close> is modelled by the
  bytes it denotes; \<^verbatim>\<open>STR_NULL\<close> is \<^verbatim>\<open>None\<close> where a caller tests for it. Comparison
  goes byte by byte as in the code, so a read past either slice would be an error; the
  lemmas show that no caller makes one and say what each function computes.
\<close>

section \<open>Model\<close>

fun np_strncasecmp :: "string \<Rightarrow> string \<Rightarrow> nat \<Rightarrow> int mem" where
  "np_strncasecmp a b 0 = Inr 0"
| "np_strncasecmp (x # a) (y # b) (Suc n) =
     (let ca = tolower x; cb = tolower y
      in if ca \<noteq> cb then Inr (ca - cb)
         else if ca = 0 then Inr 0
         else np_strncasecmp a b n)"
| "np_strncasecmp a b (Suc n) = Inl Out_of_bounds"

definition str_eq :: "string \<Rightarrow> string \<Rightarrow> bool" where
  "str_eq a b \<longleftrightarrow> length a = length b \<and> a = b"

definition str_ieq :: "string \<Rightarrow> string \<Rightarrow> bool" where
  "str_ieq a b = (if length a \<noteq> length b then False else np_strncasecmp a b (length a) = Inr 0)"

fun str_trim_left :: "string \<Rightarrow> string" where
  "str_trim_left [] = []"
| "str_trim_left (c # s) = (if isspace c then str_trim_left s else c # s)"

function str_trim_right :: "string \<Rightarrow> string" where
  "str_trim_right s =
     (if 0 < length s \<and> isspace (s ! (length s - 1)) then str_trim_right (take (length s - 1) s)
      else s)"
  by pat_completeness auto
termination by (relation "measure length") auto

declare str_trim_right.simps [simp del]

definition str_trim :: "string \<Rightarrow> string" where
  "str_trim s = str_trim_right (str_trim_left s)"

definition str_starts_with :: "string \<Rightarrow> string \<Rightarrow> bool" where
  "str_starts_with s p = (if length s < length p then False else take (length p) s = p)"

definition str_ends_with :: "string \<Rightarrow> string \<Rightarrow> bool" where
  "str_ends_with s p =
     (if length s < length p then False else take (length p) (drop (length s - length p) s) = p)"

definition str_slice :: "string \<Rightarrow> nat \<Rightarrow> nat \<Rightarrow> string" where
  "str_slice s start stop =
     (let start = (if start > length s then length s else start);
          stop = (if stop > length s then length s else stop);
          start = (if start > stop then stop else start)
      in take (stop - start) (drop start s))"

text \<open>\<open>None\<close> is the result \<open>-1\<close>; the slice is first copied to a 32-byte array.\<close>

definition str_to_int :: "string \<Rightarrow> int option" where
  "str_to_int s =
     (if length s = 0 then None
      else if length s \<ge> 32 then None
      else (let buf = cstr s; (v, rest) = strtoll buf
            in if length rest = length buf \<or> rest \<noteq> [] then None else Some v))"

text \<open>The argument \<open>m\<close> says whether \<open>malloc (len + 1)\<close> succeeds.\<close>

definition str_dup_cstr :: "string \<Rightarrow> bool \<Rightarrow> string option" where
  "str_dup_cstr s m = (if m then Some (s @ [CHR 0x00]) else None)"

fun contains_from :: "string \<Rightarrow> string \<Rightarrow> nat \<Rightarrow> nat \<Rightarrow> bool" where
  "contains_from h n i 0 = (np_strncasecmp (drop i h) n (length n) = Inr 0)"
| "contains_from h n i (Suc k) =
     (if np_strncasecmp (drop i h) n (length n) = Inr 0 then True
      else contains_from h n (Suc i) k)"

definition str_contains_i :: "string \<Rightarrow> string \<Rightarrow> bool" where
  "str_contains_i h n =
     (if length n = 0 then True
      else if length h < length n then False
      else contains_from h n 0 (length h - length n))"

section \<open>Comparison\<close>

lemma tolower_0_iff [simp]: "tolower c = 0 \<longleftrightarrow> c = CHR 0x00"
proof -
  have "(of_char c :: int) = 0 \<longleftrightarrow> c = CHR 0x00"
    using of_char_eq_iff [of c "CHR 0x00", where 'a = int] by simp
  moreover have "0 \<le> (of_char c :: int)"
    by (metis of_nat_0_le_iff of_nat_of_char)
  ultimately show ?thesis by (auto simp: tolower_def Let_def)
qed

lemma tolower_nul [simp]: "tolower (CHR 0x00) = 0" "0 = tolower c \<longleftrightarrow> c = CHR 0x00"
  by (auto dest: sym)

lemma np_strncasecmp_safe:
  "n \<le> length a \<Longrightarrow> n \<le> length b \<Longrightarrow> \<exists>v. np_strncasecmp a b n = Inr v"
proof (induction a b n rule: np_strncasecmp.induct)
  case (2 x a y b n)
  then show ?case by (auto simp: Let_def)
qed auto

text \<open>Equality of the parts before a NUL that both slices have in the same place.\<close>

lemma np_strncasecmp_0_iff:
  assumes "n \<le> length a" "n \<le> length b"
  shows "np_strncasecmp a b n = Inr 0 \<longleftrightarrow>
     map tolower (cstr (take n a)) = map tolower (cstr (take n b))"
  using assms
proof (induction a b n rule: np_strncasecmp.induct)
  case (2 x a y b n)
  then show ?case
    by (cases "x = CHR 0x00"; cases "y = CHR 0x00") (auto simp: Let_def cstr_def)
qed (auto simp: cstr_def)

lemma str_ieq_iff:
  "str_ieq a b \<longleftrightarrow> length a = length b \<and> map tolower (cstr a) = map tolower (cstr b)"
  by (auto simp: str_ieq_def np_strncasecmp_0_iff)

text \<open>Against a constant of the source, which has no NUL, it is equality up to case.\<close>

lemma str_ieq_const:
  assumes "CHR 0x00 \<notin> set b"
  shows "str_ieq a b \<longleftrightarrow> map tolower a = map tolower b"
proof
  assume "str_ieq a b"
  then have len: "length a = length b" and eq: "map tolower (cstr a) = map tolower b"
    using assms by (simp_all add: str_ieq_iff cstr_ident)
  then have "length (cstr a) = length a" by (metis length_map)
  moreover have "cstr a = take (length (cstr a)) a" unfolding cstr_def by (rule takeWhile_eq_take)
  ultimately have "cstr a = a" by simp
  with eq show "map tolower a = map tolower b" by simp
next
  assume eq: "map tolower a = map tolower b"
  have "CHR 0x00 \<notin> set a"
  proof
    assume "CHR 0x00 \<in> set a"
    then have "0 \<in> set (map tolower a)" by force
    then have "0 \<in> set (map tolower b)" by (simp add: eq)
    with assms show False by force
  qed
  with eq assms show "str_ieq a b"
    by (metis str_ieq_iff cstr_ident length_map)
qed

lemma str_ieq_refl [simp]: "str_ieq a a"
  by (simp add: str_ieq_iff)

lemma str_ieq_sym: "str_ieq a b \<longleftrightarrow> str_ieq b a"
  by (auto simp: str_ieq_iff)

lemma contains_from_iff:
  "contains_from h n i k \<longleftrightarrow> (\<exists>j \<in> {i..i + k}. np_strncasecmp (drop j h) n (length n) = Inr 0)"
proof (induction k arbitrary: i)
  case 0
  then show ?case by auto
next
  case (Suc k)
  have "{i..i + Suc k} = insert i {Suc i..Suc i + k}" by auto
  then show ?case using Suc.IH [of "Suc i"] by simp
qed

lemma str_contains_i_iff:
  assumes "CHR 0x00 \<notin> set n"
  shows "str_contains_i h n \<longleftrightarrow>
     (\<exists>j. j + length n \<le> length h \<and> map tolower (take (length n) (drop j h)) = map tolower n)"
proof -
  have cmp: "np_strncasecmp (drop j h) n (length n) = Inr 0 \<longleftrightarrow>
      map tolower (take (length n) (drop j h)) = map tolower n"
    if "j + length n \<le> length h" for j
  proof -
    have "np_strncasecmp (drop j h) n (length n) = Inr 0 \<longleftrightarrow>
        map tolower (cstr (take (length n) (drop j h))) = map tolower (cstr n)"
      using that by (subst np_strncasecmp_0_iff) auto
    also have "\<dots> \<longleftrightarrow> str_ieq (take (length n) (drop j h)) n"
      using that by (simp add: str_ieq_iff)
    also have "\<dots> \<longleftrightarrow> map tolower (take (length n) (drop j h)) = map tolower n"
      using assms by (rule str_ieq_const)
    finally show ?thesis .
  qed
  show ?thesis
  proof (cases "length n = 0 \<or> length h < length n")
    case True
    then show ?thesis by (auto simp: str_contains_i_def)
  next
    case False
    have "(\<exists>j \<in> {0..0 + (length h - length n)}. np_strncasecmp (drop j h) n (length n) = Inr 0) \<longleftrightarrow>
        (\<exists>j. j + length n \<le> length h \<and> np_strncasecmp (drop j h) n (length n) = Inr 0)"
      using False by (auto simp: le_diff_conv2)
    with False cmp show ?thesis
      by (auto simp: str_contains_i_def contains_from_iff)
  qed
qed

section \<open>Slices\<close>

lemma str_trim_left_eq: "str_trim_left s = dropWhile isspace s"
  by (induction s) auto

lemma str_trim_right_eq: "str_trim_right s = rev (dropWhile isspace (rev s))"
proof (induction s rule: str_trim_right.induct)
  case (1 s)
  show ?case
  proof (cases s rule: rev_cases)
    case Nil
    then show ?thesis by (simp add: str_trim_right.simps)
  next
    case (snoc t c)
    with 1 show ?thesis by (subst str_trim_right.simps) auto
  qed
qed

lemma str_trim_right_split:
  "\<exists>r. s = str_trim_right s @ r \<and> list_all isspace r"
proof -
  have "rev s = takeWhile isspace (rev s) @ dropWhile isspace (rev s)" by simp
  then have "s = rev (dropWhile isspace (rev s)) @ rev (takeWhile isspace (rev s))"
    by (metis rev_append rev_rev_ident)
  then show ?thesis
    unfolding str_trim_right_eq by (metis list_all_rev list_all_iff set_takeWhileD)
qed

lemma str_trim_right_last: "str_trim_right s \<noteq> [] \<Longrightarrow> \<not> isspace (last (str_trim_right s))"
  unfolding str_trim_right_eq by (metis hd_dropWhile last_rev rev_is_Nil_conv)

lemma str_trim_left_split: "\<exists>l. s = l @ str_trim_left s \<and> list_all isspace l"
  unfolding str_trim_left_eq by (metis list_all_iff set_takeWhileD takeWhile_dropWhile_id)

lemma str_trim_left_hd: "str_trim_left s \<noteq> [] \<Longrightarrow> \<not> isspace (hd (str_trim_left s))"
  unfolding str_trim_left_eq by (rule hd_dropWhile)

lemma str_starts_with_iff: "str_starts_with s p \<longleftrightarrow> prefix p s"
proof
  assume "str_starts_with s p"
  then show "prefix p s"
    by (metis str_starts_with_def take_is_prefix)
next
  assume "prefix p s"
  then show "str_starts_with s p"
    by (auto simp: str_starts_with_def prefix_def)
qed

lemma str_ends_with_iff: "str_ends_with s p \<longleftrightarrow> suffix p s"
proof
  assume *: "str_ends_with s p"
  then have "length p \<le> length s" and "drop (length s - length p) s = p"
    by (auto simp: str_ends_with_def split: if_splits)
  then show "suffix p s" by (metis suffix_drop)
next
  assume "suffix p s"
  then show "str_ends_with s p"
    by (auto simp: str_ends_with_def suffix_def)
qed

lemma length_str_slice: "length (str_slice s i j) = min j (length s) - min i (length s)"
  by (auto simp: str_slice_def Let_def min_def)

lemma str_trim_hd:
  assumes "str_trim s \<noteq> []"
  shows "\<not> isspace (hd (str_trim s))"
proof -
  obtain r where r: "str_trim_left s = str_trim s @ r"
    using str_trim_right_split unfolding str_trim_def by blast
  with assms have "str_trim_left s \<noteq> []" "hd (str_trim_left s) = hd (str_trim s)" by auto
  then show ?thesis using str_trim_left_hd by metis
qed

lemma str_trim_last: "str_trim s \<noteq> [] \<Longrightarrow> \<not> isspace (last (str_trim s))"
  unfolding str_trim_def by (rule str_trim_right_last)

text \<open>Trimming a slice cuts only white space, at its two ends: the slice is white space,
  the trimmed slice and white space again, and what is left neither starts nor ends with
  white space.\<close>

theorem str_trim_spec:
  "\<exists>l r. s = l @ str_trim s @ r \<and> list_all isspace l \<and> list_all isspace r \<and>
     (str_trim s \<noteq> [] \<longrightarrow> \<not> isspace (hd (str_trim s)) \<and> \<not> isspace (last (str_trim s)))"
proof -
  obtain l where l: "s = l @ str_trim_left s" "list_all isspace l"
    using str_trim_left_split by blast
  obtain r where r: "str_trim_left s = str_trim s @ r" "list_all isspace r"
    using str_trim_right_split unfolding str_trim_def by blast
  have "s = l @ str_trim s @ r" using l(1) r(1) by simp
  then show ?thesis using l(2) r(2) str_trim_hd str_trim_last by blast
qed

theorem str_trim_spec_witness: "str_trim ''  ab '' = ''ab'' \<and>
    (\<exists>l r. ''  ab '' = l @ str_trim ''  ab '' @ r \<and> list_all isspace l \<and> list_all isspace r)"
  using str_trim_spec [of "''  ab ''"]
  by (auto simp: str_trim_def str_trim_left_eq str_trim_right_eq isspace_def)

section \<open>Numbers\<close>

lemma strtoll_neg_dec_nat:
  assumes "int n \<le> - LLONG_MIN"
  shows "strtoll (CHR ''-'' # dec_nat n) = (- int n, [])"
proof -
  have all: "\<forall>x \<in> set (dec_nat n). isdigit x"
    using dec_nat_digits by (simp add: list_all_iff)
  then have tk: "takeWhile isdigit (dec_nat n) = dec_nat n"
    by (simp add: takeWhile_eq_all_conv)
  have "\<not> isspace (CHR ''-'')" by (simp add: isspace_def)
  then show ?thesis
    unfolding strtoll_def Let_def using assms all by (simp add: tk digits_val_dec_nat)
qed

lemma dec_nat_no_nul: "CHR 0x00 \<notin> set (dec_nat n)"
  using dec_nat_digits [of n] isdigit_not_sign by (auto simp: list_all_iff)

text \<open>Parsing the decimal text of an integer gives the integer back, for every value of a
  signed 64-bit integer: the 32-byte copy is long enough for all of them.\<close>

theorem str_to_int_dec_int:
  assumes "LLONG_MIN \<le> i" and "i \<le> LLONG_MAX"
  shows "str_to_int (dec_int i) = Some i"
proof (cases "i < 0")
  case True
  let ?n = "nat (- i)"
  have "?n < 10 ^ Suc 18" using assms by auto
  then have len: "length (dec_nat ?n) \<le> Suc 18" by (rule length_dec_nat_le)
  have "strtoll (CHR ''-'' # dec_nat ?n) = (i, [])"
    using strtoll_neg_dec_nat [of ?n] True assms by simp
  then show ?thesis
    using True len by (simp add: str_to_int_def dec_int_def cstr_ident dec_nat_no_nul)
next
  case False
  let ?n = "nat i"
  have "?n < 10 ^ Suc 18" using assms by auto
  then have len: "length (dec_nat ?n) \<le> Suc 18" by (rule length_dec_nat_le)
  have "strtoll (dec_nat ?n) = (i, [])"
    using strtoll_dec_nat [of ?n] False assms by simp
  then show ?thesis
    using False len by (simp add: str_to_int_def dec_int_def cstr_ident dec_nat_no_nul)
qed

theorem str_to_int_dec_int_witness:
  "LLONG_MIN \<le> (-42 :: int) \<and> (-42 :: int) \<le> LLONG_MAX \<and> str_to_int (dec_int (-42)) = Some (-42)"
  using str_to_int_dec_int [of "-42"] by simp

end
