(* ===== verification/Parser.thy ===== *)
theory Parser
  imports String_Util
begin

text \<open>
  The request parser of \<^verbatim>\<open>src/src/http/parser.c\<close>. Pointers into the input are
  positions, slices are the bytes they denote. The array of headers and its count are one
  list. An early return keeps the fields written so far, so the parser returns the state
  beside its result. Lengths are natural numbers: the input is at most one connection
  buffer of 65536 bytes, and a positive \<^verbatim>\<open>content_length\<close> fits \<^verbatim>\<open>usize\<close>.

  The lemmas show what is parsed from a rendered request, that no result reaches beyond
  the input, that an error is final, and that the parser accepts a head without its empty
  line when the input ends at a line boundary.
\<close>

section \<open>Model\<close>

datatype http_method_t =
    HTTP_METHOD_GET | HTTP_METHOD_POST | HTTP_METHOD_PUT | HTTP_METHOD_DELETE
  | HTTP_METHOD_HEAD | HTTP_METHOD_OPTIONS | HTTP_METHOD_PATCH | HTTP_METHOD_UNKNOWN

text \<open>\<open>HTTP_NONE\<close> is the value 0 of a state that is zeroed and not yet parsed.\<close>

datatype http_version_t = HTTP_NONE | HTTP_10 | HTTP_11

record http_header_t =
  hdr_name :: string
  hdr_value :: string

datatype parse_result_t = PARSE_INCOMPLETE | PARSE_DONE | PARSE_ERROR

record http_parse_state_t =
  ps_method :: http_method_t
  ps_uri :: string
  ps_version :: http_version_t
  ps_headers :: "http_header_t list"
  ps_content_length :: int
  ps_chunked :: bool
  ps_keep_alive :: bool
  ps_has_connection_header :: bool
  ps_upgrade :: bool
  ps_upgrade_protocol :: string
  ps_body_offset :: nat
  ps_parsed_bytes :: nat

definition http_parse_state_init :: http_parse_state_t where
  "http_parse_state_init =
     \<lparr>ps_method = HTTP_METHOD_GET, ps_uri = [], ps_version = HTTP_NONE, ps_headers = [],
      ps_content_length = -1, ps_chunked = False, ps_keep_alive = False,
      ps_has_connection_header = False, ps_upgrade = False, ps_upgrade_protocol = [],
      ps_body_offset = 0, ps_parsed_bytes = 0\<rparr>"

definition parse_method :: "string \<Rightarrow> http_method_t" where
  "parse_method p =
     (if p = ''GET'' then HTTP_METHOD_GET
      else if p = ''POST'' then HTTP_METHOD_POST
      else if p = ''PUT'' then HTTP_METHOD_PUT
      else if p = ''DELETE'' then HTTP_METHOD_DELETE
      else if p = ''HEAD'' then HTTP_METHOD_HEAD
      else if p = ''OPTIONS'' then HTTP_METHOD_OPTIONS
      else if p = ''PATCH'' then HTTP_METHOD_PATCH
      else HTTP_METHOD_UNKNOWN)"

fun find_crlf :: "string \<Rightarrow> nat option" where
  "find_crlf (a # b # s) =
     (if a = CHR 0x0D \<and> b = CHR 0x0A then Some 0 else map_option Suc (find_crlf (b # s)))"
| "find_crlf _ = None"

text \<open>The request line: an early return, or the position after the line.\<close>

definition parse_request_line ::
  "http_parse_state_t \<Rightarrow> string \<Rightarrow> http_parse_state_t \<times> (parse_result_t + nat)" where
  "parse_request_line s data =
     (case find_crlf data of
        None \<Rightarrow> (s, Inl PARSE_INCOMPLETE)
      | Some line_end \<Rightarrow>
          (let line = take line_end data
           in case memchr (CHR '' '') line of
                None \<Rightarrow> (s, Inl PARSE_ERROR)
              | Some sp1 \<Rightarrow>
                  (let s = s\<lparr>ps_method := parse_method (take sp1 line)\<rparr>;
                       cur = drop (sp1 + 1) line
                   in case memchr (CHR '' '') cur of
                        None \<Rightarrow> (s, Inl PARSE_ERROR)
                      | Some sp2 \<Rightarrow>
                          (let s = s\<lparr>ps_uri := take sp2 cur\<rparr>;
                               cur = drop (sp2 + 1) cur
                           in if cur = ''HTTP/1.1'' then (s\<lparr>ps_version := HTTP_11\<rparr>, Inr (line_end + 2))
                              else if cur = ''HTTP/1.0'' then
                                (s\<lparr>ps_version := HTTP_10\<rparr>, Inr (line_end + 2))
                              else (s, Inl PARSE_ERROR)))))"

definition note_header :: "http_parse_state_t \<Rightarrow> string \<Rightarrow> string \<Rightarrow> http_parse_state_t" where
  "note_header s nm val =
     (if str_ieq nm ''Content-Length'' then
        (case str_to_int val of None \<Rightarrow> s | Some cl \<Rightarrow> s\<lparr>ps_content_length := cl\<rparr>)
      else if str_ieq nm ''Transfer-Encoding'' then
        (if str_ieq val ''chunked'' then s\<lparr>ps_chunked := True\<rparr> else s)
      else if str_ieq nm ''Connection'' then
        (let s = s\<lparr>ps_has_connection_header := True, ps_keep_alive := \<not> str_ieq val ''close''\<rparr>
         in if str_contains_i val ''upgrade'' then s\<lparr>ps_upgrade := True\<rparr> else s)
      else if str_ieq nm ''Upgrade'' then s\<lparr>ps_upgrade_protocol := val\<rparr>
      else s)"

text \<open>One header line, without its line end; \<open>None\<close> is the error of the loop body.\<close>

definition parse_header_line :: "http_parse_state_t \<Rightarrow> string \<Rightarrow> http_parse_state_t option" where
  "parse_header_line s line =
     (case memchr (CHR '':'') line of
        None \<Rightarrow> None
      | Some colon \<Rightarrow>
          if length (ps_headers s) \<ge> NP_MAX_HEADERS then None
          else
            (let nm = str_trim (take colon line);
                 val = str_trim (drop (colon + 1) line)
             in Some (note_header
                  (s\<lparr>ps_headers := ps_headers s @ [\<lparr>hdr_name = nm, hdr_value = val\<rparr>]\<rparr>) nm val)))"

function parse_headers ::
  "http_parse_state_t \<Rightarrow> string \<Rightarrow> nat \<Rightarrow> http_parse_state_t \<times> (parse_result_t + nat)" where
  "parse_headers s data cur =
     (if cur < length data then
        (case find_crlf (drop cur data) of
           None \<Rightarrow> (s, Inl PARSE_INCOMPLETE)
         | Some k \<Rightarrow>
             if k = 0 then (s, Inr (cur + 2))
             else
               (case parse_header_line s (take k (drop cur data)) of
                  None \<Rightarrow> (s, Inl PARSE_ERROR)
                | Some s' \<Rightarrow> parse_headers s' data (cur + k + 2)))
      else (s, Inr cur))"
  by pat_completeness auto
termination by (relation "measure (\<lambda>(s, data, cur). length data - cur)") auto

declare parse_headers.simps [simp del]

definition finish_parse ::
  "http_parse_state_t \<Rightarrow> nat \<Rightarrow> nat \<Rightarrow> parse_result_t \<times> http_parse_state_t" where
  "finish_parse s cur len =
     (let s = (if \<not> ps_has_connection_header s then s\<lparr>ps_keep_alive := (ps_version s = HTTP_11)\<rparr>
               else s);
          s = (if ps_version s = HTTP_11 \<and> \<not> ps_chunked s \<and> ps_content_length s < 0
               then s\<lparr>ps_content_length := 0\<rparr> else s);
          s = s\<lparr>ps_body_offset := cur, ps_parsed_bytes := cur\<rparr>
      in if ps_content_length s > 0 then
           (let body_avail = len - ps_body_offset s
            in if body_avail < nat (ps_content_length s) then (PARSE_INCOMPLETE, s)
               else (PARSE_DONE,
                 s\<lparr>ps_parsed_bytes := ps_parsed_bytes s + nat (ps_content_length s)\<rparr>))
         else (PARSE_DONE, s))"

definition http_parse_request ::
  "http_parse_state_t \<Rightarrow> string \<Rightarrow> parse_result_t \<times> http_parse_state_t" where
  "http_parse_request s data =
     (case parse_request_line s data of
        (s, Inl r) \<Rightarrow> (r, s)
      | (s, Inr cur) \<Rightarrow>
          (case parse_headers s data cur of
             (s, Inl r) \<Rightarrow> (r, s)
           | (s, Inr cur) \<Rightarrow> finish_parse s cur (length data)))"

fun http_method_str :: "http_method_t \<Rightarrow> string" where
  "http_method_str HTTP_METHOD_GET = ''GET''"
| "http_method_str HTTP_METHOD_POST = ''POST''"
| "http_method_str HTTP_METHOD_PUT = ''PUT''"
| "http_method_str HTTP_METHOD_DELETE = ''DELETE''"
| "http_method_str HTTP_METHOD_HEAD = ''HEAD''"
| "http_method_str HTTP_METHOD_OPTIONS = ''OPTIONS''"
| "http_method_str HTTP_METHOD_PATCH = ''PATCH''"
| "http_method_str HTTP_METHOD_UNKNOWN = ''UNKNOWN''"

section \<open>Requests on the wire\<close>

definition version_str :: "http_version_t \<Rightarrow> string" where
  "version_str v = (if v = HTTP_11 then ''HTTP/1.1'' else ''HTTP/1.0'')"

definition render_line :: "http_method_t \<Rightarrow> string \<Rightarrow> http_version_t \<Rightarrow> string" where
  "render_line m uri v = http_method_str m @ '' '' @ uri @ '' '' @ version_str v @ CRLF"

definition render_header :: "http_header_t \<Rightarrow> string" where
  "render_header h = hdr_name h @ '': '' @ hdr_value h @ CRLF"

definition render_headers :: "http_header_t list \<Rightarrow> string" where
  "render_headers hs = concat (map render_header hs)"

definition wf_uri :: "string \<Rightarrow> bool" where
  "wf_uri u \<longleftrightarrow> CHR '' '' \<notin> set u \<and> CHR 0x0D \<notin> set u"

definition wf_header :: "http_header_t \<Rightarrow> bool" where
  "wf_header h \<longleftrightarrow>
     CHR '':'' \<notin> set (hdr_name h) \<and> CHR 0x0D \<notin> set (hdr_name h) \<and> CHR 0x0D \<notin> set (hdr_value h) \<and>
     str_trim (hdr_name h) = hdr_name h \<and> str_trim (hdr_value h) = hdr_value h"

text \<open>What the headers of a request declare of its body and its connection.\<close>

definition named :: "string \<Rightarrow> http_header_t list \<Rightarrow> string list" where
  "named n hs = map hdr_value (filter (\<lambda>h. str_ieq (hdr_name h) n) hs)"

definition last_or :: "'a \<Rightarrow> 'a list \<Rightarrow> 'a" where
  "last_or d xs = (if xs = [] then d else last xs)"

definition is_chunked :: "http_header_t list \<Rightarrow> bool" where
  "is_chunked hs \<longleftrightarrow> (\<exists>v \<in> set (named ''Transfer-Encoding'' hs). str_ieq v ''chunked'')"

definition content_length_of :: "http_version_t \<Rightarrow> http_header_t list \<Rightarrow> int" where
  "content_length_of v hs =
     (let cl = last_or (-1) (List.map_filter str_to_int (named ''Content-Length'' hs))
      in if v = HTTP_11 \<and> \<not> is_chunked hs \<and> cl < 0 then 0 else cl)"

definition keep_alive_of :: "http_version_t \<Rightarrow> http_header_t list \<Rightarrow> bool" where
  "keep_alive_of v hs =
     last_or (v = HTTP_11) (map (\<lambda>c. \<not> str_ieq c ''close'') (named ''Connection'' hs))"

definition is_upgrade :: "http_header_t list \<Rightarrow> bool" where
  "is_upgrade hs \<longleftrightarrow> (\<exists>v \<in> set (named ''Connection'' hs). str_contains_i v ''upgrade'')"

section \<open>Lines\<close>

lemma find_crlf_hit [simp]: "CHR 0x0D \<notin> set xs \<Longrightarrow> find_crlf (xs @ CHR 0x0D # CHR 0x0A # ys) = Some (length xs)"
proof (induction xs)
  case Nil
  then show ?case by simp
next
  case (Cons x xs)
  then show ?case by (cases xs) auto
qed

lemma find_crlf_SomeD:
  "find_crlf s = Some k \<Longrightarrow> k + 2 \<le> length s \<and> s ! k = CHR 0x0D \<and> s ! Suc k = CHR 0x0A"
  by (induction s arbitrary: k rule: find_crlf.induct) (auto split: if_splits)

lemma find_crlf_append: "find_crlf s = Some k \<Longrightarrow> find_crlf (s @ t) = Some k"
  by (induction s arbitrary: k rule: find_crlf.induct) (auto split: if_splits)

lemma parse_method_str [simp]: "parse_method (http_method_str m) = m"
  by (cases m) (simp_all add: parse_method_def)

lemma method_str_chars: "CHR '' '' \<notin> set (http_method_str m)" "CHR 0x0D \<notin> set (http_method_str m)"
  by (cases m; simp)+

lemma version_str_chars: "CHR '' '' \<notin> set (version_str v)" "CHR 0x0D \<notin> set (version_str v)"
  by (auto simp: version_str_def)

lemma parse_request_line_render:
  assumes "wf_uri uri" and "v \<noteq> HTTP_NONE"
  shows "parse_request_line s (render_line m uri v @ t) =
     (s\<lparr>ps_method := m, ps_uri := uri, ps_version := v\<rparr>, Inr (length (render_line m uri v)))"
proof -
  define line where "line = http_method_str m @ CHR '' '' # uri @ CHR '' '' # version_str v"
  define rest where "rest = uri @ CHR '' '' # version_str v"
  have "CHR 0x0D \<notin> set line"
    using assms(1) method_str_chars version_str_chars by (auto simp: wf_uri_def line_def)
  then have crlf: "find_crlf (line @ CHR 0x0D # CHR 0x0A # t) = Some (length line)"
    by (rule find_crlf_hit)
  have sp1: "memchr (CHR '' '') line = Some (length (http_method_str m))"
    by (simp add: memchr_append method_str_chars line_def)
  have sp2: "memchr (CHR '' '') rest = Some (length uri)"
    using assms(1) by (simp add: memchr_append wf_uri_def rest_def)
  have parts: "take (length (http_method_str m)) line = http_method_str m"
    "drop (length (http_method_str m) + 1) line = rest"
    "take (length uri) rest = uri" "drop (length uri + 1) rest = version_str v"
    by (simp_all add: line_def rest_def)
  have eq: "render_line m uri v @ t = line @ CHR 0x0D # CHR 0x0A # t"
    and len: "length (render_line m uri v) = length line + 2"
    by (simp_all add: render_line_def line_def)
  have "parse_request_line s (render_line m uri v @ t) =
      (let s = s\<lparr>ps_method := m, ps_uri := uri\<rparr>
       in if version_str v = ''HTTP/1.1'' then (s\<lparr>ps_version := HTTP_11\<rparr>, Inr (length line + 2))
          else if version_str v = ''HTTP/1.0'' then (s\<lparr>ps_version := HTTP_10\<rparr>, Inr (length line + 2))
          else (s, Inl PARSE_ERROR))"
    unfolding parse_request_line_def Let_def eq crlf
    by (simp only: option.case take_append take_all take_Nil
        parts sp1 sp2 parse_method_str append_Nil2 diff_self_eq_0 take_0 le_refl)
  then show ?thesis
    using assms(2) len by (cases v) (simp_all add: version_str_def)
qed

section \<open>Header lines\<close>

definition add_header :: "http_parse_state_t \<Rightarrow> http_header_t \<Rightarrow> http_parse_state_t" where
  "add_header s h = note_header (s\<lparr>ps_headers := ps_headers s @ [h]\<rparr>) (hdr_name h) (hdr_value h)"

lemma str_trim_space: "str_trim (CHR '' '' # s) = str_trim s"
  by (simp add: str_trim_def isspace_def)

lemma parse_header_line_render:
  assumes "wf_header h" and "length (ps_headers s) < NP_MAX_HEADERS"
  shows "parse_header_line s (hdr_name h @ '': '' @ hdr_value h) = Some (add_header s h)"
proof -
  have "memchr (CHR '':'') (hdr_name h @ CHR '':'' # CHR '' '' # hdr_value h) = Some (length (hdr_name h))"
    using assms(1) by (simp add: memchr_append wf_header_def)
  then show ?thesis
    using assms
    by (cases h) (simp add: parse_header_line_def wf_header_def str_trim_space add_header_def Let_def)
qed

lemma parse_headers_one:
  assumes "wf_header h" and "length (ps_headers s) < NP_MAX_HEADERS"
  shows "parse_headers s (pre @ render_header h @ t) (length pre) =
     parse_headers (add_header s h) (pre @ render_header h @ t) (length (pre @ render_header h))"
proof -
  let ?line = "hdr_name h @ '': '' @ hdr_value h"
  have d: "drop (length pre) (pre @ render_header h @ t) = ?line @ CHR 0x0D # CHR 0x0A # t"
    by (simp add: render_header_def)
  have "CHR 0x0D \<notin> set ?line" using assms(1) by (simp add: wf_header_def)
  then have "find_crlf (?line @ CHR 0x0D # CHR 0x0A # t) = Some (length ?line)" by (rule find_crlf_hit)
  then show ?thesis
    using parse_header_line_render [OF assms]
    by (subst parse_headers.simps) (simp add: d, simp add: render_header_def)
qed

lemma headers_note [simp]: "ps_headers (note_header s n x) = ps_headers s"
  by (simp add: note_header_def Let_def split: option.splits)

lemma headers_add [simp]: "ps_headers (add_header s h) = ps_headers s @ [h]"
  by (simp add: add_header_def)

lemma headers_fold: "ps_headers (foldl add_header s hs) = ps_headers s @ hs"
  by (induction hs arbitrary: s) simp_all

lemma parse_headers_render:
  assumes "list_all wf_header hs" and "length (ps_headers s) + length hs \<le> NP_MAX_HEADERS"
  shows "parse_headers s (pre @ render_headers hs @ t) (length pre) =
     parse_headers (foldl add_header s hs) (pre @ render_headers hs @ t) (length (pre @ render_headers hs))"
  using assms
proof (induction hs arbitrary: s pre)
  case Nil
  then show ?case by (simp add: render_headers_def)
next
  case (Cons h hs)
  have "parse_headers s (pre @ render_header h @ render_headers hs @ t) (length pre) =
      parse_headers (add_header s h) (pre @ render_header h @ render_headers hs @ t)
        (length (pre @ render_header h))"
    using Cons.prems by (intro parse_headers_one) simp_all
  also have "\<dots> = parse_headers (foldl add_header (add_header s h) hs)
      ((pre @ render_header h) @ render_headers hs @ t) (length ((pre @ render_header h) @ render_headers hs))"
    using Cons.IH [of "add_header s h" "pre @ render_header h"] Cons.prems by simp
  finally show ?case by (simp add: render_headers_def)
qed

text \<open>The fields of the state after the headers are noted.\<close>

lemma str_ieq_length: "str_ieq a b \<Longrightarrow> length a = length b"
  by (simp add: str_ieq_def split: if_splits)

lemma names_apart:
  "str_ieq n ''Content-Length'' \<Longrightarrow> \<not> str_ieq n ''Transfer-Encoding'' \<and> \<not> str_ieq n ''Connection'' \<and> \<not> str_ieq n ''Upgrade''"
  "str_ieq n ''Transfer-Encoding'' \<Longrightarrow> \<not> str_ieq n ''Connection'' \<and> \<not> str_ieq n ''Upgrade''"
  "str_ieq n ''Connection'' \<Longrightarrow> \<not> str_ieq n ''Upgrade''"
  by (auto dest!: str_ieq_length)

lemma note_fields:
  "ps_content_length (note_header s n x) =
     (if str_ieq n ''Content-Length'' then
        (case str_to_int x of None \<Rightarrow> ps_content_length s | Some cl \<Rightarrow> cl)
      else ps_content_length s)"
  "ps_chunked (note_header s n x) \<longleftrightarrow>
     ps_chunked s \<or> str_ieq n ''Transfer-Encoding'' \<and> str_ieq x ''chunked''"
  "ps_has_connection_header (note_header s n x) \<longleftrightarrow>
     ps_has_connection_header s \<or> str_ieq n ''Connection''"
  "ps_keep_alive (note_header s n x) =
     (if str_ieq n ''Connection'' then \<not> str_ieq x ''close'' else ps_keep_alive s)"
  "ps_upgrade (note_header s n x) \<longleftrightarrow>
     ps_upgrade s \<or> str_ieq n ''Connection'' \<and> str_contains_i x ''upgrade''"
  unfolding note_header_def Let_def
  by (auto dest: names_apart split: option.splits)

lemma content_length_fold:
  "ps_content_length (foldl add_header s hs) =
     last_or (ps_content_length s) (List.map_filter str_to_int (named ''Content-Length'' hs))"
  by (induction hs rule: rev_induct)
    (auto simp: named_def last_or_def List.map_filter_def add_header_def note_fields split: option.splits)

lemma chunked_fold: "ps_chunked (foldl add_header s hs) \<longleftrightarrow> ps_chunked s \<or> is_chunked hs"
  by (induction hs rule: rev_induct) (auto simp: named_def is_chunked_def add_header_def note_fields)

lemma has_connection_fold:
  "ps_has_connection_header (foldl add_header s hs) \<longleftrightarrow>
     ps_has_connection_header s \<or> named ''Connection'' hs \<noteq> []"
  by (induction hs rule: rev_induct) (auto simp: named_def add_header_def note_fields)

lemma keep_alive_fold:
  "ps_keep_alive (foldl add_header s hs) =
     last_or (ps_keep_alive s) (map (\<lambda>c. \<not> str_ieq c ''close'') (named ''Connection'' hs))"
  by (induction hs rule: rev_induct) (auto simp: named_def last_or_def add_header_def note_fields)

lemma upgrade_fold: "ps_upgrade (foldl add_header s hs) \<longleftrightarrow> ps_upgrade s \<or> is_upgrade hs"
  by (induction hs rule: rev_induct) (auto simp: named_def is_upgrade_def add_header_def note_fields)

lemma fixed_note [simp]:
  "ps_method (note_header s n x) = ps_method s" "ps_uri (note_header s n x) = ps_uri s"
  "ps_version (note_header s n x) = ps_version s"
  by (simp_all add: note_header_def Let_def split: option.splits)

lemma fixed_fold [simp]:
  "ps_method (foldl add_header s hs) = ps_method s" "ps_uri (foldl add_header s hs) = ps_uri s"
  "ps_version (foldl add_header s hs) = ps_version s"
  by (induction hs arbitrary: s) (simp_all add: add_header_def)

lemmas fold_fields = headers_fold content_length_fold chunked_fold has_connection_fold
  keep_alive_fold upgrade_fold

section \<open>Whole requests\<close>

lemma parse_headers_end:
  assumes "t \<noteq> [] \<Longrightarrow> \<exists>r. t = CRLF @ r"
  shows "parse_headers s (pre @ t) (length pre) =
     (s, Inr (length pre + (if t = [] then 0 else 2)))"
  using assms by (subst parse_headers.simps) auto

lemma parse_head_render:
  assumes "wf_uri uri" "v \<noteq> HTTP_NONE" "list_all wf_header hs" "length hs \<le> NP_MAX_HEADERS"
    and "t \<noteq> [] \<Longrightarrow> \<exists>r. t = CRLF @ r"
    and head_def: "head = render_line m uri v @ render_headers hs"
    and s_def: "s = foldl add_header (http_parse_state_init\<lparr>ps_method := m, ps_uri := uri, ps_version := v\<rparr>) hs"
  shows "http_parse_request http_parse_state_init (head @ t) =
     finish_parse s (length head + (if t = [] then 0 else 2)) (length (head @ t))"
proof -
  let ?s = "http_parse_state_init\<lparr>ps_method := m, ps_uri := uri, ps_version := v\<rparr>"
  have "parse_headers ?s (render_line m uri v @ render_headers hs @ t) (length (render_line m uri v)) =
      parse_headers s (head @ t) (length head)"
    unfolding s_def head_def append_assoc
    using assms(3,4) by (subst parse_headers_render) (simp_all add: http_parse_state_init_def)
  also have "\<dots> = (s, Inr (length head + (if t = [] then 0 else 2)))"
    using assms(5) by (rule parse_headers_end)
  finally show ?thesis
    unfolding http_parse_request_def
    by (simp add: head_def parse_request_line_render [OF assms(1,2)])
qed

lemma finish_fields:
  assumes "finish_parse s cur len = (r, s')"
  shows "ps_method s' = ps_method s" "ps_uri s' = ps_uri s" "ps_version s' = ps_version s"
    "ps_headers s' = ps_headers s" "ps_chunked s' = ps_chunked s" "ps_upgrade s' = ps_upgrade s"
    "ps_body_offset s' = cur"
    "ps_keep_alive s' = (if ps_has_connection_header s then ps_keep_alive s else ps_version s = HTTP_11)"
    "ps_content_length s' = (if ps_version s = HTTP_11 \<and> \<not> ps_chunked s \<and> ps_content_length s < 0
       then 0 else ps_content_length s)"
  using assms by (auto simp: finish_parse_def Let_def split: if_splits)

lemma finish_result:
  assumes "finish_parse s cur len = (r, s')"
  shows "r = (if len - cur < nat (ps_content_length s') then PARSE_INCOMPLETE else PARSE_DONE)"
    "r = PARSE_DONE \<Longrightarrow> ps_parsed_bytes s' = cur + nat (ps_content_length s')"
    "ps_parsed_bytes s' = (if r = PARSE_DONE then cur + nat (ps_content_length s') else cur)"
  using assms by (auto simp: finish_parse_def Let_def split: if_splits)

text \<open>What a parsed state says of a request with the given parts.\<close>

definition parsed_as ::
  "http_parse_state_t \<Rightarrow> http_method_t \<Rightarrow> string \<Rightarrow> http_version_t \<Rightarrow> http_header_t list \<Rightarrow> bool" where
  "parsed_as s m uri v hs \<longleftrightarrow>
     ps_method s = m \<and> ps_uri s = uri \<and> ps_version s = v \<and> ps_headers s = hs \<and>
     ps_content_length s = content_length_of v hs \<and> ps_chunked s = is_chunked hs \<and>
     ps_keep_alive s = keep_alive_of v hs \<and> ps_upgrade s = is_upgrade hs"

lemma finish_parsed_as:
  assumes "finish_parse (foldl add_header
      (http_parse_state_init\<lparr>ps_method := m, ps_uri := uri, ps_version := v\<rparr>) hs) cur len = (r, s')"
  shows "parsed_as s' m uri v hs"
proof -
  have "last_or a (map f xs) = last_or b (map f xs)" if "xs \<noteq> []" for a b xs and f :: "string \<Rightarrow> bool"
    using that by (simp add: last_or_def)
  then show ?thesis
    unfolding parsed_as_def
    using finish_fields [OF assms]
    by (auto simp: fold_fields http_parse_state_init_def content_length_of_def keep_alive_of_def
        Let_def last_or_def)
qed

lemma parse_wire:
  assumes "wf_uri uri" "v \<noteq> HTTP_NONE" "list_all wf_header hs" "length hs \<le> NP_MAX_HEADERS"
    and "length body = nat (content_length_of v hs)"
  obtains s where "http_parse_request http_parse_state_init
       ((render_line m uri v @ render_headers hs @ CRLF) @ body @ rest) = (PARSE_DONE, s)"
     "parsed_as s m uri v hs"
     "ps_body_offset s = length (render_line m uri v @ render_headers hs @ CRLF)"
     "ps_parsed_bytes s = length (render_line m uri v @ render_headers hs @ CRLF) + length body"
proof -
  let ?s = "foldl add_header (http_parse_state_init\<lparr>ps_method := m, ps_uri := uri, ps_version := v\<rparr>) hs"
  let ?head = "render_line m uri v @ render_headers hs"
  let ?len = "length (?head @ CRLF @ body @ rest)"
  obtain r s' where f: "finish_parse ?s (length ?head + 2) ?len = (r, s')" by fastforce
  have eq: "http_parse_request http_parse_state_init (?head @ CRLF @ body @ rest) = (r, s')"
    using parse_head_render [OF assms(1-4) _ refl refl, of "CRLF @ body @ rest" m] f by simp
  have pa: "parsed_as s' m uri v hs" by (rule finish_parsed_as [OF f])
  then have "nat (ps_content_length s') = length body" using assms(5) by (simp add: parsed_as_def)
  then have "r = PARSE_DONE" "ps_parsed_bytes s' = length ?head + 2 + length body"
    using finish_result [OF f] by simp_all
  then show ?thesis using that [of s'] eq pa finish_fields(7) [OF f] by simp
qed

text \<open>C1: A well-formed request followed by any further bytes is parsed back: the result is
  \<^verbatim>\<open>PARSE_DONE\<close>, method, target, version and headers are those that were written, the flags
  and the body length are those the headers declare, the body starts after the empty line,
  and exactly the bytes of this request are consumed.\<close>

theorem http_parse_request_render:
  assumes "wf_uri uri" "v \<noteq> HTTP_NONE" "list_all wf_header hs" "length hs \<le> NP_MAX_HEADERS"
    and "length body = nat (content_length_of v hs)"
  shows "\<exists>s. http_parse_request http_parse_state_init
       ((render_line m uri v @ render_headers hs @ CRLF) @ body @ rest) = (PARSE_DONE, s) \<and>
     parsed_as s m uri v hs \<and>
     ps_body_offset s = length (render_line m uri v @ render_headers hs @ CRLF) \<and>
     ps_parsed_bytes s = length (render_line m uri v @ render_headers hs @ CRLF) + length body"
  by (rule parse_wire [OF assms, of m rest]) blast

abbreviation example_headers :: "http_header_t list" where
  "example_headers \<equiv> [\<lparr>hdr_name = ''Host'', hdr_value = ''a''\<rparr>,
     \<lparr>hdr_name = ''content-length'', hdr_value = ''2''\<rparr>]"

lemmas parser_eval = wf_uri_def wf_header_def str_trim_def str_trim_left_eq str_trim_right_eq
  isspace_def content_length_of_def is_chunked_def named_def str_ieq_def tolower_def Let_def
  last_or_def List.map_filter_def str_to_int_def cstr_def strtoll_def isdigit_def digits_val_def

theorem http_parse_request_render_witness:
  "\<exists>s. http_parse_request http_parse_state_init
       ((render_line HTTP_METHOD_POST ''/x'' HTTP_11 @ render_headers example_headers @ CRLF) @
        ''hi'' @ ''GET'') = (PARSE_DONE, s) \<and>
     ps_method s = HTTP_METHOD_POST \<and> ps_headers s = example_headers \<and> ps_content_length s = 2"
proof -
  have 1: "wf_uri ''/x''" by (simp add: parser_eval)
  have 2: "list_all wf_header example_headers" by (simp add: parser_eval)
  have 3: "content_length_of HTTP_11 example_headers = 2" by (simp add: parser_eval)
  show ?thesis
    using http_parse_request_render [OF 1 _ 2, of HTTP_11 "''hi''" HTTP_METHOD_POST "''GET''"] 3
    by (auto simp: parsed_as_def)
qed

section \<open>Arbitrary input\<close>

lemma parse_headers_bounds:
  assumes "parse_headers s data cur = (s', Inr cur')" "cur \<le> length data"
    "length (ps_headers s) \<le> NP_MAX_HEADERS"
  shows "cur \<le> cur' \<and> cur' \<le> length data \<and> length (ps_headers s') \<le> NP_MAX_HEADERS"
  using assms
proof (induction s data cur rule: parse_headers.induct)
  case (1 s data cur)
  show ?case
  proof (cases "cur < length data")
    case True
    with 1(2) obtain k where k: "find_crlf (drop cur data) = Some k"
      by (auto simp: parse_headers.simps [of s data cur] split: option.splits)
    have le: "cur + k + 2 \<le> length data" using find_crlf_SomeD [OF k] True by auto
    show ?thesis
    proof (cases "k = 0")
      case False
      with 1(2) True k obtain s1 where s1: "parse_header_line s (take k (drop cur data)) = Some s1"
          and run: "parse_headers s1 data (cur + k + 2) = (s', Inr cur')"
        by (auto simp: parse_headers.simps [of s data cur] split: option.splits)
      from s1 have "length (ps_headers s1) \<le> NP_MAX_HEADERS"
        by (auto simp: parse_header_line_def Let_def split: option.splits if_splits)
      from 1(1) [OF True k False s1 run le this] show ?thesis by simp
    qed (use 1 True k le in \<open>auto simp: parse_headers.simps [of s data cur]\<close>)
  qed (use 1 in \<open>auto simp: parse_headers.simps [of s data]\<close>)
qed

lemma parse_headers_not_done: "parse_headers s data cur \<noteq> (s', Inl PARSE_DONE)"
proof (induction s data cur rule: parse_headers.induct)
  case (1 s data cur)
  then show ?case
    by (subst parse_headers.simps) (simp split: option.splits)
qed

lemma parse_request_line_bounds:
  assumes "parse_request_line s data = (s', Inr cur)"
  shows "2 \<le> cur" "cur \<le> length data" "ps_headers s' = ps_headers s"
  using assms
  by (auto simp: parse_request_line_def Let_def dest: find_crlf_SomeD split: option.splits if_splits)

lemma parse_done_bounds:
  assumes "http_parse_request s data = (PARSE_DONE, s')" "length (ps_headers s) \<le> NP_MAX_HEADERS"
  shows "0 < ps_body_offset s' \<and>
     ps_parsed_bytes s' = ps_body_offset s' + nat (ps_content_length s') \<and>
     ps_parsed_bytes s' \<le> length data \<and> length (ps_headers s') \<le> NP_MAX_HEADERS"
proof -
  obtain s1 cur1 where 1: "parse_request_line s data = (s1, Inr cur1)"
    using assms(1) by (auto simp: http_parse_request_def parse_request_line_def Let_def
        split: option.splits if_splits)
  then obtain s2 cur2 where 2: "parse_headers s1 data cur1 = (s2, Inr cur2)"
    and fin: "finish_parse s2 cur2 (length data) = (PARSE_DONE, s')"
    using assms(1) parse_headers_not_done
    by (auto simp: http_parse_request_def split: prod.splits sum.splits)
  have b: "cur1 \<le> cur2" "cur2 \<le> length data" "length (ps_headers s2) \<le> NP_MAX_HEADERS"
    using parse_headers_bounds [OF 2] parse_request_line_bounds [OF 1] assms(2) by simp_all
  show ?thesis
    using finish_fields(4,7) [OF fin] finish_result [OF fin] b parse_request_line_bounds(1) [OF 1]
    by (auto split: if_splits)
qed

text \<open>C15: Whatever the input, a finished parse stays inside it: the body starts after at least
  one line and not beyond the end, the consumed bytes cover the head and the declared body
  and are all there, and no more headers are stored than the array has room for.\<close>

theorem http_parse_request_bounds:
  assumes "http_parse_request s data = (PARSE_DONE, s')" "length (ps_headers s) \<le> NP_MAX_HEADERS"
  shows "0 < ps_body_offset s' \<and>
     ps_parsed_bytes s' = ps_body_offset s' + nat (ps_content_length s') \<and>
     ps_parsed_bytes s' \<le> length data \<and> length (ps_headers s') \<le> NP_MAX_HEADERS"
  by (rule parse_done_bounds [OF assms])

theorem http_parse_request_bounds_witness:
  "\<exists>s'. http_parse_request http_parse_state_init
       (render_line HTTP_METHOD_GET ''/'' HTTP_11 @ CRLF) = (PARSE_DONE, s') \<and>
     ps_parsed_bytes s' \<le> 18 \<and> 0 < ps_body_offset s'"
proof -
  have "wf_uri ''/''" by (simp add: parser_eval)
  from parse_head_render [OF this _ _ _ _ refl refl, of HTTP_11 "[]" CRLF HTTP_METHOD_GET]
  obtain s' where "http_parse_request http_parse_state_init
      (render_line HTTP_METHOD_GET ''/'' HTTP_11 @ CRLF) = (PARSE_DONE, s')"
    by (simp add: render_headers_def finish_parse_def http_parse_state_init_def Let_def)
  from this and http_parse_request_bounds [OF this] show ?thesis
    by (simp add: http_parse_state_init_def render_line_def version_str_def)
qed

lemma parse_headers_error_append:
  assumes "parse_headers s data cur = (s', Inl PARSE_ERROR)"
  shows "parse_headers s (data @ extra) cur = (s', Inl PARSE_ERROR)"
  using assms
proof (induction s data cur rule: parse_headers.induct)
  case (1 s data cur)
  from 1(2) obtain k where cur: "cur < length data" and k: "find_crlf (drop cur data) = Some k" "k \<noteq> 0"
    by (auto simp: parse_headers.simps [of s data cur] split: option.splits if_splits)
  have k': "find_crlf (drop cur (data @ extra)) = Some k"
    using find_crlf_append [OF k(1)] cur by simp
  have kl: "k + cur \<le> length data" using find_crlf_SomeD [OF k(1)] cur by auto

  show ?case
  proof (cases "parse_header_line s (take k (drop cur data))")
    case None
    then show ?thesis
      using 1(2) cur k
      unfolding parse_headers.simps [of s data] parse_headers.simps [of s "data @ extra"] k'
      by (simp add: kl)
  next
    case (Some s1)
    then show ?thesis
      using 1(1) [OF cur k Some] 1(2) cur k
      unfolding parse_headers.simps [of s data] parse_headers.simps [of s "data @ extra"] k'
      by (simp add: kl)
  qed
qed

lemma parse_request_line_append:
  assumes "parse_request_line s data = (s', r)" "r \<noteq> Inl PARSE_INCOMPLETE"
  shows "parse_request_line s (data @ extra) = (s', r)"
proof (cases "find_crlf data")
  case None
  then show ?thesis using assms by (simp add: parse_request_line_def)
next
  case (Some k)
  have "k \<le> length data" using find_crlf_SomeD [OF Some] by simp
  then show ?thesis
    using assms(1) Some find_crlf_append [OF Some, of extra] by (simp add: parse_request_line_def)
qed

lemma finish_not_error: "finish_parse s cur len \<noteq> (PARSE_ERROR, s')"
  by (auto simp: finish_parse_def Let_def)

text \<open>An error is final: no further bytes can turn an input that the parser rejects into
  one that it accepts or waits for.\<close>

theorem http_parse_request_error_final:
  assumes "http_parse_request s data = (PARSE_ERROR, s')"
  shows "http_parse_request s (data @ extra) = (PARSE_ERROR, s')"
proof -
  obtain s1 r1 where 1: "parse_request_line s data = (s1, r1)" by fastforce
  with assms have "r1 \<noteq> Inl PARSE_INCOMPLETE" by (auto simp: http_parse_request_def)
  note line = parse_request_line_append [OF 1 this, of extra]
  show ?thesis
  proof (cases r1)
    case (Inl e)
    then show ?thesis using assms 1 line by (simp add: http_parse_request_def)
  next
    case (Inr cur)
    then have "parse_headers s1 data cur = (s', Inl PARSE_ERROR)"
      using assms 1 finish_not_error
      by (auto simp: http_parse_request_def split: prod.splits sum.splits)
    from parse_headers_error_append [OF this, of extra] show ?thesis
      using line Inr by (simp add: http_parse_request_def)
  qed
qed

theorem http_parse_request_error_final_witness:
  "\<exists>s'. http_parse_request http_parse_state_init (''GET'' @ CRLF) = (PARSE_ERROR, s') \<and>
     http_parse_request http_parse_state_init ((''GET'' @ CRLF) @ CRLF) = (PARSE_ERROR, s')"
proof -
  have "http_parse_request http_parse_state_init (''GET'' @ CRLF) = (PARSE_ERROR, http_parse_state_init)"
    by (simp add: http_parse_request_def parse_request_line_def)
  from this and http_parse_request_error_final [OF this] show ?thesis by blast
qed

text \<open>An input that ends right after the request line or after a header line is accepted as
  a whole request, as if the empty line that ends the head had been received.\<close>

theorem http_parse_request_early_done:
  assumes "wf_uri uri" "v \<noteq> HTTP_NONE" "list_all wf_header hs" "length hs \<le> NP_MAX_HEADERS"
    and "content_length_of v hs \<le> 0"
  shows "\<exists>s. http_parse_request http_parse_state_init (render_line m uri v @ render_headers hs) =
       (PARSE_DONE, s) \<and> parsed_as s m uri v hs"
proof -
  let ?s = "foldl add_header (http_parse_state_init\<lparr>ps_method := m, ps_uri := uri, ps_version := v\<rparr>) hs"
  let ?head = "render_line m uri v @ render_headers hs"
  obtain r s' where f: "finish_parse ?s (length ?head) (length ?head) = (r, s')" by fastforce
  have eq: "http_parse_request http_parse_state_init ?head = (r, s')"
    using parse_head_render [OF assms(1-4) _ refl refl, of "[]" m] f by simp
  have pa: "parsed_as s' m uri v hs" by (rule finish_parsed_as [OF f])
  then have "r = PARSE_DONE"
    using finish_result(1) [OF f] assms(5) by (simp add: parsed_as_def)
  then show ?thesis using eq pa by blast
qed

theorem http_parse_request_early_done_witness:
  "\<exists>s. http_parse_request http_parse_state_init
       (render_line HTTP_METHOD_GET ''/'' HTTP_11 @ render_headers []) = (PARSE_DONE, s) \<and>
     ps_headers s = []"
proof -
  have 1: "wf_uri ''/''" by (simp add: parser_eval)
  have 2: "content_length_of HTTP_11 [] \<le> 0" by (simp add: parser_eval)
  show ?thesis
    using http_parse_request_early_done [OF 1 _ _ _ 2, of HTTP_METHOD_GET] by (auto simp: parsed_as_def)
qed

end
