(* ===== verification/Request.thy ===== *)
theory Request
  imports Parser Arena
begin

text \<open>
  The request object of \<^verbatim>\<open>src/src/http/request.c\<close>: how it is filled from a parse state, and
  the header lookup that the rest of the server uses. A \<^verbatim>\<open>str_t\<close> that the callers test against
  \<^verbatim>\<open>STR_NULL\<close> is an option. Header names are compared through the interface
  \<open>name_equality\<close>, which the comparison of slices implements.
\<close>

section \<open>Model\<close>

record http_request_t =
  req_method :: http_method_t
  req_path :: string
  req_query :: "string option"
  req_version :: http_version_t
  req_headers :: "http_header_t list"
  req_content_length :: int
  req_chunked :: bool
  req_keep_alive :: bool
  req_upgrade :: bool
  req_upgrade_protocol :: string
  req_body :: string
  req_remote_ip :: string
  req_recv_ts_us :: u64

text \<open>The object after \<^verbatim>\<open>memset\<close> and the assignment that follows it.\<close>

definition request_zero :: http_request_t where
  "request_zero =
     \<lparr>req_method = HTTP_METHOD_GET, req_path = [], req_query = None, req_version = HTTP_NONE,
      req_headers = [], req_content_length = -1, req_chunked = False, req_keep_alive = False,
      req_upgrade = False, req_upgrade_protocol = [], req_body = [], req_remote_ip = [],
      req_recv_ts_us = 0\<rparr>"

text \<open>\<open>sizeof (http_request_t)\<close> with 64 headers of four words each.\<close>

abbreviation REQUEST_SIZE :: usize where "REQUEST_SIZE \<equiv> 2176"

definition request_create :: "arena_t \<Rightarrow> usize option \<Rightarrow> arena_t \<times> http_request_t option" where
  "request_create a m =
     (case arena_alloc_aligned a REQUEST_SIZE 8 m of
        (a, None) \<Rightarrow> (a, None)
      | (a, Some p) \<Rightarrow> (a, Some request_zero))"

text \<open>\<open>sec\<close> and \<open>nsec\<close> are the reading of the monotonic clock.\<close>

definition request_populate ::
  "http_request_t \<Rightarrow> http_parse_state_t \<Rightarrow> string \<Rightarrow> nat \<Rightarrow> nat \<Rightarrow> http_request_t" where
  "request_populate req ps raw sec nsec =
     (let req = req\<lparr>req_method := ps_method ps, req_version := ps_version ps,
            req_content_length := ps_content_length ps, req_chunked := ps_chunked ps,
            req_keep_alive := ps_keep_alive ps, req_upgrade := ps_upgrade ps,
            req_upgrade_protocol := ps_upgrade_protocol ps\<rparr>;
          uri = ps_uri ps;
          req = (case memchr (CHR ''?'') uri of
             Some q \<Rightarrow> req\<lparr>req_path := take q uri, req_query := Some (take (length uri - q - 1) (drop (q + 1) uri))\<rparr>
           | None \<Rightarrow> req\<lparr>req_path := uri, req_query := None\<rparr>);
          req = req\<lparr>req_headers := ps_headers ps\<rparr>;
          req = (if ps_content_length ps > 0 \<and> ps_body_offset ps + nat (ps_content_length ps) \<le> length raw
             then req\<lparr>req_body := take (nat (ps_content_length ps)) (drop (ps_body_offset ps) raw)\<rparr>
             else req)
      in req\<lparr>req_recv_ts_us := of_nat sec * 1000000 + of_nat (nsec div 1000)\<rparr>)"

fun header_loop :: "http_header_t list \<Rightarrow> string \<Rightarrow> string option" where
  "header_loop [] nm = None"
| "header_loop (h # hs) nm = (if str_ieq (hdr_name h) nm then Some (hdr_value h) else header_loop hs nm)"

definition request_header :: "http_request_t \<Rightarrow> string \<Rightarrow> string option" where
  "request_header req nm = header_loop (req_headers req) nm"

section \<open>Header names\<close>

text \<open>What the lookup relies on: names are compared by an equivalence.\<close>

locale name_equality =
  fixes ieq :: "string \<Rightarrow> string \<Rightarrow> bool"
  assumes refl: "ieq a a"
    and sym: "ieq a b \<Longrightarrow> ieq b a"
    and trans: "ieq a b \<Longrightarrow> ieq b c \<Longrightarrow> ieq a c"
begin

lemma same_class: "ieq n n' \<Longrightarrow> ieq a n \<longleftrightarrow> ieq a n'"
  using sym trans by blast

lemma find_respects: "ieq n n' \<Longrightarrow> List.find (\<lambda>h. ieq (f h) n) hs = List.find (\<lambda>h. ieq (f h) n') hs"
  using same_class by simp

end

interpretation ci: name_equality str_ieq
  by unfold_locales (auto simp: str_ieq_iff)

lemma header_loop_find:
  "header_loop hs nm = map_option hdr_value (List.find (\<lambda>h. str_ieq (hdr_name h) nm) hs)"
  by (induction hs) auto

text \<open>Looking up a header finds the value of the first header of that name, finds nothing
  exactly when no header has the name, and gives the same answer for two spellings that
  differ in case only.\<close>

theorem request_header_first:
  "(request_header req nm = None \<longleftrightarrow> (\<forall>h \<in> set (req_headers req). \<not> str_ieq (hdr_name h) nm)) \<and>
   (request_header req nm = Some x \<longleftrightarrow>
     (\<exists>i < length (req_headers req). hdr_value (req_headers req ! i) = x \<and>
        str_ieq (hdr_name (req_headers req ! i)) nm \<and>
        (\<forall>j < i. \<not> str_ieq (hdr_name (req_headers req ! j)) nm))) \<and>
   (str_ieq nm nm' \<longrightarrow> request_header req nm = request_header req nm')"
proof -
  have "request_header req nm = None \<longleftrightarrow> (\<forall>h \<in> set (req_headers req). \<not> str_ieq (hdr_name h) nm)"
    by (auto simp: request_header_def header_loop_find find_None_iff)
  moreover have "request_header req nm = Some x \<longleftrightarrow>
     (\<exists>i < length (req_headers req). hdr_value (req_headers req ! i) = x \<and>
        str_ieq (hdr_name (req_headers req ! i)) nm \<and>
        (\<forall>j < i. \<not> str_ieq (hdr_name (req_headers req ! j)) nm))"
    by (auto simp: request_header_def header_loop_find find_Some_iff)
  moreover have "str_ieq nm nm' \<Longrightarrow> request_header req nm = request_header req nm'"
    unfolding request_header_def header_loop_find by (simp only: ci.find_respects)
  ultimately show ?thesis by blast
qed

theorem request_header_first_witness:
  "request_header (request_zero\<lparr>req_headers := example_headers\<rparr>) ''Content-Length'' =
     request_header (request_zero\<lparr>req_headers := example_headers\<rparr>) ''CONTENT-length''"
proof -
  have "str_ieq ''Content-Length'' ''CONTENT-length''" by (simp add: str_ieq_def tolower_def)
  then show ?thesis using request_header_first by blast
qed

section \<open>From the wire to the request\<close>

lemma split_query:
  "case memchr (CHR ''?'') uri of
     None \<Rightarrow> CHR ''?'' \<notin> set uri
   | Some q \<Rightarrow> CHR ''?'' \<notin> set (take q uri) \<and>
       take q uri @ ''?'' @ take (length uri - q - 1) (drop (q + 1) uri) = uri"
proof (cases "memchr (CHR ''?'') uri")
  case None
  then have "CHR ''?'' \<notin> set uri" by (simp add: memchr_None_iff)
  with None show ?thesis by simp
next
  case (Some q)
  note q = memchr_SomeD [OF Some]
  then have "take q uri @ CHR ''?'' # drop (Suc q) uri = uri"
    by (metis id_take_nth_drop)
  then show ?thesis using Some q by simp
qed

text \<open>C12: A well-formed request on the wire becomes a request object with its method, version
  and headers, a path without a question mark and a query that together spell the target,
  and exactly the bytes of its body, whatever follows them in the buffer.\<close>

theorem request_of_wire:
  assumes "wf_uri uri" "v \<noteq> HTTP_NONE" "list_all wf_header hs" "length hs \<le> NP_MAX_HEADERS"
    and "length body = nat (content_length_of v hs)"
    and raw: "raw = (render_line m uri v @ render_headers hs @ CRLF) @ body @ rest"
  shows "\<exists>s. http_parse_request http_parse_state_init raw = (PARSE_DONE, s) \<and>
     (let req = request_populate request_zero s raw sec nsec in
        req_method req = m \<and> req_version req = v \<and> req_headers req = hs \<and>
        req_keep_alive req = keep_alive_of v hs \<and> req_body req = body \<and>
        CHR ''?'' \<notin> set (req_path req) \<and>
        uri = req_path req @ (case req_query req of None \<Rightarrow> [] | Some q \<Rightarrow> ''?'' @ q))"
proof -
  let ?head = "render_line m uri v @ render_headers hs @ CRLF"
  obtain s where s: "http_parse_request http_parse_state_init raw = (PARSE_DONE, s)"
     "parsed_as s m uri v hs" "ps_body_offset s = length ?head"
    using parse_wire [OF assms(1-5), of m rest] raw by metis
  define req where "req = request_populate request_zero s raw sec nsec"
  have cl: "nat (ps_content_length s) = length body" using s(2) assms(5) by (simp add: parsed_as_def)
  have drop: "drop (ps_body_offset s) raw = body @ rest" by (simp add: raw s(3))
  have "length body > 0 \<longleftrightarrow> ps_content_length s > 0" using cl by linarith
  moreover have "ps_body_offset s + length body \<le> length raw" by (simp add: raw s(3))
  ultimately have body: "req_body req = body"
    by (cases "ps_content_length s > 0")
      (auto simp: req_def request_populate_def Let_def cl drop request_zero_def split: option.split)
  have "CHR ''?'' \<notin> set (req_path req) \<and>
      uri = req_path req @ (case req_query req of None \<Rightarrow> [] | Some q \<Rightarrow> ''?'' @ q)"
    using split_query [of uri] s(2)
    by (auto simp: req_def request_populate_def Let_def parsed_as_def split: option.splits)
  moreover have "req_method req = m \<and> req_version req = v \<and> req_headers req = hs \<and>
      req_keep_alive req = keep_alive_of v hs"
    using s(2) by (auto simp: req_def request_populate_def Let_def parsed_as_def split: option.splits)
  ultimately show ?thesis using s(1) body by (auto simp: req_def Let_def)
qed

theorem request_of_wire_witness:
  "\<exists>s. http_parse_request http_parse_state_init
       ((render_line HTTP_METHOD_POST ''/x?y'' HTTP_11 @ render_headers example_headers @ CRLF) @
        ''hi'' @ []) = (PARSE_DONE, s) \<and>
     req_body (request_populate request_zero s
       ((render_line HTTP_METHOD_POST ''/x?y'' HTTP_11 @ render_headers example_headers @ CRLF) @
        ''hi'' @ []) 1 2) = ''hi''"
proof -
  have 1: "wf_uri ''/x?y''" by (simp add: parser_eval)
  have 2: "list_all wf_header example_headers" by (simp add: parser_eval)
  have 3: "content_length_of HTTP_11 example_headers = 2" by (simp add: parser_eval)
  have 4: "length ''hi'' = nat (content_length_of HTTP_11 example_headers)" by (simp add: 3)
  show ?thesis
    using request_of_wire [OF 1 _ 2 _ 4 refl, of HTTP_METHOD_POST "[]" 1 2]
    unfolding Let_def by auto
qed

end
