(* ===== verification/Response.thy ===== *)
theory Response
  imports Buffer Parser Arena
begin

text \<open>
  The response writers of \<^verbatim>\<open>src/src/http/response.c\<close>. They format into arrays on the stack
  and copy into a connection's buffer; a copy beyond the array or the buffer is a memory
  fault of the model. The lemmas show that the two writers the server uses never fault and
  write one complete message whose declared length is the length of its body, or, when the
  buffer is full, leave parts out; and what \<^verbatim>\<open>response_serialize\<close>, which no part of the
  server calls, writes.
\<close>

section \<open>Model\<close>

record http_response_t =
  res_status :: int
  res_reason :: "string option"
  res_headers :: "http_header_t list"
  res_body :: string
  res_keep_alive :: bool
  res_chunked :: bool

abbreviation RESPONSE_SIZE :: usize where "RESPONSE_SIZE \<equiv> 2096"

definition response_create :: "arena_t \<Rightarrow> usize option \<Rightarrow> arena_t \<times> http_response_t option" where
  "response_create a m =
     (case arena_alloc_aligned a RESPONSE_SIZE 8 m of
        (a, None) \<Rightarrow> (a, None)
      | (a, Some p) \<Rightarrow>
          (a, Some \<lparr>res_status = 200, res_reason = Some ''OK'', res_headers = [], res_body = [],
            res_keep_alive = False, res_chunked = False\<rparr>))"

definition response_set_header ::
  "http_response_t \<Rightarrow> arena_t \<Rightarrow> string \<Rightarrow> string \<Rightarrow> usize option \<Rightarrow> usize option \<Rightarrow> http_response_t \<times> arena_t" where
  "response_set_header r a nm val m1 m2 =
     (if length (res_headers r) \<ge> NP_MAX_HEADERS then (r, a)
      else
        (let (a, n) = arena_alloc a (of_nat (length nm) + 1) m1;
             (a, v) = arena_alloc a (of_nat (length val) + 1) m2
         in if n = None \<or> v = None then (r, a)
            else (r\<lparr>res_headers := res_headers r @ [\<lparr>hdr_name = nm, hdr_value = val\<rparr>]\<rparr>, a)))"

definition status_reason :: "int \<Rightarrow> string" where
  "status_reason status =
     (if status = 200 then ''OK''
      else if status = 201 then ''Created''
      else if status = 204 then ''No Content''
      else if status = 206 then ''Partial Content''
      else if status = 301 then ''Moved Permanently''
      else if status = 302 then ''Found''
      else if status = 304 then ''Not Modified''
      else if status = 400 then ''Bad Request''
      else if status = 403 then ''Forbidden''
      else if status = 404 then ''Not Found''
      else if status = 405 then ''Method Not Allowed''
      else if status = 413 then ''Payload Too Large''
      else if status = 429 then ''Too Many Requests''
      else if status = 500 then ''Internal Server Error''
      else if status = 502 then ''Bad Gateway''
      else if status = 503 then ''Service Unavailable''
      else if status = 504 then ''Gateway Timeout''
      else ''Unknown'')"

text \<open>\<open>if (buf_writable (buf) < n) buf_compact (buf);\<close> and an unconditional copy.\<close>

definition buf_force_memcpy :: "np_buf_t \<Rightarrow> string \<Rightarrow> np_buf_t mem" where
  "buf_force_memcpy b s =
     mbind (if buf_writable b < of_nat (length s) then buf_compact b else Inr b) (\<lambda>b. buf_memcpy b s)"

fun serialize_headers :: "np_buf_t \<Rightarrow> http_header_t list \<Rightarrow> np_buf_t mem" where
  "serialize_headers b [] = Inr b"
| "serialize_headers b (h # hs) =
     mbind (buf_force_memcpy b (hdr_name h @ '': '' @ hdr_value h @ CRLF)) (\<lambda>b. serialize_headers b hs)"

definition response_serialize :: "http_response_t \<Rightarrow> np_buf_t \<Rightarrow> (np_buf_t \<times> np_status_t) mem" where
  "response_serialize r b =
     (let reason = (case res_reason r of Some s \<Rightarrow> s | None \<Rightarrow> status_reason (res_status r));
          line = ''HTTP/1.1 '' @ dec_int (res_status r) @ '' '' @ reason @ CRLF;
          conn_hdr = (if res_keep_alive r then ''Connection: keep-alive'' @ CRLF @ CRLF
                      else ''Connection: close'' @ CRLF @ CRLF)
      in mbind (if buf_writable b < of_nat (length line) then buf_compact b else Inr b) (\<lambda>b.
         mbind (fmt_bytes 256 line) (\<lambda>t.
         mbind (buf_memcpy b t) (\<lambda>b.
         mbind (serialize_headers b (res_headers r)) (\<lambda>b.
         mbind (buf_force_memcpy b conn_hdr) (\<lambda>b.
           if 0 < length (res_body r) then
             mbind (if buf_writable b < of_nat (length (res_body r)) then buf_compact b else Inr b) (\<lambda>b.
             mbind (buf_try_memcpy b (res_body r)) (\<lambda>b. Inr (b, NP_OK)))
           else Inr (b, NP_OK)))))))"

text \<open>
  \<open>if (n > 0 && buf_writable (buf) >= n)\<close> copy \<open>n\<close> bytes: of an array of \<open>sz\<close> bytes that
  \<^verbatim>\<open>snprintf\<close> filled, or of a string.
\<close>

definition buf_put_fmt :: "nat \<Rightarrow> np_buf_t \<Rightarrow> string \<Rightarrow> np_buf_t mem" where
  "buf_put_fmt sz b s =
     (if 0 < length s \<and> of_nat (length s) \<le> buf_writable b then mbind (fmt_bytes sz s) (buf_memcpy b)
      else Inr b)"

definition buf_put :: "np_buf_t \<Rightarrow> string \<Rightarrow> np_buf_t mem" where
  "buf_put b s =
     (if 0 < length s \<and> of_nat (length s) \<le> buf_writable b then buf_memcpy b s else Inr b)"

definition response_write_simple ::
  "np_buf_t \<Rightarrow> int \<Rightarrow> string option \<Rightarrow> string option \<Rightarrow> string option \<Rightarrow> bool \<Rightarrow> np_buf_t mem" where
  "response_write_simple b status reason content_type body keep_alive =
     (let body = (case body of Some s \<Rightarrow> s | None \<Rightarrow> []);
          conn = (if keep_alive then ''keep-alive'' else ''close'');
          header = ''HTTP/1.1 '' @ dec_int status @ '' '' @
            (case reason of Some s \<Rightarrow> s | None \<Rightarrow> status_reason status) @ CRLF @
            ''Content-Type: '' @ (case content_type of Some s \<Rightarrow> s | None \<Rightarrow> ''text/plain'') @ CRLF @
            ''Content-Length: '' @ dec_nat (length body) @ CRLF @
            ''Connection: '' @ conn @ CRLF @ CRLF
      in mbind (buf_put_fmt 512 b header) (\<lambda>b. buf_put b body))"

definition error_body :: "int \<Rightarrow> string" where
  "error_body status =
     ''<!DOCTYPE html>'' @ LF @ ''<html>'' @ LF @
     ''<head><title>'' @ dec_int status @ '' '' @ status_reason status @ ''</title></head>'' @ LF @
     ''<body style=\"font-family:-apple-system,BlinkMacSystemFont,'' @
     [CHR 0x27] @ ''Segoe UI'' @ [CHR 0x27] @ '',Roboto,sans-serif;'' @
     ''display:flex;justify-content:center;align-items:center;min-height:100vh;margin:0;'' @
     ''background:#0f0f0f;color:#e0e0e0\">'' @ LF @
     ''<div style=\"text-align:center;padding:40px\">'' @ LF @
     ''<h1 style=\"font-size:72px;font-weight:200;margin:0;color:#ff6b6b\">'' @ dec_int status @ ''</h1>'' @ LF @
     ''<p style=\"font-size:20px;color:#888;margin:12px 0 32px\">'' @ status_reason status @ ''</p>'' @ LF @
     ''<hr style=\"border:none;border-top:1px solid #333;width:280px;margin:0 auto 16px\">'' @ LF @
     ''<p style=\"font-size:13px;color:#555\">nproxy/1.0</p>'' @ LF @
     ''</div>'' @ LF @ ''</body>'' @ LF @ ''</html>'' @ LF"

definition response_write_error :: "np_buf_t \<Rightarrow> int \<Rightarrow> bool \<Rightarrow> np_buf_t mem" where
  "response_write_error b status keep_alive =
     (let body = error_body status;
          conn = (if keep_alive then ''keep-alive'' else ''close'');
          header = ''HTTP/1.1 '' @ dec_int status @ '' '' @ status_reason status @ CRLF @
            ''Content-Type: text/html'' @ CRLF @
            ''Content-Length: '' @ dec_nat (length body) @ CRLF @
            ''Connection: '' @ conn @ CRLF @ CRLF
      in mbind (buf_put_fmt 512 b header) (\<lambda>b. buf_put_fmt 2048 b body))"

section \<open>Messages\<close>

text \<open>The message that both writers are to produce, and the length of its head.\<close>

definition message_head :: "int \<Rightarrow> string \<Rightarrow> string \<Rightarrow> nat \<Rightarrow> bool \<Rightarrow> string" where
  "message_head status reason content_type len keep_alive =
     ''HTTP/1.1 '' @ dec_int status @ '' '' @ reason @ CRLF @
     ''Content-Type: '' @ content_type @ CRLF @
     ''Content-Length: '' @ dec_nat len @ CRLF @
     ''Connection: '' @ (if keep_alive then ''keep-alive'' else ''close'') @ CRLF @ CRLF"

definition http_message :: "int \<Rightarrow> string \<Rightarrow> string \<Rightarrow> string \<Rightarrow> bool \<Rightarrow> string" where
  "http_message status reason content_type body keep_alive =
     message_head status reason content_type (length body) keep_alive @ body"

lemma buf_put_fmt_fits: "0 < length s \<Longrightarrow> length s < sz \<Longrightarrow> buf_put_fmt sz b s = buf_try_memcpy b s"
  by (simp add: buf_put_fmt_def buf_try_memcpy_def fmt_bytes_def)

lemma length_dec_int:
  assumes "INT_MIN \<le> i" "i \<le> INT_MAX"
  shows "length (dec_int i) \<le> 11"
proof (cases "i < 0")
  case True
  then have "length (dec_nat (nat (- i))) \<le> Suc 9" using assms by (intro length_dec_nat_le) auto
  with True show ?thesis by (simp add: dec_int_def)
next
  case False
  then have "length (dec_nat (nat i)) \<le> Suc 9" using assms by (intro length_dec_nat_le) auto
  with False show ?thesis by (simp add: dec_int_def)
qed

lemma length_status_reason: "length (status_reason i) \<le> 21"
  by (simp add: status_reason_def)

lemma buf_put_ok:
  assumes "buf_ok b" "length s < 2 ^ 64"
  shows "\<exists>b'. buf_put b s = Inr b' \<and> buf_ok b' \<and> b_cap b' = b_cap b \<and>
     buf_contents b' = buf_contents b @ (if length s \<le> buf_room b then s else [])"
proof (cases "s = []")
  case True
  then show ?thesis using assms by (simp add: buf_put_def)
next
  case False
  then have "buf_put b s = (if length s \<le> buf_room b then buf_memcpy b s else Inr b)"
    using assms by (simp add: buf_put_def word_le_nat_alt np_word)
  then show ?thesis using buf_memcpy_fits [OF assms(1), of s] assms(1) by auto
qed

lemma buf_put_two:
  assumes ok: "buf_ok b" and h: "0 < length h" "length h < sz" "sz < 2 ^ 64" and s: "length s < 2 ^ 64"
  shows "\<exists>b'. mbind (buf_put_fmt sz b h) (\<lambda>b. buf_put b s) = Inr b' \<and> buf_ok b' \<and>
     b_cap b' = b_cap b \<and>
     (length h + length s \<le> buf_room b \<longrightarrow> buf_contents b' = buf_contents b @ h @ s)"
proof -
  have h64: "length h < 2 ^ 64" using h by linarith
  have eq: "buf_put_fmt sz b h = (if length h \<le> buf_room b then buf_memcpy b h else Inr b)"
    using h by (simp add: buf_put_fmt_fits buf_try_memcpy_eq [OF ok h64])
  show ?thesis
  proof (cases "length h \<le> buf_room b")
    case True
    then obtain c where c: "buf_memcpy b h = Inr c" "buf_ok c" "buf_contents c = buf_contents b @ h"
        "buf_room c = buf_room b - length h" "b_cap c = b_cap b"
      using buf_memcpy_fits [OF ok] by blast
    then show ?thesis using buf_put_ok [OF c(2) s] eq True by auto
  next
    case False
    then show ?thesis using buf_put_ok [OF ok s] eq by auto
  qed
qed

lemma write_simple_ok:
  assumes "buf_ok b" "length body < 2 ^ 64" "length (message_head status reason ctype (length body) ka) < 512"
  shows "\<exists>b'. response_write_simple b status (Some reason) (Some ctype) (Some body) ka = Inr b' \<and>
     buf_ok b' \<and> b_cap b' = b_cap b \<and>
     (length (http_message status reason ctype body ka) \<le> buf_room b \<longrightarrow>
        buf_contents b' = buf_contents b @ http_message status reason ctype body ka)"
proof -
  let ?h = "message_head status reason ctype (length body) ka"
  have "0 < length ?h" by (simp add: message_head_def)
  note two = buf_put_two [OF assms(1) this assms(3) _ assms(2)]
  have "response_write_simple b status (Some reason) (Some ctype) (Some body) ka =
      mbind (buf_put_fmt 512 b ?h) (\<lambda>b. buf_put b body)"
    by (simp add: response_write_simple_def message_head_def Let_def)
  with two show ?thesis by (simp add: http_message_def)
qed

text \<open>Writing a simple response never makes an invalid access, whatever the buffer holds,
  as long as the head fits the 512-byte array; and when the buffer has room it appends one
  complete message, whose Content-Length is the length of its body.\<close>

theorem response_write_simple_message:
  assumes "buf_ok b" and "length body < 2 ^ 64"
    and "length (message_head status reason ctype (length body) ka) < 512"
  shows "\<exists>b'. response_write_simple b status (Some reason) (Some ctype) (Some body) ka = Inr b' \<and>
     buf_ok b' \<and> b_cap b' = b_cap b \<and>
     (length (http_message status reason ctype body ka) \<le> buf_room b \<longrightarrow>
        buf_contents b' = buf_contents b @ http_message status reason ctype body ka)"
  using assms by (rule write_simple_ok)

theorem response_write_simple_message_witness:
  "\<exists>b'. response_write_simple \<lparr>b_data = replicate 131072 (CHR ''x''), b_cap = 131072, b_read_pos = 0, b_write_pos = 0\<rparr>
       200 (Some ''OK'') (Some ''text/plain'') (Some ''hi'') True = Inr b' \<and>
     buf_contents b' = http_message 200 ''OK'' ''text/plain'' ''hi'' True"
proof -
  let ?b = "\<lparr>b_data = replicate 131072 (CHR ''x''), b_cap = 131072, b_read_pos = 0, b_write_pos = 0\<rparr>"
  have 1: "buf_ok ?b" by (simp add: buf_ok_def)
  have 2: "length (message_head 200 ''OK'' ''text/plain'' (length ''hi'') True) < 512"
    using length_dec_int [of 200] length_dec_nat_le [of "length ''hi''" 0] by (simp add: message_head_def)
  have 3: "length (http_message 200 ''OK'' ''text/plain'' ''hi'' True) \<le> buf_room ?b"
    using 2 by (simp add: http_message_def buf_room_def)
  have 4: "buf_contents ?b = []" by (simp add: buf_contents_def)
  show ?thesis using response_write_simple_message [OF 1 _ 2] 3 4 by auto
qed

lemma length_error_body:
  assumes "INT_MIN \<le> status" "status \<le> INT_MAX"
  shows "length (error_body status) < 2048" "0 < length (error_body status)"
  using length_dec_int [OF assms] length_status_reason [of status] by (simp_all add: error_body_def)

lemma length_error_head:
  assumes "INT_MIN \<le> status" "status \<le> INT_MAX"
  shows "length (message_head status (status_reason status) ''text/html'' (length (error_body status)) ka) < 512"
proof -
  have "length (dec_nat (length (error_body status))) \<le> Suc 3"
    using length_error_body [OF assms] by (intro length_dec_nat_le) simp
  then show ?thesis
    using length_dec_int [OF assms] length_status_reason [of status] by (simp add: message_head_def)
qed

text \<open>The message of an error page.\<close>

definition error_page :: "int \<Rightarrow> bool \<Rightarrow> string" where
  "error_page status ka = http_message status (status_reason status) ''text/html'' (error_body status) ka"

lemma length_error_page:
  "INT_MIN \<le> status \<Longrightarrow> status \<le> INT_MAX \<Longrightarrow> length (error_page status ka) < 2560"
  using length_error_head [of status ka] length_error_body [of status] by (simp add: error_page_def http_message_def)

lemma write_error_ok:
  assumes "buf_ok b" and "INT_MIN \<le> status" and "status \<le> INT_MAX"
  shows "\<exists>b'. response_write_error b status ka = Inr b' \<and> buf_ok b' \<and> b_cap b' = b_cap b \<and>
     (length (error_page status ka) \<le> buf_room b \<longrightarrow> buf_contents b' = buf_contents b @ error_page status ka)"
proof -
  let ?h = "message_head status (status_reason status) ''text/html'' (length (error_body status)) ka"
  note body = length_error_body [OF assms(2,3)]
  have "0 < length ?h" by (simp add: message_head_def)
  note two = buf_put_two [OF assms(1) this length_error_head [OF assms(2,3)], of "error_body status"]
  have "buf_put_fmt 2048 c (error_body status) = buf_put c (error_body status)" for c
    using body by (simp add: buf_put_fmt_def buf_put_def fmt_bytes_def)
  then have "response_write_error b status ka =
      mbind (buf_put_fmt 512 b ?h) (\<lambda>b. buf_put b (error_body status))"
    by (simp add: response_write_error_def message_head_def Let_def)
  with two body show ?thesis by (simp add: error_page_def http_message_def)
qed

text \<open>C31: Writing an error page never makes an invalid access, for every status that is an
  \<^verbatim>\<open>int\<close> and whatever the buffer holds: both arrays on the stack are large enough. When the
  buffer has room it appends one complete message with the right Content-Length.\<close>

theorem response_write_error_message:
  assumes "buf_ok b" and "INT_MIN \<le> status" and "status \<le> INT_MAX"
  shows "\<exists>b'. response_write_error b status ka = Inr b' \<and> buf_ok b' \<and> b_cap b' = b_cap b \<and>
     (length (http_message status (status_reason status) ''text/html'' (error_body status) ka) \<le> buf_room b \<longrightarrow>
        buf_contents b' = buf_contents b @
          http_message status (status_reason status) ''text/html'' (error_body status) ka)"
  using write_error_ok [OF assms, of ka] by (simp add: error_page_def)

theorem response_write_error_message_witness:
  "\<exists>b'. response_write_error \<lparr>b_data = replicate 131072 (CHR ''x''), b_cap = 131072, b_read_pos = 0, b_write_pos = 0\<rparr>
       404 False = Inr b' \<and>
     buf_contents b' = http_message 404 ''Not Found'' ''text/html'' (error_body 404) False"
proof -
  let ?b = "\<lparr>b_data = replicate 131072 (CHR ''x''), b_cap = 131072, b_read_pos = 0, b_write_pos = 0\<rparr>"
  have 1: "buf_ok ?b" by (simp add: buf_ok_def)
  have r: "status_reason 404 = ''Not Found''" by (simp add: status_reason_def)
  have 3: "length (http_message 404 ''Not Found'' ''text/html'' (error_body 404) False) \<le> buf_room ?b"
    using length_error_head [of 404 False] length_error_body [of 404]
    by (simp add: http_message_def buf_room_def r)
  have 4: "buf_contents ?b = []" by (simp add: buf_contents_def)
  show ?thesis using response_write_error_message [OF 1, of 404 False] 3 4 by (auto simp: r)
qed

section \<open>Serialising a response object\<close>

lemma force_room:
  assumes ok: "buf_ok b" and len: "length s < 2 ^ 64"
  shows "\<exists>c. (if buf_writable b < of_nat (length s) then buf_compact b else Inr b) = Inr c \<and>
     buf_ok c \<and> buf_contents c = buf_contents b \<and> b_cap c = b_cap b \<and>
     (length s \<le> buf_room c \<longleftrightarrow> length (buf_contents b) + length s \<le> unat (b_cap b) \<or> length s \<le> buf_room b)"
proof -
  have lt: "buf_writable b < of_nat (length s) \<longleftrightarrow> buf_room b < length s"
    using ok len by (simp add: word_less_nat_alt np_word)
  obtain c where "buf_compact b = Inr c" "buf_ok c" "buf_contents c = buf_contents b" "b_cap c = b_cap b"
      "buf_room c = unat (b_cap b) - length (buf_contents b)"
    using buf_compact_ok [OF ok] by blast
  then show ?thesis
    using lt ok buf_room_contents_le [OF ok] by (cases "buf_room b < length s") auto
qed

lemma fits_room: "buf_ok b \<Longrightarrow> length s \<le> buf_room b \<Longrightarrow> length (buf_contents b) + length s \<le> unat (b_cap b)"
  using buf_room_contents_le [of b] by linarith

lemma force_memcpy_fits:
  assumes ok: "buf_ok b" and fits: "length (buf_contents b) + length s \<le> unat (b_cap b)"
  shows "\<exists>b'. buf_force_memcpy b s = Inr b' \<and> buf_ok b' \<and> b_cap b' = b_cap b \<and>
     buf_contents b' = buf_contents b @ s"
proof -
  have len: "length s < 2 ^ 64" using fits unat_usize_less [of "b_cap b"] by linarith
  from force_room [OF ok len] fits obtain c where
    c: "(if buf_writable b < of_nat (length s) then buf_compact b else Inr b) = Inr c" "buf_ok c"
      "buf_contents c = buf_contents b" "b_cap c = b_cap b" "length s \<le> buf_room c" by blast
  obtain d where "buf_memcpy c s = Inr d" "buf_ok d" "buf_contents d = buf_contents c @ s" "b_cap d = b_cap c"
    using buf_memcpy_fits [OF c(2,5)] by blast
  then show ?thesis using c by (simp add: buf_force_memcpy_def)
qed

lemma serialize_headers_fits:
  assumes "buf_ok b" and "length (buf_contents b) + length (render_headers hs) \<le> unat (b_cap b)"
  shows "\<exists>b'. serialize_headers b hs = Inr b' \<and> buf_ok b' \<and> b_cap b' = b_cap b \<and>
     buf_contents b' = buf_contents b @ render_headers hs"
  using assms
proof (induction hs arbitrary: b)
  case Nil
  then show ?case by (simp add: render_headers_def)
next
  case (Cons h hs)
  have rh: "render_headers (h # hs) = render_header h @ render_headers hs"
    by (simp add: render_headers_def)
  have "length (buf_contents b) + length (render_header h) \<le> unat (b_cap b)"
    using Cons.prems(2) by (simp add: rh)
  from force_memcpy_fits [OF Cons.prems(1) this] obtain c where
    c: "buf_force_memcpy b (render_header h) = Inr c" "buf_ok c" "b_cap c = b_cap b"
      "buf_contents c = buf_contents b @ render_header h" by blast
  have "length (buf_contents c) + length (render_headers hs) \<le> unat (b_cap c)"
    using Cons.prems(2) c(3,4) by (simp add: rh)
  from Cons.IH [OF c(2) this] c show ?case by (auto simp: rh render_header_def)
qed

definition response_line :: "http_response_t \<Rightarrow> string" where
  "response_line r = ''HTTP/1.1 '' @ dec_int (res_status r) @ '' '' @
     (case res_reason r of Some s \<Rightarrow> s | None \<Rightarrow> status_reason (res_status r)) @ CRLF"

definition connection_line :: "bool \<Rightarrow> string" where
  "connection_line ka = ''Connection: '' @ (if ka then ''keep-alive'' else ''close'') @ CRLF @ CRLF"

lemma response_serialize_eq:
  assumes "length (response_line r) < 256"
  shows "response_serialize r b =
     mbind (buf_force_memcpy b (response_line r)) (\<lambda>b.
     mbind (serialize_headers b (res_headers r)) (\<lambda>b.
     mbind (buf_force_memcpy b (connection_line (res_keep_alive r))) (\<lambda>b.
       if 0 < length (res_body r) then
         mbind (if buf_writable b < of_nat (length (res_body r)) then buf_compact b else Inr b) (\<lambda>b.
         mbind (buf_try_memcpy b (res_body r)) (\<lambda>b. Inr (b, NP_OK)))
       else Inr (b, NP_OK))))"
proof -
  have "mbind m (\<lambda>c. mbind (fmt_bytes 256 (response_line r)) (\<lambda>t. mbind (buf_memcpy c t) k)) =
      mbind (mbind m (\<lambda>c. buf_memcpy c (response_line r))) k" for m and k :: "np_buf_t \<Rightarrow> (np_buf_t \<times> np_status_t) mem"
    using assms by (cases m) (simp_all add: fmt_bytes_def)
  then show ?thesis
    unfolding response_serialize_def Let_def buf_force_memcpy_def [of b "response_line r"]
      response_line_def [symmetric]
    by (cases "res_keep_alive r") (simp_all add: connection_line_def)
qed

text \<open>A response object that fits the buffer is serialised as its status line, its headers,
  a Connection header and the body. Nothing more is written: a response without a
  Content-Length among its headers goes out without one, also on a connection that is
  kept open.\<close>

theorem response_serialize_fits:
  assumes "buf_ok b" and "length (response_line r) < 256"
    and "length (buf_contents b) + length (response_line r @ render_headers (res_headers r) @
       connection_line (res_keep_alive r) @ res_body r) \<le> unat (b_cap b)"
  shows "\<exists>b'. response_serialize r b = Inr (b', NP_OK) \<and> buf_ok b' \<and>
     buf_contents b' = buf_contents b @ response_line r @ render_headers (res_headers r) @
       connection_line (res_keep_alive r) @ res_body r"
proof -
  let ?l = "response_line r" and ?h = "render_headers (res_headers r)" and ?c = "connection_line (res_keep_alive r)"
  have "length (buf_contents b) + length ?l \<le> unat (b_cap b)" using assms(3) by simp
  from force_memcpy_fits [OF assms(1) this] obtain b1 where
    1: "buf_force_memcpy b ?l = Inr b1" "buf_ok b1" "b_cap b1 = b_cap b" "buf_contents b1 = buf_contents b @ ?l"
    by blast
  have "length (buf_contents b1) + length ?h \<le> unat (b_cap b1)" using assms(3) 1 by simp
  from serialize_headers_fits [OF 1(2) this] obtain b2 where
    2: "serialize_headers b1 (res_headers r) = Inr b2" "buf_ok b2" "b_cap b2 = b_cap b1"
      "buf_contents b2 = buf_contents b1 @ ?h" by blast
  have "length (buf_contents b2) + length ?c \<le> unat (b_cap b2)" using assms(3) 1 2 by simp
  from force_memcpy_fits [OF 2(2) this] obtain b3 where
    3: "buf_force_memcpy b2 ?c = Inr b3" "buf_ok b3" "b_cap b3 = b_cap b2" "buf_contents b3 = buf_contents b2 @ ?c"
    by blast
  have fit: "length (buf_contents b3) + length (res_body r) \<le> unat (b_cap b3)" using assms(3) 1 2 3 by simp
  then have len: "length (res_body r) < 2 ^ 64" using unat_usize_less [of "b_cap b3"] by linarith
  from force_room [OF 3(2) len] fit obtain b4 where
    4: "(if buf_writable b3 < of_nat (length (res_body r)) then buf_compact b3 else Inr b3) = Inr b4" "buf_ok b4"
      "buf_contents b4 = buf_contents b3" "length (res_body r) \<le> buf_room b4" by blast
  obtain b5 where 5: "buf_try_memcpy b4 (res_body r) = Inr b5" "buf_ok b5" "buf_contents b5 = buf_contents b4 @ res_body r"
    using buf_memcpy_fits [OF 4(2,4)] buf_try_memcpy_eq [OF 4(2) len] 4(4) by auto
  show ?thesis
    unfolding response_serialize_eq [OF assms(2)] 1(1) mbind_simps 2(1) 3(1) 4(1) 5(1)
    using 1 2 3 4 5 by simp
qed

abbreviation example_response :: http_response_t where
  "example_response \<equiv> \<lparr>res_status = 200, res_reason = Some ''OK'', res_headers = [], res_body = ''hi'',
     res_keep_alive = True, res_chunked = False\<rparr>"

theorem response_serialize_fits_witness:
  "\<exists>b'. response_serialize example_response
       \<lparr>b_data = replicate 4096 (CHR ''x''), b_cap = 4096, b_read_pos = 0, b_write_pos = 0\<rparr> = Inr (b', NP_OK) \<and>
     buf_contents b' = response_line example_response @ connection_line True @ ''hi''"
proof -
  let ?b = "\<lparr>b_data = replicate 4096 (CHR ''x''), b_cap = 4096, b_read_pos = 0, b_write_pos = 0\<rparr>"
  have 1: "buf_ok ?b" by (simp add: buf_ok_def)
  have 2: "length (response_line example_response) < 256"
    using length_dec_int [of 200] by (simp add: response_line_def)
  have 4: "buf_contents ?b = []" by (simp add: buf_contents_def)
  have 3: "length (buf_contents ?b) + length (response_line example_response @
      render_headers (res_headers example_response) @ connection_line (res_keep_alive example_response) @
      res_body example_response) \<le> unat (b_cap ?b)"
    using 2 by (simp add: connection_line_def render_headers_def 4)
  show ?thesis
    using response_serialize_fits [OF 1 2 3] 4 by (auto simp: render_headers_def)
qed

text \<open>Serialising does not check that the status line fits: when it does not, even after
  the buffer is compacted, the copy goes beyond the end of the buffer's block.\<close>

theorem response_serialize_overflow:
  assumes "buf_ok b" and "length (response_line r) < 256"
    and "unat (b_cap b) < length (buf_contents b) + length (response_line r)"
  shows "response_serialize r b = Inl Out_of_bounds"
proof -
  have len: "length (response_line r) < 2 ^ 64" using assms(2) by simp
  have "\<not> length (response_line r) \<le> buf_room b" using assms(3) fits_room [OF assms(1), of "response_line r"] by linarith
  with force_room [OF assms(1) len] assms(3) obtain c where
    "(if buf_writable b < of_nat (length (response_line r)) then buf_compact b else Inr b) = Inr c" "buf_ok c"
    "buf_room c < length (response_line r)" by force
  then have "buf_force_memcpy b (response_line r) = Inl Out_of_bounds"
    by (simp add: buf_force_memcpy_def buf_memcpy_overflow)
  then show ?thesis by (simp add: response_serialize_eq [OF assms(2)])
qed

theorem response_serialize_overflow_witness:
  "response_serialize example_response
     \<lparr>b_data = ''abcdefgh'', b_cap = 8, b_read_pos = 0, b_write_pos = 8\<rparr> = Inl Out_of_bounds"
proof (rule response_serialize_overflow)
  show "length (response_line example_response) < 256"
    using length_dec_int [of 200] by (simp add: response_line_def)
qed (simp_all add: buf_ok_def buf_contents_def response_line_def)

end
