(* ===== verification/Event_Loop.thy ===== *)
theory Event_Loop
  imports Prelude
begin

text \<open>
  The event loop of \<^verbatim>\<open>src/src/net/event_loop.c\<close>: an array of handler pointers indexed by file
  descriptor, the handlers in the heap, and the interest list that the kernel keeps, in which
  each descriptor has the events asked for and the pointer to hand back. What \<^verbatim>\<open>malloc\<close>,
  \<^verbatim>\<open>epoll_ctl\<close> and \<^verbatim>\<open>epoll_wait\<close> answer are arguments.

  The loop refines a registry of callbacks. A batch of events is dispatched through pointers
  read before the first callback runs: the theorems say when that is safe and what happens when
  a callback removes a descriptor whose event is still waiting.
\<close>

section \<open>Model\<close>

text \<open>The callbacks that the server registers.\<close>

datatype ev_handler_fn = On_accept_event | On_client_event | Proxy_on_upstream_event | Signal_handler

record ev_handler_t =
  eh_fn :: ev_handler_fn
  eh_ctx :: nat
  eh_fd :: int

record event_loop_t =
  el_epfd :: int
  el_max_events :: int
  el_handlers :: "int \<Rightarrow> nat option"
  el_max_fd :: int
  el_heap :: "nat \<rightharpoonup> ev_handler_t"
  el_interest :: "int \<rightharpoonup> u32 \<times> nat option"

abbreviation EV_READ :: u32 where "EV_READ \<equiv> 0x001"
abbreviation EV_WRITE :: u32 where "EV_WRITE \<equiv> 0x004"
abbreviation EPOLLERR :: u32 where "EPOLLERR \<equiv> 0x008"
abbreviation EV_HUP :: u32 where "EV_HUP \<equiv> 0x2000"
abbreviation EV_EDGE :: u32 where "EV_EDGE \<equiv> 0x80000000"

text \<open>
  The arguments say whether the structure was allocated, the descriptor of \<^verbatim>\<open>epoll_create1\<close>,
  and whether the two arrays were allocated.
\<close>

definition event_loop_create :: "int \<Rightarrow> bool \<Rightarrow> int \<Rightarrow> bool \<Rightarrow> bool \<Rightarrow> event_loop_t option" where
  "event_loop_create max_events m0 epfd m1 m2 =
     (if \<not> m0 then None
      else if epfd < 0 then None
      else if \<not> m1 \<or> \<not> m2 then None
      else Some \<lparr>el_epfd = epfd, el_max_events = max_events, el_handlers = \<lambda>_. None, el_max_fd = 65536,
        el_heap = Map.empty, el_interest = Map.empty\<rparr>)"

text \<open>The heap of handlers after \<^verbatim>\<open>free\<close> of the array's pointers; \<^verbatim>\<open>free(NULL)\<close> does nothing.\<close>

definition event_loop_destroy :: "event_loop_t \<Rightarrow> nat \<rightharpoonup> ev_handler_t" where
  "event_loop_destroy loop =
     foldl (\<lambda>heap fd. case el_handlers loop fd of None \<Rightarrow> heap | Some a \<Rightarrow> heap(a := None))
       (el_heap loop) [0..el_max_fd loop - 1]"

datatype ctl_op = EPOLL_CTL_ADD | EPOLL_CTL_MOD | EPOLL_CTL_DEL

text \<open>\<open>m\<close> is what \<^verbatim>\<open>malloc\<close> returns when it is called, \<open>ok\<close> whether \<^verbatim>\<open>epoll_ctl\<close> succeeds.\<close>

definition loop_ctl ::
  "event_loop_t \<Rightarrow> ctl_op \<Rightarrow> int \<Rightarrow> u32 \<Rightarrow> ev_handler_fn \<Rightarrow> nat \<Rightarrow> nat option \<Rightarrow> bool \<Rightarrow> (event_loop_t \<times> np_status_t) mem" where
  "loop_ctl loop cop fd events fn ctx m ok =
     (if el_max_fd loop \<le> fd then Inr (loop, NP_ERR)
      else if fd < 0 then Inl Out_of_bounds
      else
        (let new = (if (cop = EPOLL_CTL_ADD \<or> cop = EPOLL_CTL_MOD) \<and> el_handlers loop fd = None
                    then m else el_handlers loop fd)
         in if (cop = EPOLL_CTL_ADD \<or> cop = EPOLL_CTL_MOD) \<and> new = None then Inr (loop, NP_ERR_NOMEM)
            else
              (let loop =
                 (if cop = EPOLL_CTL_ADD \<or> cop = EPOLL_CTL_MOD
                  then loop\<lparr>el_handlers := (el_handlers loop)(fd := new),
                     el_heap := (el_heap loop)(the new \<mapsto> \<lparr>eh_fn = fn, eh_ctx = ctx, eh_fd = fd\<rparr>)\<rparr>
                  else loop)
               in if \<not> ok then Inr (loop, NP_ERR)
                  else Inr (loop\<lparr>el_interest := (el_interest loop)
                     (fd := if cop = EPOLL_CTL_DEL then None else Some (events, el_handlers loop fd))\<rparr>, NP_OK))))"

definition event_loop_add ::
  "event_loop_t \<Rightarrow> int \<Rightarrow> u32 \<Rightarrow> ev_handler_fn \<Rightarrow> nat \<Rightarrow> nat option \<Rightarrow> bool \<Rightarrow> (event_loop_t \<times> np_status_t) mem" where
  "event_loop_add loop fd events fn ctx m ok = loop_ctl loop EPOLL_CTL_ADD fd events fn ctx m ok"

definition event_loop_mod ::
  "event_loop_t \<Rightarrow> int \<Rightarrow> u32 \<Rightarrow> ev_handler_fn \<Rightarrow> nat \<Rightarrow> nat option \<Rightarrow> bool \<Rightarrow> (event_loop_t \<times> np_status_t) mem" where
  "event_loop_mod loop fd events fn ctx m ok = loop_ctl loop EPOLL_CTL_MOD fd events fn ctx m ok"

definition event_loop_del :: "event_loop_t \<Rightarrow> int \<Rightarrow> bool \<Rightarrow> (event_loop_t \<times> np_status_t) mem" where
  "event_loop_del loop fd ok =
     (if el_max_fd loop \<le> fd then Inr (loop, NP_ERR)
      else if fd < 0 then Inl Out_of_bounds
      else
        (let loop = (if ok then loop\<lparr>el_interest := (el_interest loop)(fd := None)\<rparr> else loop);
             heap = (case el_handlers loop fd of None \<Rightarrow> el_heap loop | Some a \<Rightarrow> (el_heap loop)(a := None))
         in Inr (loop\<lparr>el_heap := heap, el_handlers := (el_handlers loop)(fd := None)\<rparr>, NP_OK)))"

text \<open>
  The \<^verbatim>\<open>for\<close> loop of \<^verbatim>\<open>event_loop_run\<close> over one batch. The state \<open>s\<close> of the server holds the
  loop; \<open>call\<close> runs a callback. A pointer of the batch is followed when its turn comes.
\<close>

fun run_batch ::
  "('s \<Rightarrow> event_loop_t) \<Rightarrow> (ev_handler_t \<Rightarrow> u32 \<Rightarrow> 's \<Rightarrow> 's mem) \<Rightarrow> (nat option \<times> u32) list \<Rightarrow> 's \<Rightarrow> 's mem" where
  "run_batch lp call [] s = Inr s"
| "run_batch lp call ((h, ev) # es) s =
     (case h of
        None \<Rightarrow> run_batch lp call es s
      | Some a \<Rightarrow>
          (case el_heap (lp s) a of
             None \<Rightarrow> Inl Out_of_bounds
           | Some hn \<Rightarrow> mbind (call hn ev s) (run_batch lp call es)))"

text \<open>
  What \<^verbatim>\<open>epoll_wait\<close> answers: the descriptors that are ready with their events, a signal, or
  another error. The kernel fills the array with the pointers of its interest list.
\<close>

datatype wait_result = Wait_events "(int \<times> u32) list" | Wait_eintr | Wait_error

definition ready_events :: "event_loop_t \<Rightarrow> (int \<times> u32) list \<Rightarrow> (nat option \<times> u32) list" where
  "ready_events loop rs = map (\<lambda>(fd, ev). (case el_interest loop fd of None \<Rightarrow> None | Some (_, h) \<Rightarrow> h, ev)) rs"

text \<open>The loop over the answers of the kernel in turn; \<open>running\<close> reads the flag.\<close>

fun event_loop_run ::
  "('s \<Rightarrow> event_loop_t) \<Rightarrow> (ev_handler_t \<Rightarrow> u32 \<Rightarrow> 's \<Rightarrow> 's mem) \<Rightarrow> ('s \<Rightarrow> bool) \<Rightarrow> wait_result list \<Rightarrow> 's \<Rightarrow> 's mem" where
  "event_loop_run lp call running [] s = Inr s"
| "event_loop_run lp call running (w # ws) s =
     (if \<not> running s then Inr s
      else case w of
        Wait_eintr \<Rightarrow> event_loop_run lp call running ws s
      | Wait_error \<Rightarrow> Inr s
      | Wait_events rs \<Rightarrow>
          mbind (run_batch lp call (ready_events (lp s) rs) s) (event_loop_run lp call running ws))"

definition event_loop_fd :: "event_loop_t \<Rightarrow> int" where
  "event_loop_fd loop = el_epfd loop"

section \<open>Invariant\<close>

text \<open>
  Every pointer of the array is to a live handler that carries its descriptor, no two slots
  share one, and the kernel's pointers are those of the array.
\<close>

definition loop_ok :: "event_loop_t \<Rightarrow> bool" where
  "loop_ok loop \<longleftrightarrow>
     (\<forall>fd a. el_handlers loop fd = Some a \<longrightarrow> 0 \<le> fd \<and> fd < el_max_fd loop \<and>
        (\<exists>h. el_heap loop a = Some h \<and> eh_fd h = fd)) \<and>
     (\<forall>fd fd' a. el_handlers loop fd = Some a \<longrightarrow> el_handlers loop fd' = Some a \<longrightarrow> fd = fd') \<and>
     (\<forall>fd ev h. el_interest loop fd = Some (ev, h) \<longrightarrow> h = el_handlers loop fd \<and> h \<noteq> None) \<and>
     0 < el_max_fd loop"

text \<open>What a client of the loop sees: the callback, context and events of each descriptor.\<close>

definition registered :: "event_loop_t \<Rightarrow> int \<rightharpoonup> ev_handler_fn \<times> nat \<times> u32" where
  "registered loop fd =
     (case el_interest loop fd of
        Some (ev, Some a) \<Rightarrow> map_option (\<lambda>h. (eh_fn h, eh_ctx h, ev)) (el_heap loop a)
      | _ \<Rightarrow> None)"

text \<open>\<^verbatim>\<open>malloc\<close> returns memory that is not in use.\<close>

definition fresh_handler :: "event_loop_t \<Rightarrow> nat option \<Rightarrow> bool" where
  "fresh_handler loop m \<longleftrightarrow> (\<forall>a. m = Some a \<longrightarrow> el_heap loop a = None)"

lemma loop_okD:
  assumes "loop_ok loop"
  shows "el_handlers loop fd = Some a \<Longrightarrow> 0 \<le> fd \<and> fd < el_max_fd loop \<and> (\<exists>h. el_heap loop a = Some h \<and> eh_fd h = fd)"
    and "el_handlers loop fd = Some a \<Longrightarrow> el_handlers loop fd' = Some a \<Longrightarrow> fd = fd'"
    and "el_interest loop fd = Some (ev, h) \<Longrightarrow> h = el_handlers loop fd \<and> h \<noteq> None"
  using assms unfolding loop_ok_def by blast+

lemma registered_cong:
  "el_interest l fd = el_interest l' fd \<Longrightarrow> el_heap l = el_heap l' \<Longrightarrow> registered l fd = registered l' fd"
  by (simp add: registered_def cong: option.case_cong)

lemma loop_ok_create: "event_loop_create n m0 epfd m1 m2 = Some loop \<Longrightarrow> loop_ok loop \<and> registered loop = Map.empty"
  by (auto simp: event_loop_create_def loop_ok_def registered_def split: if_splits)

text \<open>Storing a handler in the slot of a descriptor.\<close>

definition set_handler :: "event_loop_t \<Rightarrow> int \<Rightarrow> nat \<Rightarrow> ev_handler_fn \<Rightarrow> nat \<Rightarrow> event_loop_t" where
  "set_handler loop fd a fn ctx =
     loop\<lparr>el_handlers := (el_handlers loop)(fd \<mapsto> a),
       el_heap := (el_heap loop)(a \<mapsto> \<lparr>eh_fn = fn, eh_ctx = ctx, eh_fd = fd\<rparr>)\<rparr>"

lemma set_handler_ok:
  assumes ok: "loop_ok loop" and fd: "0 \<le> fd" "fd < el_max_fd loop"
    and a: "el_handlers loop fd = Some a \<or> el_handlers loop fd = None \<and> el_heap loop a = None"
  shows "loop_ok (set_handler loop fd a fn ctx)"
    and "fd' \<noteq> fd \<Longrightarrow> registered (set_handler loop fd a fn ctx) fd' = registered loop fd'"
proof -
  have other: "b \<noteq> a" if "el_handlers loop fd' = Some b" "fd' \<noteq> fd" for fd' b
    using loop_okD(1) [OF ok that(1)] loop_okD(2) [OF ok, of fd' a fd] that a by auto
  show "loop_ok (set_handler loop fd a fn ctx)"
    using ok fd a other unfolding loop_ok_def set_handler_def by (auto split: if_splits) (metis option.distinct(1))
  show "registered (set_handler loop fd a fn ctx) fd' = registered loop fd'" if "fd' \<noteq> fd"
  proof (cases "el_interest loop fd'")
    case (Some p)
    obtain ev h where p: "p = (ev, h)" by (cases p)
    with loop_okD(3) [OF ok, of fd' ev h] Some obtain b where b: "h = Some b" "el_handlers loop fd' = Some b" by auto
    show ?thesis using other [OF b(2) that] by (simp add: registered_def set_handler_def Some p b(1))
  qed (simp add: registered_def set_handler_def)
qed

lemma loop_ok_interest:
  "loop_ok loop \<Longrightarrow> el_handlers loop fd = Some a \<Longrightarrow> loop_ok (loop\<lparr>el_interest := (el_interest loop)(fd \<mapsto> (ev, Some a))\<rparr>)"
  unfolding loop_ok_def by simp

lemma loop_ctl_put:
  assumes ok: "loop_ok loop" and fresh: "fresh_handler loop m" and fd: "0 \<le> fd"
    and cop: "cop = EPOLL_CTL_ADD \<or> cop = EPOLL_CTL_MOD"
  shows "\<exists>loop' st. loop_ctl loop cop fd events fn ctx m k = Inr (loop', st) \<and> loop_ok loop' \<and>
    el_max_fd loop' = el_max_fd loop \<and> (\<forall>fd'. fd' \<noteq> fd \<longrightarrow> registered loop' fd' = registered loop fd') \<and>
    (st = NP_OK \<longleftrightarrow> fd < el_max_fd loop \<and> (el_handlers loop fd \<noteq> None \<or> m \<noteq> None) \<and> k) \<and>
    (st = NP_OK \<longrightarrow> registered loop' fd = Some (fn, ctx, events))"
proof (cases "fd < el_max_fd loop \<and> (el_handlers loop fd \<noteq> None \<or> m \<noteq> None)")
  case False
  then show ?thesis using ok fd cop by (auto simp: loop_ctl_def)
next
  case True
  define a where "a = (case el_handlers loop fd of Some a \<Rightarrow> a | None \<Rightarrow> the m)"
  have a: "el_handlers loop fd = Some a \<or> el_handlers loop fd = None \<and> el_heap loop a = None"
    using True fresh by (auto simp: a_def fresh_handler_def split: option.splits)
  let ?l = "set_handler loop fd a fn ctx"
  let ?l' = "?l\<lparr>el_interest := (el_interest loop)(fd \<mapsto> (events, Some a))\<rparr>"
  have "(if el_handlers loop fd = None then m else el_handlers loop fd) = Some a"
    using True by (auto simp: a_def)
  then have eq: "loop_ctl loop cop fd events fn ctx m k = Inr (if k then (?l', NP_OK) else (?l, NP_ERR))"
    using True fd cop by (auto simp: loop_ctl_def set_handler_def Let_def)
  note set = set_handler_ok [OF ok fd _ a]
  have ok': "loop_ok ?l'"
    using loop_ok_interest [OF set(1), of fn ctx fd a events] True by (simp add: set_handler_def)
  have "registered ?l' fd' = registered loop fd'" if "fd' \<noteq> fd" for fd'
  proof -
    have "registered ?l' fd' = registered ?l fd'" using that by (intro registered_cong) (simp_all add: set_handler_def)
    then show ?thesis using set(2) [of fd' fn ctx] True that by simp
  qed
  moreover have "registered ?l' fd = Some (fn, ctx, events)" by (simp add: registered_def set_handler_def)
  moreover have "el_max_fd ?l = el_max_fd loop" by (simp add: set_handler_def)
  moreover have "loop_ok ?l" "\<forall>fd'. fd' \<noteq> fd \<longrightarrow> registered ?l fd' = registered loop fd'"
    using set(1) [of fn ctx] set(2) [of _ fn ctx] True by simp_all
  ultimately show ?thesis using eq ok' True by (cases k) simp_all
qed

lemma event_loop_del_ok:
  assumes ok: "loop_ok loop" and fd: "0 \<le> fd" "fd < el_max_fd loop"
    and k: "k \<or> el_interest loop fd = None"
  shows "\<exists>loop'. event_loop_del loop fd k = Inr (loop', NP_OK) \<and> loop_ok loop' \<and>
    el_max_fd loop' = el_max_fd loop \<and> registered loop' = (registered loop)(fd := None)"
proof -
  let ?heap = "case el_handlers loop fd of None \<Rightarrow> el_heap loop | Some a \<Rightarrow> (el_heap loop)(a := None)"
  let ?l = "loop\<lparr>el_interest := (el_interest loop)(fd := None), el_heap := ?heap,
    el_handlers := (el_handlers loop)(fd := None)\<rparr>"
  have eq: "event_loop_del loop fd k = Inr (?l, NP_OK)"
  proof (cases k)
    case True
    then show ?thesis using fd by (simp add: event_loop_del_def Let_def cong: option.case_cong)
  next
    case False
    then have "(el_interest loop)(fd := None) = el_interest loop" using k by (intro fun_upd_idem) simp
    then show ?thesis using fd False by (cases loop) (simp add: event_loop_del_def Let_def cong: option.case_cong)
  qed
  have heap: "?heap b = el_heap loop b" if "el_handlers loop fd' = Some b" "fd' \<noteq> fd" for fd' b
    using loop_okD(2) [OF ok that(1), of fd] that by (auto split: option.splits)
  have "loop_ok ?l"
    using ok heap unfolding loop_ok_def by auto
  moreover have "registered ?l fd' = ((registered loop)(fd := None)) fd'" for fd'
  proof (cases "fd' = fd \<or> el_interest loop fd' = None")
    case False
    then obtain ev b where "el_interest loop fd' = Some (ev, Some b)" "el_handlers loop fd' = Some b"
      using loop_okD(3) [OF ok, of fd'] by fastforce
    then show ?thesis using heap [of fd' b] False by (simp add: registered_def)
  qed (auto simp: registered_def)
  ultimately show ?thesis using eq by auto
qed

section \<open>The registry a client sees\<close>

text \<open>
  The interface that the connections use: a registry of callbacks from which a descriptor can
  be removed.
\<close>

locale event_registry =
  fixes inv :: "'l \<Rightarrow> bool" and limit :: "'l \<Rightarrow> int" and reg :: "'l \<Rightarrow> int \<rightharpoonup> 'c"
    and del :: "'l \<Rightarrow> int \<Rightarrow> ('l \<times> np_status_t) mem"
  assumes del_ok: "inv l \<Longrightarrow> 0 \<le> fd \<Longrightarrow> \<exists>l' st. del l fd = Inr (l', st) \<and> inv l' \<and> limit l' = limit l \<and>
      reg l' = (reg l)(fd := None)"
begin

lemma del_two:
  assumes "inv l" "0 \<le> a" "0 \<le> b"
  shows "\<exists>l' st l'' st'. del l a = Inr (l', st) \<and> del l' b = Inr (l'', st') \<and> inv l'' \<and> limit l'' = limit l \<and>
    reg l'' = reg l |` (- {a, b})"
proof -
  from del_ok [OF assms(1,2)] obtain l' st where
    1: "del l a = Inr (l', st)" "inv l'" "limit l' = limit l" "reg l' = (reg l)(a := None)" by blast
  from del_ok [OF 1(2) assms(3)] obtain l'' st' where
    2: "del l' b = Inr (l'', st')" "inv l''" "limit l'' = limit l'" "reg l'' = (reg l')(b := None)" by blast
  have "reg l'' = reg l |` (- {a, b})" by (simp add: 1(4) 2(4) restrict_map_def fun_eq_iff)
  with 1 2 show ?thesis by auto
qed

end

lemma registered_range: "loop_ok loop \<Longrightarrow> registered loop fd \<noteq> None \<Longrightarrow> 0 \<le> fd \<and> fd < el_max_fd loop"
  by (auto simp: registered_def split: option.splits dest: loop_okD)

interpretation evl: event_registry loop_ok el_max_fd registered "\<lambda>loop fd. event_loop_del loop fd True"
proof
  fix l :: event_loop_t and fd :: int
  assume ok: "loop_ok l" and fd: "0 \<le> fd"
  show "\<exists>l' st. event_loop_del l fd True = Inr (l', st) \<and> loop_ok l' \<and> el_max_fd l' = el_max_fd l \<and>
      registered l' = (registered l)(fd := None)"
  proof (cases "fd < el_max_fd l")
    case True
    from event_loop_del_ok [OF ok fd this, of True] show ?thesis by auto
  next
    case False
    then have "registered l fd = None" using registered_range [OF ok, of fd] by blast
    then show ?thesis using ok False by (auto simp: event_loop_del_def fun_upd_idem)
  qed
qed

section \<open>Dispatching a batch\<close>

text \<open>
  The batch as one would specify it: the callback and context of each descriptor are looked up
  in the registry when its turn comes.
\<close>

fun dispatch ::
  "('s \<Rightarrow> event_loop_t) \<Rightarrow> (ev_handler_t \<Rightarrow> u32 \<Rightarrow> 's \<Rightarrow> 's mem) \<Rightarrow> (int \<times> u32) list \<Rightarrow> 's \<Rightarrow> 's mem" where
  "dispatch lp call [] s = Inr s"
| "dispatch lp call ((fd, ev) # rs) s =
     (case registered (lp s) fd of
        None \<Rightarrow> Inl Out_of_bounds
      | Some (fn, ctx, _) \<Rightarrow>
          mbind (call \<lparr>eh_fn = fn, eh_ctx = ctx, eh_fd = fd\<rparr> ev s) (dispatch lp call rs))"

text \<open>A callback that removes no descriptor but its own.\<close>

definition keeps_others :: "('s \<Rightarrow> event_loop_t) \<Rightarrow> (ev_handler_t \<Rightarrow> u32 \<Rightarrow> 's \<Rightarrow> 's mem) \<Rightarrow> bool" where
  "keeps_others lp call \<longleftrightarrow>
     (\<forall>hn ev s s'. loop_ok (lp s) \<longrightarrow> call hn ev s = Inr s' \<longrightarrow> loop_ok (lp s') \<and>
        (\<forall>fd. fd \<noteq> eh_fd hn \<longrightarrow> registered (lp s) fd \<noteq> None \<longrightarrow>
           registered (lp s') fd \<noteq> None \<and> el_handlers (lp s') fd = el_handlers (lp s) fd))"

lemma registered_handler:
  assumes ok: "loop_ok loop" and "registered loop fd = Some (fn, ctx, ev)"
  obtains a where "el_handlers loop fd = Some a" "el_heap loop a = Some \<lparr>eh_fn = fn, eh_ctx = ctx, eh_fd = fd\<rparr>"
    "el_interest loop fd = Some (ev, Some a)"
proof -
  from assms(2) obtain a h where a: "el_interest loop fd = Some (ev, Some a)" "el_heap loop a = Some h"
    "eh_fn h = fn" "eh_ctx h = ctx" by (auto simp: registered_def split: option.splits)
  then have "el_handlers loop fd = Some a" using loop_okD(3) [OF ok] by metis
  moreover from this have "eh_fd h = fd" using loop_okD(1) [OF ok] a(2) by fastforce
  ultimately show ?thesis using that [of a] a by (cases h) simp
qed

lemma run_batch_pointers:
  assumes "keeps_others lp call" "loop_ok (lp s)" "distinct (map fst rs)"
    "\<forall>r \<in> set rs. registered (lp s) (fst r) \<noteq> None"
    "\<forall>r \<in> set rs. el_handlers (lp s) (fst r) = el_handlers loop (fst r)"
  shows "run_batch lp call (map (\<lambda>r. (el_handlers loop (fst r), snd r)) rs) s = dispatch lp call rs s"
  using assms(2-)
proof (induction rs arbitrary: s)
  case Nil
  then show ?case by simp
next
  case (Cons r rs)
  obtain fd ev where r: "r = (fd, ev)" by (cases r)
  from Cons.prems(3) obtain fn ctx e where reg: "registered (lp s) fd = Some (fn, ctx, e)" by (auto simp: r)
  from registered_handler [OF Cons.prems(1) reg] obtain a where
    a: "el_handlers (lp s) fd = Some a" "el_heap (lp s) a = Some \<lparr>eh_fn = fn, eh_ctx = ctx, eh_fd = fd\<rparr>" by blast
  let ?hn = "\<lparr>eh_fn = fn, eh_ctx = ctx, eh_fd = fd\<rparr>"
  have step: "run_batch lp call (map (\<lambda>r. (el_handlers loop (fst r), snd r)) rs) s' = dispatch lp call rs s'"
    if "call ?hn ev s = Inr s'" for s'
  proof -
    have k: "loop_ok (lp s')" "\<And>fd'. fd' \<noteq> fd \<Longrightarrow> registered (lp s) fd' \<noteq> None \<Longrightarrow>
        registered (lp s') fd' \<noteq> None \<and> el_handlers (lp s') fd' = el_handlers (lp s) fd'"
      using assms(1) Cons.prems(1) that unfolding keeps_others_def by force+
    have "fst x \<noteq> fd" if "x \<in> set rs" for x using Cons.prems(2) that by (force simp: r)
    then show ?thesis using Cons.prems k by (intro Cons.IH) auto
  qed
  have "el_handlers loop fd = Some a" using Cons.prems(4) a(1) by (simp add: r)
  then show ?case using a(2) reg step by (cases "call ?hn ev s") (simp_all add: r)
qed


text \<open>Two descriptors and a callback that removes its own.\<close>

definition demo_loop :: event_loop_t where
  "demo_loop = \<lparr>el_epfd = 3, el_max_events = 1024, el_handlers = [5 \<mapsto> 0, 7 \<mapsto> 1], el_max_fd = 65536,
     el_heap = [0 \<mapsto> \<lparr>eh_fn = On_client_event, eh_ctx = 40, eh_fd = 5\<rparr>,
       1 \<mapsto> \<lparr>eh_fn = On_client_event, eh_ctx = 41, eh_fd = 7\<rparr>],
     el_interest = [5 \<mapsto> (EV_READ, Some 0), 7 \<mapsto> (EV_READ, Some 1)]\<rparr>"

definition demo_call :: "ev_handler_t \<Rightarrow> u32 \<Rightarrow> event_loop_t \<times> nat list \<Rightarrow> (event_loop_t \<times> nat list) mem" where
  "demo_call hn ev s = mbind (event_loop_del (fst s) (eh_fd hn) True) (\<lambda>(l, _). Inr (l, snd s @ [eh_ctx hn]))"

lemma demo_loop_ok: "loop_ok demo_loop"
  by (simp add: loop_ok_def demo_loop_def)

lemma demo_keeps_others: "keeps_others fst demo_call"
proof -
  have "loop_ok (fst s') \<and> (\<forall>fd. fd \<noteq> eh_fd hn \<longrightarrow> registered (fst s) fd \<noteq> None \<longrightarrow>
      registered (fst s') fd \<noteq> None \<and> el_handlers (fst s') fd = el_handlers (fst s) fd)"
    if ok: "loop_ok (fst s)" and call: "demo_call hn ev s = Inr s'" for hn ev s s'
  proof -
    have "0 \<le> eh_fd hn" using call ok [unfolded loop_ok_def] by (auto simp: demo_call_def event_loop_del_def mbind_Inr_iff split: if_splits)
    from evl.del_ok [OF ok this] obtain l st where l: "event_loop_del (fst s) (eh_fd hn) True = Inr (l, st)" "loop_ok l"
      "registered l = (registered (fst s))(eh_fd hn := None)" by blast
    have "el_handlers l fd = el_handlers (fst s) fd" if "fd \<noteq> eh_fd hn" for fd
      using l(1) that by (auto simp: event_loop_del_def Let_def split: if_splits)
    moreover have "fst s' = l" using call l(1) by (auto simp: demo_call_def)
    ultimately show ?thesis using l by simp
  qed
  then show ?thesis unfolding keeps_others_def by blast
qed


text \<open>A callback that removes a descriptor whose event still waits in the batch.\<close>

lemma batch_use_after_free:
  assumes ok: "loop_ok (lp s)" and reg: "registered (lp s) fd1 = Some (fn, ctx, e1)" "registered (lp s) fd2 \<noteq> None"
    and call: "call \<lparr>eh_fn = fn, eh_ctx = ctx, eh_fd = fd1\<rparr> ev1 s = Inr s'"
    and del: "el_heap (lp s') (the (el_handlers (lp s) fd2)) = None"
  shows "run_batch lp call (ready_events (lp s) [(fd1, ev1), (fd2, ev2)]) s = Inl Out_of_bounds"
proof -
  from registered_handler [OF ok reg(1)] obtain a where
    a: "el_heap (lp s) a = Some \<lparr>eh_fn = fn, eh_ctx = ctx, eh_fd = fd1\<rparr>" "el_interest (lp s) fd1 = Some (e1, Some a)" by blast
  from reg(2) obtain fn2 ctx2 e2 where "registered (lp s) fd2 = Some (fn2, ctx2, e2)" by auto
  from registered_handler [OF ok this] obtain b where
    b: "el_handlers (lp s) fd2 = Some b" "el_interest (lp s) fd2 = Some (e2, Some b)" by blast
  show ?thesis using a b call del by (simp add: ready_events_def)
qed

end
