(* ===== verification/Conn.thy ===== *)
theory Conn
  imports Buffer Arena Request Response Event_Loop
begin

text \<open>
  Connections and the pool of free connections of \<^verbatim>\<open>src/src/net/conn.c\<close>. Connections are in a
  heap, indexed by address, so that the free list is followed through pointers as in the code and
  a use of a connection that was freed is an error. The pointers of a connection to the event
  loop and to the worker are left out: a process has one of each, and the operations take them as
  arguments.

  The free list refines a list of addresses. A step relation of the operations that take
  connections out and put them back shows that no connection is used twice at the same time,
  provided that it is put back once; putting it back twice is shown to hand it out twice.
\<close>

section \<open>Model\<close>

datatype conn_state_t =
    CONN_READING_REQUEST | CONN_WRITING_RESPONSE | CONN_PROXYING | CONN_TUNNEL | CONN_CLOSING | CONN_SENDFILE

text \<open>
  \<^verbatim>\<open>proxy_pool\<close>, \<^verbatim>\<open>cache_store\<close> are indices of the worker's arrays, \<^verbatim>\<open>tls_conn\<close> is the index of
  a backend (the only use the server makes of it), \<^verbatim>\<open>cache_buf\<close> the block of \<^verbatim>\<open>cache_cap\<close> bytes.
\<close>

record conn_t =
  cn_fd :: int
  cn_upstream_fd :: int
  cn_state :: conn_state_t
  cn_arena :: arena_t
  cn_rbuf :: np_buf_t
  cn_wbuf :: np_buf_t
  cn_upstream_rbuf :: np_buf_t
  cn_upstream_wbuf :: np_buf_t
  cn_peer :: "u32 \<times> u16"
  cn_last_active :: int
  cn_file_fd :: int
  cn_file_offset :: int
  cn_file_remaining :: int
  cn_keep_alive :: bool
  cn_tls :: bool
  cn_proxy_pool :: "nat option"
  cn_tls_conn :: "nat option"
  cn_request :: "http_request_t option"
  cn_response :: "http_response_t option"
  cn_cache_store :: "nat option"
  cn_cache_key :: string
  cn_cache_buf :: "string option"
  cn_cache_len :: usize
  cn_cache_cap :: usize
  cn_proxy_status :: int
  cn_next :: "nat option"
  cn_prev :: "nat option"

type_synonym cheap = "nat \<rightharpoonup> conn_t"

record conn_pool_t =
  cp_free_head :: "nat option"
  cp_free_count :: int
  cp_max_free :: int

definition conn_init_bufs :: "conn_t \<Rightarrow> conn_t" where
  "conn_init_bufs c =
     c\<lparr>cn_rbuf := buf_reset (cn_rbuf c), cn_wbuf := buf_reset (cn_wbuf c),
       cn_upstream_rbuf := buf_reset (cn_upstream_rbuf c), cn_upstream_wbuf := buf_reset (cn_upstream_wbuf c)\<rparr>"

text \<open>The structure after \<^verbatim>\<open>memset\<close>, with its arena.\<close>

definition buf_zero :: np_buf_t where
  "buf_zero = \<lparr>b_data = [], b_cap = 0, b_read_pos = 0, b_write_pos = 0\<rparr>"

definition conn_zero :: "arena_t \<Rightarrow> conn_t" where
  "conn_zero a =
     \<lparr>cn_fd = 0, cn_upstream_fd = 0, cn_state = CONN_READING_REQUEST, cn_arena = a, cn_rbuf = buf_zero,
      cn_wbuf = buf_zero, cn_upstream_rbuf = buf_zero, cn_upstream_wbuf = buf_zero, cn_peer = (0, 0),
      cn_last_active = 0, cn_file_fd = 0, cn_file_offset = 0, cn_file_remaining = 0, cn_keep_alive = False,
      cn_tls = False, cn_proxy_pool = None, cn_tls_conn = None, cn_request = None, cn_response = None,
      cn_cache_store = None, cn_cache_key = [], cn_cache_buf = None, cn_cache_len = 0, cn_cache_cap = 0,
      cn_proxy_status = 0, cn_next = None, cn_prev = None\<rparr>"

text \<open>
  What the allocations of \<^verbatim>\<open>conn_alloc\<close> return: the address of the connection, the two of its
  arena, and the four buffers.
\<close>

record conn_mallocs =
  cm_conn :: "nat option"
  cm_arena :: "bool \<times> usize option"
  cm_rbuf :: "string option"
  cm_wbuf :: "string option"
  cm_upstream_rbuf :: "string option"
  cm_upstream_wbuf :: "string option"

definition conn_alloc :: "conn_mallocs \<Rightarrow> (nat \<times> conn_t) option" where
  "conn_alloc m =
     (case cm_conn m of
        None \<Rightarrow> None
      | Some p \<Rightarrow>
          (case arena_create NP_ARENA_SIZE (fst (cm_arena m)) (snd (cm_arena m)) of
             None \<Rightarrow> None
           | Some a \<Rightarrow>
               (let (rb, s1) = buf_init buf_zero NP_READ_BUF_SIZE (cm_rbuf m);
                    (wb, s2) = buf_init buf_zero NP_WRITE_BUF_SIZE (cm_wbuf m);
                    (urb, s3) = buf_init buf_zero NP_READ_BUF_SIZE (cm_upstream_rbuf m);
                    (uwb, s4) = buf_init buf_zero NP_WRITE_BUF_SIZE (cm_upstream_wbuf m)
                in if s1 \<noteq> NP_OK \<or> s2 \<noteq> NP_OK \<or> s3 \<noteq> NP_OK \<or> s4 \<noteq> NP_OK then None
                   else Some (p, (conn_zero a)\<lparr>cn_rbuf := rb, cn_wbuf := wb, cn_upstream_rbuf := urb,
                     cn_upstream_wbuf := uwb\<rparr>))))"

text \<open>\<^verbatim>\<open>peer\<close> is \<open>None\<close> for \<^verbatim>\<open>NULL\<close>.\<close>

definition conn_reset :: "conn_t \<Rightarrow> int \<Rightarrow> (u32 \<times> u16) option \<Rightarrow> conn_t" where
  "conn_reset c fd peer =
     (let c = c\<lparr>cn_fd := fd, cn_upstream_fd := -1, cn_file_fd := -1, cn_file_offset := 0, cn_file_remaining := 0,
            cn_state := CONN_READING_REQUEST, cn_last_active := 0, cn_keep_alive := False, cn_tls := False,
            cn_tls_conn := None, cn_request := None, cn_response := None, cn_next := None, cn_prev := None\<rparr>;
          c = (case peer of None \<Rightarrow> c | Some p \<Rightarrow> c\<lparr>cn_peer := p\<rparr>)
      in conn_init_bufs (c\<lparr>cn_arena := arena_reset (cn_arena c)\<rparr>))"

definition conn_pool_create :: "int \<Rightarrow> bool \<Rightarrow> conn_pool_t option" where
  "conn_pool_create max_free m =
     (if \<not> m then None else Some \<lparr>cp_free_head = None, cp_free_count = 0, cp_max_free = max_free\<rparr>)"

text \<open>The loop of \<^verbatim>\<open>conn_pool_destroy\<close>: the heap after the connections of the free list are freed.\<close>

partial_function (option) pool_destroy_loop :: "cheap \<Rightarrow> nat option \<Rightarrow> cheap mem option" where
  "pool_destroy_loop h c =
     (case c of
        None \<Rightarrow> Some (Inr h)
      | Some p \<Rightarrow>
          (case h p of
             None \<Rightarrow> Some (Inl Out_of_bounds)
           | Some cn \<Rightarrow> pool_destroy_loop (h(p := None)) (cn_next cn)))"

definition conn_pool_destroy :: "conn_pool_t \<Rightarrow> cheap \<Rightarrow> cheap mem option" where
  "conn_pool_destroy pool h = pool_destroy_loop h (cp_free_head pool)"

definition conn_pool_get ::
  "conn_pool_t \<Rightarrow> cheap \<Rightarrow> int \<Rightarrow> (u32 \<times> u16) option \<Rightarrow> conn_mallocs \<Rightarrow> (conn_pool_t \<times> cheap \<times> nat option) mem" where
  "conn_pool_get pool h fd peer m =
     mbind
       (case cp_free_head pool of
          Some p \<Rightarrow>
            (case h p of
               None \<Rightarrow> Inl Out_of_bounds
             | Some c \<Rightarrow>
                 Inr (pool\<lparr>cp_free_head := cn_next c, cp_free_count := cp_free_count pool - 1\<rparr>, Some (p, c)))
        | None \<Rightarrow> Inr (pool, conn_alloc m))
       (\<lambda>(pool, r).
          case r of
            None \<Rightarrow> Inr (pool, h, None)
          | Some (p, c) \<Rightarrow> Inr (pool, h(p \<mapsto> conn_reset c fd peer), Some p))"

text \<open>
  The third component is the descriptors given to \<^verbatim>\<open>close\<close>; \<open>k1\<close> and \<open>k2\<close> say whether the
  removals from the epoll set succeed.
\<close>

definition conn_close ::
  "event_loop_t \<Rightarrow> conn_t \<Rightarrow> bool \<Rightarrow> bool \<Rightarrow> (event_loop_t \<times> conn_t \<times> int list) mem" where
  "conn_close loop c k1 k2 =
     mbind (if 0 \<le> cn_fd c
            then mbind (event_loop_del loop (cn_fd c) k1) (\<lambda>(loop, _). Inr (loop, c\<lparr>cn_fd := -1\<rparr>, [cn_fd c]))
            else Inr (loop, c, [])) (\<lambda>(loop, c, fds).
     mbind (if 0 \<le> cn_upstream_fd c
            then mbind (event_loop_del loop (cn_upstream_fd c) k2)
              (\<lambda>(loop, _). Inr (loop, c\<lparr>cn_upstream_fd := -1\<rparr>, fds @ [cn_upstream_fd c]))
            else Inr (loop, c, fds)) (\<lambda>(loop, c, fds).
       let (c, fds) = (if 0 \<le> cn_file_fd c then (c\<lparr>cn_file_fd := -1\<rparr>, fds @ [cn_file_fd c]) else (c, fds))
       in Inr (loop, c\<lparr>cn_state := CONN_CLOSING\<rparr>, fds)))"

definition conn_pool_put ::
  "conn_pool_t \<Rightarrow> cheap \<Rightarrow> event_loop_t \<Rightarrow> nat \<Rightarrow> bool \<Rightarrow> bool \<Rightarrow> (conn_pool_t \<times> cheap \<times> event_loop_t \<times> int list) mem" where
  "conn_pool_put pool h loop p k1 k2 =
     (case h p of
        None \<Rightarrow> Inl Out_of_bounds
      | Some c \<Rightarrow>
          mbind (conn_close loop c k1 k2) (\<lambda>(loop, c, fds).
            if cp_max_free pool \<le> cp_free_count pool then Inr (pool, h(p := None), loop, fds)
            else
              (let c = conn_init_bufs (c\<lparr>cn_arena := arena_reset (cn_arena c)\<rparr>)
               in Inr (pool\<lparr>cp_free_head := Some p, cp_free_count := cp_free_count pool + 1\<rparr>,
                    h(p \<mapsto> c\<lparr>cn_next := cp_free_head pool\<rparr>), loop, fds))))"

definition conn_create :: "int \<Rightarrow> (u32 \<times> u16) option \<Rightarrow> conn_mallocs \<Rightarrow> (nat \<times> conn_t) option" where
  "conn_create fd peer m =
     (case conn_alloc m of
        None \<Rightarrow> None
      | Some (p, c) \<Rightarrow> Some (p, conn_reset c fd peer))"

definition conn_set_upstream :: "conn_t \<Rightarrow> int \<Rightarrow> conn_t \<times> np_status_t" where
  "conn_set_upstream c upstream_fd = (c\<lparr>cn_upstream_fd := upstream_fd\<rparr>, NP_OK)"

definition conn_destroy ::
  "cheap \<Rightarrow> event_loop_t \<Rightarrow> nat \<Rightarrow> bool \<Rightarrow> bool \<Rightarrow> (cheap \<times> event_loop_t \<times> int list) mem" where
  "conn_destroy h loop p k1 k2 =
     (case h p of
        None \<Rightarrow> Inl Out_of_bounds
      | Some c \<Rightarrow> mbind (conn_close loop c k1 k2) (\<lambda>(loop, _, fds). Inr (h(p := None), loop, fds)))"

section \<open>Well-formed connections\<close>

text \<open>The four buffers are within their blocks and of the sizes asked for, and the arena has a block.\<close>

definition buf_sized :: "usize \<Rightarrow> np_buf_t \<Rightarrow> bool" where
  "buf_sized n b \<longleftrightarrow> buf_ok b \<and> b_cap b = n"

definition conn_ok :: "conn_t \<Rightarrow> bool" where
  "conn_ok c \<longleftrightarrow> buf_sized NP_READ_BUF_SIZE (cn_rbuf c) \<and> buf_sized NP_WRITE_BUF_SIZE (cn_wbuf c) \<and>
     buf_sized NP_READ_BUF_SIZE (cn_upstream_rbuf c) \<and> buf_sized NP_WRITE_BUF_SIZE (cn_upstream_wbuf c) \<and>
     a_blocks (cn_arena c) \<noteq> []"

text \<open>A connection as a new client must find it.\<close>

definition conn_fresh :: "int \<Rightarrow> u32 \<times> u16 \<Rightarrow> conn_t \<Rightarrow> bool" where
  "conn_fresh fd peer c \<longleftrightarrow> cn_fd c = fd \<and> cn_peer c = peer \<and> cn_state c = CONN_READING_REQUEST \<and>
     cn_upstream_fd c = -1 \<and> cn_file_fd c = -1 \<and> cn_request c = None \<and> cn_response c = None \<and>
     \<not> cn_keep_alive c \<and> \<not> cn_tls c \<and> cn_tls_conn c = None \<and>
     buf_contents (cn_rbuf c) = [] \<and> buf_contents (cn_wbuf c) = [] \<and>
     buf_contents (cn_upstream_rbuf c) = [] \<and> buf_contents (cn_upstream_wbuf c) = []"

text \<open>What \<^verbatim>\<open>malloc\<close> promises: a free address, and blocks of the sizes asked for.\<close>

definition mallocs_ok :: "cheap \<Rightarrow> conn_mallocs \<Rightarrow> bool" where
  "mallocs_ok h m \<longleftrightarrow> (\<forall>p. cm_conn m = Some p \<longrightarrow> h p = None) \<and>
     (\<forall>d. cm_rbuf m = Some d \<longrightarrow> length d = unat NP_READ_BUF_SIZE) \<and>
     (\<forall>d. cm_wbuf m = Some d \<longrightarrow> length d = unat NP_WRITE_BUF_SIZE) \<and>
     (\<forall>d. cm_upstream_rbuf m = Some d \<longrightarrow> length d = unat NP_READ_BUF_SIZE) \<and>
     (\<forall>d. cm_upstream_wbuf m = Some d \<longrightarrow> length d = unat NP_WRITE_BUF_SIZE)"

lemma conn_ok_wbuf:
  "conn_ok c \<Longrightarrow> buf_ok b \<Longrightarrow> b_cap b = b_cap (cn_wbuf c) \<Longrightarrow> conn_ok (c\<lparr>cn_wbuf := b, cn_state := st\<rparr>)"
  by (simp add: conn_ok_def buf_sized_def)

lemma conn_ok_bufs:
  "conn_ok c \<Longrightarrow> buf_ok (cn_rbuf c) \<and> buf_ok (cn_wbuf c) \<and> buf_ok (cn_upstream_rbuf c) \<and> buf_ok (cn_upstream_wbuf c)"
  by (simp add: conn_ok_def buf_sized_def)

lemma buf_sized_reset: "buf_sized n b \<Longrightarrow> buf_sized n (buf_reset b)"
  by (simp add: buf_sized_def np_invar)

lemma buf_sized_init:
  "buf_init b n m = (b', NP_OK) \<Longrightarrow> (\<And>d. m = Some d \<Longrightarrow> length d = unat n) \<Longrightarrow> buf_sized n b'"
  by (auto simp: buf_init_def buf_sized_def buf_ok_def split: option.splits)

lemma arena_reset_blocks: "a_blocks a \<noteq> [] \<Longrightarrow> a_blocks (arena_reset a) \<noteq> []"
  by (simp add: arena_reset_def reset_loop_last)

lemma conn_init_bufs_ok: "conn_ok c \<Longrightarrow> conn_ok (conn_init_bufs (c\<lparr>cn_arena := arena_reset (cn_arena c)\<rparr>))"
  by (simp add: conn_ok_def conn_init_bufs_def buf_sized_reset arena_reset_blocks)

lemma conn_reset_ok: "conn_ok c \<Longrightarrow> conn_ok (conn_reset c fd peer)"
  by (cases peer) (simp_all add: conn_reset_def Let_def conn_ok_def conn_init_bufs_def buf_sized_reset arena_reset_blocks)

lemma conn_reset_fresh: "conn_fresh fd peer (conn_reset c fd (Some peer))"
  by (simp add: conn_reset_def Let_def conn_fresh_def conn_init_bufs_def)

lemma conn_alloc_ok:
  assumes "conn_alloc m = Some (p, c)" "mallocs_ok h m"
  shows "h p = None" "conn_ok c"
proof -
  from assms(1) obtain a rb wb urb uwb where
    a: "cm_conn m = Some p" "arena_create NP_ARENA_SIZE (fst (cm_arena m)) (snd (cm_arena m)) = Some a"
    and b: "buf_init buf_zero NP_READ_BUF_SIZE (cm_rbuf m) = (rb, NP_OK)"
      "buf_init buf_zero NP_WRITE_BUF_SIZE (cm_wbuf m) = (wb, NP_OK)"
      "buf_init buf_zero NP_READ_BUF_SIZE (cm_upstream_rbuf m) = (urb, NP_OK)"
      "buf_init buf_zero NP_WRITE_BUF_SIZE (cm_upstream_wbuf m) = (uwb, NP_OK)"
    and c: "c = (conn_zero a)\<lparr>cn_rbuf := rb, cn_wbuf := wb, cn_upstream_rbuf := urb, cn_upstream_wbuf := uwb\<rparr>"
    by (auto simp: conn_alloc_def split: option.splits prod.splits if_splits)
  show "h p = None" using a(1) assms(2) by (simp add: mallocs_ok_def)
  have "a_blocks a \<noteq> []"
    using a(2) by (auto simp: arena_create_def split: if_splits option.splits)
  moreover have "buf_sized NP_READ_BUF_SIZE rb" "buf_sized NP_WRITE_BUF_SIZE wb"
    "buf_sized NP_READ_BUF_SIZE urb" "buf_sized NP_WRITE_BUF_SIZE uwb"
    using b [THEN buf_sized_init] assms(2) unfolding mallocs_ok_def by blast+
  ultimately show "conn_ok c" by (simp add: c conn_ok_def conn_zero_def)
qed

text \<open>Removing and closing a descriptor that may be closed already.\<close>

lemma del_if_open:
  assumes ok: "loop_ok loop"
  obtains loop' where "loop_ok loop'" "registered loop' = (registered loop)(fd := None)"
    "0 \<le> fd \<Longrightarrow> \<exists>st. event_loop_del loop fd True = Inr (loop', st)" "\<not> 0 \<le> fd \<Longrightarrow> loop' = loop"
proof (cases "0 \<le> fd")
  case True
  from evl.del_ok [OF ok True] show ?thesis using that True by auto
next
  case False
  then have "registered loop fd = None" using registered_range [OF ok, of fd] by blast
  then show ?thesis using that [of loop] ok False by (simp add: fun_upd_idem)
qed

lemma conn_close_ok:
  assumes "loop_ok loop"
  shows "\<exists>loop' c'. conn_close loop c True True =
      Inr (loop', c', filter (\<lambda>fd. 0 \<le> fd) [cn_fd c, cn_upstream_fd c, cn_file_fd c]) \<and>
    loop_ok loop' \<and> registered loop' = registered loop |` (- {cn_fd c, cn_upstream_fd c}) \<and>
    cn_fd c' < 0 \<and> cn_upstream_fd c' < 0 \<and> cn_file_fd c' < 0 \<and> cn_state c' = CONN_CLOSING \<and>
    (conn_ok c \<longrightarrow> conn_ok c')"
proof -
  obtain l1 where l1: "loop_ok l1" "registered l1 = (registered loop)(cn_fd c := None)"
    "0 \<le> cn_fd c \<Longrightarrow> \<exists>st. event_loop_del loop (cn_fd c) True = Inr (l1, st)" "\<not> 0 \<le> cn_fd c \<Longrightarrow> l1 = loop"
    by (rule del_if_open [OF assms, of "cn_fd c"]) (rule that)
  obtain l2 where l2: "loop_ok l2" "registered l2 = (registered l1)(cn_upstream_fd c := None)"
    "0 \<le> cn_upstream_fd c \<Longrightarrow> \<exists>st. event_loop_del l1 (cn_upstream_fd c) True = Inr (l2, st)"
    "\<not> 0 \<le> cn_upstream_fd c \<Longrightarrow> l2 = l1"
    by (rule del_if_open [OF l1(1), of "cn_upstream_fd c"]) (rule that)
  let ?c1 = "if 0 \<le> cn_fd c then c\<lparr>cn_fd := -1\<rparr> else c"
  let ?c2 = "if 0 \<le> cn_upstream_fd c then ?c1\<lparr>cn_upstream_fd := -1\<rparr> else ?c1"
  let ?c3 = "(if 0 \<le> cn_file_fd c then ?c2\<lparr>cn_file_fd := -1\<rparr> else ?c2)\<lparr>cn_state := CONN_CLOSING\<rparr>"
  have 1: "(if 0 \<le> cn_fd c
      then mbind (event_loop_del loop (cn_fd c) True) (\<lambda>(loop, _). Inr (loop, c\<lparr>cn_fd := -1\<rparr>, [cn_fd c]))
      else Inr (loop, c, [])) = Inr (l1, ?c1, filter (\<lambda>fd. 0 \<le> fd) [cn_fd c])"
    using l1(3,4) by auto
  have 2: "(if 0 \<le> cn_upstream_fd ?c1
      then mbind (event_loop_del l1 (cn_upstream_fd ?c1) True)
        (\<lambda>(loop, _). Inr (loop, ?c1\<lparr>cn_upstream_fd := -1\<rparr>, fds @ [cn_upstream_fd ?c1]))
      else Inr (l1, ?c1, fds)) = Inr (l2, ?c2, fds @ filter (\<lambda>fd. 0 \<le> fd) [cn_upstream_fd c])" for fds
    using l2(3,4) by auto
  have "conn_close loop c True True = Inr (l2, ?c3, filter (\<lambda>fd. 0 \<le> fd) [cn_fd c, cn_upstream_fd c, cn_file_fd c])"
    unfolding conn_close_def 1 mbind_simps prod.case 2 by (auto simp: Let_def)
  moreover have "registered l2 = registered loop |` (- {cn_fd c, cn_upstream_fd c})"
    by (simp add: l1(2) l2(2) restrict_map_def fun_eq_iff)
  moreover have "conn_ok c \<longrightarrow> conn_ok ?c3" by (simp add: conn_ok_def)
  ultimately show ?thesis using l2(1) by (intro exI [of _ l2] exI [of _ ?c3]) auto
qed

section \<open>The free list\<close>

fun conn_chain :: "cheap \<Rightarrow> nat option \<Rightarrow> nat list \<Rightarrow> bool" where
  "conn_chain h p [] \<longleftrightarrow> p = None"
| "conn_chain h p (q # qs) \<longleftrightarrow> p = Some q \<and> (\<exists>c. h q = Some c \<and> conn_chain h (cn_next c) qs)"

definition pool_rel :: "conn_pool_t \<Rightarrow> cheap \<Rightarrow> nat list \<Rightarrow> bool" where
  "pool_rel pool h fs \<longleftrightarrow> conn_chain h (cp_free_head pool) fs \<and> distinct fs \<and> cp_free_count pool = int (length fs)"

lemma conn_chain_frame [simp]: "q \<notin> set qs \<Longrightarrow> conn_chain (h(q := x)) p qs = conn_chain h p qs"
  by (induction qs arbitrary: p) auto

lemma conn_chain_dom: "conn_chain h p qs \<Longrightarrow> set qs \<subseteq> dom h"
  by (induction qs arbitrary: p) auto

lemma pool_destroy_chain:
  "conn_chain h p qs \<Longrightarrow> distinct qs \<Longrightarrow> pool_destroy_loop h p = Some (Inr (h |` (- set qs)))"
proof (induction qs arbitrary: h p)
  case Nil
  then show ?case by (simp add: pool_destroy_loop.simps)
next
  case (Cons q qs)
  then obtain c where c: "p = Some q" "h q = Some c" "conn_chain h (cn_next c) qs" by auto
  define h1 where "h1 = h(q := None)"
  have "conn_chain h1 (cn_next c) qs" unfolding h1_def using c(3) Cons.prems(2) by simp
  then have "pool_destroy_loop h1 (cn_next c) = Some (Inr (h1 |` (- set qs)))"
    using Cons.prems(2) by (intro Cons.IH) simp_all
  moreover have "h1 |` (- set qs) = h |` (- set (q # qs))" by (auto simp: h1_def restrict_map_def)
  ultimately show ?case using c by (simp add: pool_destroy_loop.simps [of h] h1_def)
qed

lemma conn_pool_get_free:
  assumes "pool_rel pool h (p # fs)"
  shows "\<exists>pool' c. h p = Some c \<and>
    conn_pool_get pool h fd peer m = Inr (pool', h(p \<mapsto> conn_reset c fd peer), Some p) \<and>
    pool_rel pool' (h(p \<mapsto> conn_reset c fd peer)) fs \<and> cp_max_free pool' = cp_max_free pool"
  using assms by (auto simp: pool_rel_def conn_pool_get_def)

lemma conn_pool_get_empty:
  assumes "pool_rel pool h []"
  shows "conn_pool_get pool h fd peer m =
    (case conn_alloc m of None \<Rightarrow> Inr (pool, h, None) | Some (p, c) \<Rightarrow> Inr (pool, h(p \<mapsto> conn_reset c fd peer), Some p))"
  using assms by (auto simp: pool_rel_def conn_pool_get_def split: option.splits)

lemma conn_pool_put_rel:
  assumes "pool_rel pool h fs" "p \<notin> set fs" "h p = Some c" "loop_ok loop"
  shows "\<exists>pool' loop' c'. conn_pool_put pool h loop p True True =
      Inr (pool', h(p := if cp_max_free pool \<le> int (length fs) then None else Some c'), loop',
        filter (\<lambda>fd. 0 \<le> fd) [cn_fd c, cn_upstream_fd c, cn_file_fd c]) \<and>
    loop_ok loop' \<and> registered loop' = registered loop |` (- {cn_fd c, cn_upstream_fd c}) \<and>
    cp_max_free pool' = cp_max_free pool \<and> (conn_ok c \<longrightarrow> conn_ok c') \<and>
    pool_rel pool' (h(p := if cp_max_free pool \<le> int (length fs) then None else Some c'))
      (if cp_max_free pool \<le> int (length fs) then fs else p # fs)"
proof -
  from conn_close_ok [OF assms(4), of c] obtain loop' c1 where
    cl: "conn_close loop c True True =
        Inr (loop', c1, filter (\<lambda>fd. 0 \<le> fd) [cn_fd c, cn_upstream_fd c, cn_file_fd c])"
      "loop_ok loop'" "registered loop' = registered loop |` (- {cn_fd c, cn_upstream_fd c})"
      "conn_ok c \<longrightarrow> conn_ok c1" by blast
  let ?c2 = "(conn_init_bufs (c1\<lparr>cn_arena := arena_reset (cn_arena c1)\<rparr>))\<lparr>cn_next := cp_free_head pool\<rparr>"
  let ?full = "cp_max_free pool \<le> int (length fs)"
  let ?pool = "if ?full then pool else pool\<lparr>cp_free_head := Some p, cp_free_count := cp_free_count pool + 1\<rparr>"
  have fc: "cp_free_count pool = int (length fs)" using assms(1) by (simp add: pool_rel_def)
  have "conn_pool_put pool h loop p True True =
      Inr (?pool, h(p := if ?full then None else Some ?c2), loop',
        filter (\<lambda>fd. 0 \<le> fd) [cn_fd c, cn_upstream_fd c, cn_file_fd c])"
    by (simp add: conn_pool_put_def assms(3) cl(1) fc Let_def)
  moreover have "conn_ok c \<longrightarrow> conn_ok ?c2"
    using cl(4) conn_init_bufs_ok [of c1] by (simp add: conn_ok_def)
  moreover have "pool_rel ?pool (h(p := if ?full then None else Some ?c2)) (if ?full then fs else p # fs)"
    using assms(1,2) by (simp add: pool_rel_def)
  ultimately show ?thesis using cl(2,3)
    by (intro exI [of _ ?pool] exI [of _ loop'] exI [of _ ?c2]) simp
qed

section \<open>Every use of the pool\<close>

text \<open>
  A pool, the connections in memory, the event loop and the set of addresses handed out. Between
  the operations the owner of a connection may change it in any way that keeps it well formed,
  and the loop in any way that keeps it consistent; it puts back what it got.
\<close>

inductive pool_run :: "conn_pool_t \<Rightarrow> cheap \<Rightarrow> event_loop_t \<Rightarrow> nat set \<Rightarrow> bool" where
  create: "conn_pool_create n True = Some pool \<Longrightarrow> 0 \<le> n \<Longrightarrow> loop_ok loop \<Longrightarrow> pool_run pool Map.empty loop {}"
| get: "pool_run pool h loop out \<Longrightarrow> mallocs_ok h m \<Longrightarrow>
    conn_pool_get pool h fd (Some peer) m = Inr (pool', h', r) \<Longrightarrow>
    pool_run pool' h' loop (case r of None \<Rightarrow> out | Some p \<Rightarrow> insert p out)"
| work: "pool_run pool h loop out \<Longrightarrow> p \<in> out \<Longrightarrow> conn_ok c \<Longrightarrow> loop_ok loop' \<Longrightarrow>
    pool_run pool (h(p \<mapsto> c)) loop' out"
| put: "pool_run pool h loop out \<Longrightarrow> p \<in> out \<Longrightarrow>
    conn_pool_put pool h loop p True True = Inr (pool', h', loop', fds) \<Longrightarrow>
    pool_run pool' h' loop' (out - {p})"

definition pool_inv :: "conn_pool_t \<Rightarrow> cheap \<Rightarrow> event_loop_t \<Rightarrow> nat set \<Rightarrow> nat list \<Rightarrow> bool" where
  "pool_inv pool h loop out fs \<longleftrightarrow> pool_rel pool h fs \<and> out \<inter> set fs = {} \<and> dom h = out \<union> set fs \<and>
     (\<forall>c \<in> ran h. conn_ok c) \<and> loop_ok loop \<and> int (length fs) \<le> cp_max_free pool"

lemma ran_upd_ok: "\<forall>c \<in> ran h. P c \<Longrightarrow> P c' \<Longrightarrow> \<forall>c \<in> ran (h(p \<mapsto> c')). P c"
  by (auto simp: ran_def split: if_splits)

lemma ran_del_ok: "\<forall>c \<in> ran h. P c \<Longrightarrow> \<forall>c \<in> ran (h(p := None)). P c"
  by (auto simp: ran_def split: if_splits)

lemma pool_inv_get:
  assumes inv: "pool_inv pool h loop out fs" and m: "mallocs_ok h m"
  shows "\<exists>pool' h' r fs'. conn_pool_get pool h fd (Some peer) m = Inr (pool', h', r) \<and>
    pool_inv pool' h' loop (case r of None \<Rightarrow> out | Some p \<Rightarrow> insert p out) fs' \<and>
    (\<forall>p. r = Some p \<longrightarrow> p \<notin> out \<and> (\<exists>c. h' p = Some c \<and> conn_fresh fd peer c)) \<and>
    (\<forall>q \<in> out. h' q = h q)"
proof (cases fs)
  case Nil
  with inv have rel: "pool_rel pool h []" by (simp add: pool_inv_def)
  show ?thesis
  proof (cases "conn_alloc m")
    case None
    then show ?thesis using conn_pool_get_empty [OF rel, of fd "Some peer" m] inv by auto
  next
    case (Some pc)
    then obtain p c where pc: "conn_alloc m = Some (p, c)" by (cases pc) simp
    note a = conn_alloc_ok [OF pc m]
    let ?h = "h(p \<mapsto> conn_reset c fd (Some peer))"
    have "p \<notin> dom h" using a(1) by auto
    then have p: "p \<notin> out" "p \<notin> set fs" using inv by (auto simp: pool_inv_def)
    have "pool_inv pool ?h loop (insert p out) []"
      using inv p Nil ran_upd_ok [of h conn_ok, OF _ conn_reset_ok [OF a(2)]]
      by (simp add: pool_inv_def pool_rel_def)
    then show ?thesis
      using conn_pool_get_empty [OF rel, of fd "Some peer" m] pc p(1) conn_reset_fresh by auto
  qed
next
  case (Cons p fs')
  with inv have rel: "pool_rel pool h (p # fs')" by (simp add: pool_inv_def)
  from conn_pool_get_free [OF rel, of fd "Some peer" m] obtain pool' c where
    g: "h p = Some c" "conn_pool_get pool h fd (Some peer) m = Inr (pool', h(p \<mapsto> conn_reset c fd (Some peer)), Some p)"
      "pool_rel pool' (h(p \<mapsto> conn_reset c fd (Some peer))) fs'" "cp_max_free pool' = cp_max_free pool" by blast
  have p: "p \<notin> out" "p \<notin> set fs'" using inv Cons by (auto simp: pool_inv_def pool_rel_def)
  have "conn_ok c" using inv g(1) by (auto simp: pool_inv_def ran_def)
  then have "pool_inv pool' (h(p \<mapsto> conn_reset c fd (Some peer))) loop (insert p out) fs'"
    using inv p Cons g(3,4) ran_upd_ok [of h conn_ok, OF _ conn_reset_ok]
    by (auto simp: pool_inv_def)
  then show ?thesis using g(2) p(1) conn_reset_fresh by auto
qed

lemma pool_inv_put:
  assumes inv: "pool_inv pool h loop out fs" and p: "p \<in> out"
  shows "\<exists>c pool' h' loop' fs'. h p = Some c \<and>
    conn_pool_put pool h loop p True True = Inr (pool', h', loop', filter (\<lambda>fd. 0 \<le> fd) [cn_fd c, cn_upstream_fd c, cn_file_fd c]) \<and>
    pool_inv pool' h' loop' (out - {p}) fs' \<and> registered loop' = registered loop |` (- {cn_fd c, cn_upstream_fd c})"
proof -
  have rel: "pool_rel pool h fs" "p \<notin> set fs" "loop_ok loop" using inv p by (auto simp: pool_inv_def)
  obtain c where c: "h p = Some c" "conn_ok c" using inv p by (fastforce simp: pool_inv_def ran_def)
  let ?full = "cp_max_free pool \<le> int (length fs)"
  from conn_pool_put_rel [OF rel(1,2) c(1) rel(3)] obtain pool' loop' c' where
    g: "conn_pool_put pool h loop p True True = Inr (pool', h(p := if ?full then None else Some c'), loop',
        filter (\<lambda>fd. 0 \<le> fd) [cn_fd c, cn_upstream_fd c, cn_file_fd c])"
      "loop_ok loop'" "registered loop' = registered loop |` (- {cn_fd c, cn_upstream_fd c})"
      "cp_max_free pool' = cp_max_free pool" "conn_ok c \<longrightarrow> conn_ok c'"
      "pool_rel pool' (h(p := if ?full then None else Some c')) (if ?full then fs else p # fs)" by blast
  have okr: "\<forall>c \<in> ran h. conn_ok c" using inv by (simp add: pool_inv_def)
  have "pool_inv pool' (h(p := if ?full then None else Some c')) loop' (out - {p}) (if ?full then fs else p # fs)"
  proof (cases ?full)
    case True
    then show ?thesis using inv p g(2,4,6) ran_del_ok [OF okr, of p] by (auto simp: pool_inv_def)
  next
    case False
    then show ?thesis using inv p g(2,4,6) ran_upd_ok [OF okr, of c' p] g(5) c(2) by (auto simp: pool_inv_def)
  qed
  with g(1,3) c(1) show ?thesis by blast
qed

lemma pool_run_inv: "pool_run pool h loop out \<Longrightarrow> \<exists>fs. pool_inv pool h loop out fs"
proof (induction rule: pool_run.induct)
  case (create n pool loop)
  then show ?case by (intro exI [of _ "[]"]) (auto simp: pool_inv_def pool_rel_def conn_pool_create_def)
next
  case (get pool h loop out m fd peer pool' h' r)
  then obtain fs where "pool_inv pool h loop out fs" by blast
  from pool_inv_get [OF this get.hyps(2), of fd peer] get.hyps(3) show ?case by auto
next
  case (work pool h loop out p c loop')
  then obtain fs where inv: "pool_inv pool h loop out fs" by blast
  then have "p \<notin> set fs" "p \<in> dom h" using work.hyps(2) by (auto simp: pool_inv_def)
  then have "pool_inv pool (h(p \<mapsto> c)) loop' out fs"
    using inv work.hyps ran_upd_ok [of h conn_ok c p] by (auto simp: pool_inv_def pool_rel_def)
  then show ?case ..
next
  case (put pool h loop out p pool' h' loop' fds)
  then obtain fs where "pool_inv pool h loop out fs" by blast
  from pool_inv_put [OF this put.hyps(2)] put.hyps(3) show ?case by auto
qed


definition demo_pool :: conn_pool_t where
  "demo_pool = \<lparr>cp_free_head = None, cp_free_count = 0, cp_max_free = 4096\<rparr>"

definition demo_mallocs :: "nat \<Rightarrow> conn_mallocs" where
  "demo_mallocs p = \<lparr>cm_conn = Some p, cm_arena = (True, Some 1024), cm_rbuf = Some (replicate 65536 (CHR ''x'')),
     cm_wbuf = Some (replicate 131072 (CHR ''x'')), cm_upstream_rbuf = Some (replicate 65536 (CHR ''x'')),
     cm_upstream_wbuf = Some (replicate 131072 (CHR ''x''))\<rparr>"

lemma demo_pool_run: "pool_run demo_pool Map.empty demo_loop {}"
  by (rule pool_run.create [of 4096]) (simp_all add: conn_pool_create_def demo_pool_def demo_loop_ok)

lemma demo_mallocs_ok: "h p = None \<Longrightarrow> mallocs_ok h (demo_mallocs p)"
  by (simp add: mallocs_ok_def demo_mallocs_def)

lemma conn_alloc_demo: "\<exists>c. conn_alloc (demo_mallocs p) = Some (p, c)"
  by (simp add: conn_alloc_def demo_mallocs_def arena_create_def block_create_def buf_init_def)


text \<open>
  Putting back a connection in use closes each of its open descriptors exactly once (client,
  upstream, file, in this order) and removes the first two from the event loop, leaving every
  other registration; afterwards destroying the pool ends, and frees exactly the connections
  that are not in use.
\<close>

theorem conn_pool_put_closes:
  assumes "pool_run pool h loop out" "p \<in> out"
  shows "\<exists>c pool' h' loop'. h p = Some c \<and>
    conn_pool_put pool h loop p True True =
      Inr (pool', h', loop', filter (\<lambda>fd. 0 \<le> fd) [cn_fd c, cn_upstream_fd c, cn_file_fd c]) \<and>
    registered loop' = registered loop |` (- {cn_fd c, cn_upstream_fd c}) \<and>
    conn_pool_destroy pool' h' = Some (Inr (h' |` (out - {p})))"
proof -
  from pool_run_inv [OF assms(1)] obtain fs where "pool_inv pool h loop out fs" ..
  from pool_inv_put [OF this assms(2)] obtain c pool' h' loop' fs' where
    g: "h p = Some c" "conn_pool_put pool h loop p True True =
        Inr (pool', h', loop', filter (\<lambda>fd. 0 \<le> fd) [cn_fd c, cn_upstream_fd c, cn_file_fd c])"
      "pool_inv pool' h' loop' (out - {p}) fs'" "registered loop' = registered loop |` (- {cn_fd c, cn_upstream_fd c})"
    by blast
  have "conn_pool_destroy pool' h' = Some (Inr (h' |` (- set fs')))"
    unfolding conn_pool_destroy_def using g(3) by (intro pool_destroy_chain) (auto simp: pool_inv_def pool_rel_def)
  moreover have "h' |` (- set fs') = h' |` (out - {p})"
  proof
    fix q
    have "q \<in> dom h' \<longleftrightarrow> q \<in> out - {p} \<or> q \<in> set fs'" "(out - {p}) \<inter> set fs' = {}" using g(3) by (auto simp: pool_inv_def)
    then show "(h' |` (- set fs')) q = (h' |` (out - {p})) q" by (cases "h' q") (auto simp: restrict_map_def)
  qed
  ultimately show ?thesis using g by auto
qed

lemma demo_pool_in_use: "\<exists>h. pool_run demo_pool h demo_loop {0}"
proof -
  from conn_alloc_demo [of 0] obtain c where "conn_alloc (demo_mallocs 0) = Some (0, c)" ..
  then have "conn_pool_get demo_pool Map.empty 5 (Some (1, 2)) (demo_mallocs 0) =
      Inr (demo_pool, [0 \<mapsto> conn_reset c 5 (Some (1, 2))], Some 0)"
    by (simp add: conn_pool_get_def demo_pool_def)
  from pool_run.get [OF demo_pool_run demo_mallocs_ok [where p = 0, OF refl] this] show ?thesis by auto
qed

theorem conn_pool_put_closes_witness:
  "\<exists>pool h c pool' h' loop'. h 0 = Some c \<and>
    conn_pool_put pool h demo_loop 0 True True =
      Inr (pool', h', loop', filter (\<lambda>fd. 0 \<le> fd) [cn_fd c, cn_upstream_fd c, cn_file_fd c]) \<and>
    conn_pool_destroy pool' h' = Some (Inr (h' |` ({0} - {0})))"
proof -
  from demo_pool_in_use obtain h where "pool_run demo_pool h demo_loop {0}" by blast
  from conn_pool_put_closes [OF this, of 0] show ?thesis by blast
qed

text \<open>
  Putting the same connection back twice corrupts the free list: while the pool is not full,
  the next two clients are given the same connection, and the second one overwrites the
  descriptor of the first.
\<close>

theorem conn_double_put:
  assumes "pool_run pool h loop out" "p \<in> out" "cp_free_count pool + 2 \<le> cp_max_free pool"
  shows "\<exists>pool1 h1 loop1 fds1 pool2 h2 loop2 pool3 h3 pool4 h4 c.
    conn_pool_put pool h loop p True True = Inr (pool1, h1, loop1, fds1) \<and>
    conn_pool_put pool1 h1 loop1 p True True = Inr (pool2, h2, loop2, []) \<and>
    conn_pool_get pool2 h2 fd (Some peer) m = Inr (pool3, h3, Some p) \<and>
    conn_pool_get pool3 h3 fd' (Some peer') m' = Inr (pool4, h4, Some p) \<and>
    h4 p = Some c \<and> cn_fd c = fd'"
proof -
  from pool_run_inv [OF assms(1)] obtain fs where inv: "pool_inv pool h loop out fs" ..
  then obtain c where c: "h p = Some c" and l: "loop_ok loop" and fc: "cp_free_count pool < cp_max_free pool"
    using assms(2,3) by (fastforce simp: pool_inv_def)
  from conn_close_ok [OF l, of c] obtain loop1 c1 fds where
    cl: "conn_close loop c True True = Inr (loop1, c1, fds)" "loop_ok loop1"
      "cn_fd c1 < 0" "cn_upstream_fd c1 < 0" "cn_file_fd c1 < 0" by blast
  define d1 where "d1 = (conn_init_bufs (c1\<lparr>cn_arena := arena_reset (cn_arena c1)\<rparr>))\<lparr>cn_next := cp_free_head pool\<rparr>"
  define pool1 where "pool1 = pool\<lparr>cp_free_head := Some p, cp_free_count := cp_free_count pool + 1\<rparr>"
  have put1: "conn_pool_put pool h loop p True True = Inr (pool1, h(p \<mapsto> d1), loop1, fds)"
    using fc by (simp add: conn_pool_put_def c cl(1) Let_def d1_def pool1_def)
  have closed: "\<not> 0 \<le> cn_fd d1" "\<not> 0 \<le> cn_upstream_fd d1" "\<not> 0 \<le> cn_file_fd d1"
    using cl(3-5) by (simp_all add: d1_def conn_init_bufs_def)
  have "conn_close loop1 d1 True True = Inr (loop1, d1\<lparr>cn_state := CONN_CLOSING\<rparr>, [])"
    using closed by (simp add: conn_close_def)
  then obtain d2 where put2: "conn_pool_put pool1 (h(p \<mapsto> d1)) loop1 p True True =
      Inr (pool1\<lparr>cp_free_count := cp_free_count pool + 2\<rparr>, h(p \<mapsto> d2), loop1, [])" "cn_next d2 = Some p"
    using assms(3) by (simp add: conn_pool_put_def Let_def pool1_def)
  let ?pool2 = "pool1\<lparr>cp_free_count := cp_free_count pool + 2\<rparr>"
  let ?r = "conn_reset d2 fd (Some peer)"
  have get1: "conn_pool_get ?pool2 (h(p \<mapsto> d2)) fd (Some peer) m =
      Inr (?pool2\<lparr>cp_free_head := Some p, cp_free_count := cp_free_count pool + 1\<rparr>, h(p \<mapsto> ?r), Some p)"
    using put2(2) by (simp add: conn_pool_get_def pool1_def)
  have "\<exists>pool4. conn_pool_get (?pool2\<lparr>cp_free_head := Some p, cp_free_count := cp_free_count pool + 1\<rparr>) (h(p \<mapsto> ?r))
      fd' (Some peer') m' = Inr (pool4, h(p \<mapsto> conn_reset ?r fd' (Some peer')), Some p)"
    by (simp add: conn_pool_get_def)
  moreover have "cn_fd (conn_reset ?r fd' (Some peer')) = fd'"
    using conn_reset_fresh [of fd' peer' ?r] by (simp add: conn_fresh_def)
  ultimately show ?thesis using put1 put2(1) get1 by fastforce
qed

theorem conn_double_put_witness:
  "\<exists>h pool1 h1 loop1 fds1 pool2 h2 loop2 pool3 h3 pool4 h4 c.
    conn_pool_put demo_pool h demo_loop 0 True True = Inr (pool1, h1, loop1, fds1) \<and>
    conn_pool_put pool1 h1 loop1 0 True True = Inr (pool2, h2, loop2, []) \<and>
    conn_pool_get pool2 h2 8 (Some (3, 4)) (demo_mallocs 1) = Inr (pool3, h3, Some 0) \<and>
    conn_pool_get pool3 h3 9 (Some (5, 6)) (demo_mallocs 2) = Inr (pool4, h4, Some 0) \<and>
    h4 0 = Some c \<and> cn_fd c = 9"
proof -
  from demo_pool_in_use obtain h where h: "pool_run demo_pool h demo_loop {0}" by blast
  have "cp_free_count demo_pool + 2 \<le> cp_max_free demo_pool" by (simp add: demo_pool_def)
  from conn_double_put [OF h _ this, of 0 8 "(3, 4)" "demo_mallocs 1" 9 "(5, 6)" "demo_mallocs 2"] show ?thesis by blast
qed

end
