(* ===== verification/Config.thy ===== *)
theory Config
  imports String_Util
begin

text \<open>
  The configuration of \<^verbatim>\<open>src/src/core/config.c\<close>: the records, the defaults, the line by line
  reader and \<^verbatim>\<open>config_destroy\<close>. A file is its contents, read through \<^verbatim>\<open>fgets\<close> with an array
  of 512 bytes; an array with a count is a list; a character array is the C string in it.
  The list of servers holds the slots in use. Whether \<^verbatim>\<open>regcomp\<close> accepts a pattern is a
  parameter of the reader.

  The lemmas show that no file overflows an array of the configuration, that a file of
  sections and settings is read as those settings in their order, and which configurations
  \<^verbatim>\<open>config_destroy\<close> can free.
\<close>

section \<open>Model\<close>

abbreviation CONFIG_MAX_BACKENDS :: nat where "CONFIG_MAX_BACKENDS \<equiv> 64"
abbreviation CONFIG_MAX_STR :: nat where "CONFIG_MAX_STR \<equiv> 512"
abbreviation CONFIG_MAX_MODULES :: nat where "CONFIG_MAX_MODULES \<equiv> 16"
abbreviation CONFIG_MAX_REWRITES :: nat where "CONFIG_MAX_REWRITES \<equiv> 32"
abbreviation CONFIG_MAX_TRY_FILES :: nat where "CONFIG_MAX_TRY_FILES \<equiv> 8"
abbreviation CONFIG_MAX_SERVERS :: nat where "CONFIG_MAX_SERVERS \<equiv> 16"

abbreviation LOG_ERROR :: int where "LOG_ERROR \<equiv> 0"
abbreviation LOG_WARN :: int where "LOG_WARN \<equiv> 1"
abbreviation LOG_INFO :: int where "LOG_INFO \<equiv> 2"
abbreviation LOG_DEBUG :: int where "LOG_DEBUG \<equiv> 3"

datatype balance_mode_t = BALANCE_ROUND_ROBIN | BALANCE_LEAST_CONN

record backend_entry_t =
  be_host :: string
  be_port :: u16
  be_enabled :: bool

record rewrite_rule_t =
  rw_pattern :: string
  rw_replacement :: string

record tls_config =
  tls_enabled :: bool
  tls_listen_port :: u16
  tls_cert_file :: string
  tls_key_file :: string

record proxy_config =
  px_enabled :: bool
  px_mode :: balance_mode_t
  px_connect_timeout :: int
  px_upstream_timeout :: int
  px_keepalive_conns :: int
  px_backends :: "backend_entry_t list"

record cache_config =
  cc_enabled :: bool
  cc_root :: string
  cc_default_ttl :: int
  cc_max_entries :: int

record gzip_config =
  gz_enabled :: bool
  gz_min_length :: int

record np_server_config_t =
  srv_listen_port :: u16
  srv_server_name :: string
  srv_static_root :: string
  srv_modules :: "string list"
  srv_rewrite :: "rewrite_rule_t list"
  srv_try_files :: "string list"
  srv_tls :: tls_config
  srv_proxy :: proxy_config
  srv_cache :: cache_config
  srv_gzip :: gzip_config

record np_config_t =
  c_listen_addr :: string
  c_worker_processes :: int
  c_backlog :: int
  c_max_connections :: int
  c_keepalive_timeout :: int
  c_read_timeout :: int
  c_write_timeout :: int
  c_servers :: "np_server_config_t list"
  c_rl_enabled :: bool
  c_rl_requests_per_second :: int
  c_rl_burst :: int
  c_log_level :: int
  c_access_log :: string
  c_error_log :: string
  c_metrics_enabled :: bool
  c_metrics_path :: string
  c_daemon :: bool
  c_pid_file :: string
  c_shutdown_timeout :: int

text \<open>A server slot after \<^verbatim>\<open>memset\<close>.\<close>

definition server_zero :: np_server_config_t where
  "server_zero =
     \<lparr>srv_listen_port = 0, srv_server_name = [], srv_static_root = [], srv_modules = [],
      srv_rewrite = [], srv_try_files = [],
      srv_tls = \<lparr>tls_enabled = False, tls_listen_port = 0, tls_cert_file = [], tls_key_file = []\<rparr>,
      srv_proxy = \<lparr>px_enabled = False, px_mode = BALANCE_ROUND_ROBIN, px_connect_timeout = 0,
        px_upstream_timeout = 0, px_keepalive_conns = 0, px_backends = []\<rparr>,
      srv_cache = \<lparr>cc_enabled = False, cc_root = [], cc_default_ttl = 0, cc_max_entries = 0\<rparr>,
      srv_gzip = \<lparr>gz_enabled = False, gz_min_length = 0\<rparr>\<rparr>"

definition config_defaults :: np_config_t where
  "config_defaults =
     \<lparr>c_listen_addr = ''0.0.0.0'', c_worker_processes = 4, c_backlog = 4096,
      c_max_connections = 100000, c_keepalive_timeout = 75, c_read_timeout = 60,
      c_write_timeout = 60,
      c_servers = [server_zero\<lparr>srv_listen_port := 8080, srv_static_root := ''./www'',
        srv_tls := (srv_tls server_zero)\<lparr>tls_listen_port := 8443\<rparr>,
        srv_proxy := (srv_proxy server_zero)\<lparr>px_mode := BALANCE_ROUND_ROBIN,
          px_connect_timeout := 5, px_upstream_timeout := 30, px_keepalive_conns := 16\<rparr>\<rparr>],
      c_rl_enabled = False, c_rl_requests_per_second = 1000, c_rl_burst = 200,
      c_log_level = LOG_INFO, c_access_log = ''./logs/access.log'',
      c_error_log = ''./logs/error.log'', c_metrics_enabled = False,
      c_metrics_path = ''/metrics'', c_daemon = False, c_pid_file = [], c_shutdown_timeout = 0\<rparr>"

definition strip_comment :: "string \<Rightarrow> string" where
  "strip_comment line =
     (let l = cstr line;
          l = (case strchr (CHR ''#'') l of None \<Rightarrow> l | Some p \<Rightarrow> take p l)
      in str_trim_right l)"

definition parse_bool :: "string \<Rightarrow> bool" where
  "parse_bool v \<longleftrightarrow> v = ''true'' \<or> v = ''1'' \<or> v = ''yes''"

text \<open>The tokens that repeated calls of \<open>strtok (s, " ")\<close> return.\<close>

function strtok_all :: "string \<Rightarrow> string list" where
  "strtok_all s =
     (let s = dropWhile (\<lambda>c. c = CHR '' '') s
      in if s = [] then []
         else takeWhile (\<lambda>c. c \<noteq> CHR '' '') s # strtok_all (dropWhile (\<lambda>c. c \<noteq> CHR '' '') s))"
  by pat_completeness auto

termination
proof (relation "measure length")
  fix s x :: string
  assume x: "x = dropWhile (\<lambda>c. c = CHR '' '') s" and ne: "x \<noteq> []"
  have "hd x \<noteq> CHR '' ''" using hd_dropWhile [of "\<lambda>c. c = CHR '' ''" s] x ne by simp
  with ne have "length (dropWhile (\<lambda>c. c \<noteq> CHR '' '') x) < length x"
    by (cases x) (auto intro: le_imp_less_Suc length_dropWhile_le)
  moreover have "length x \<le> length s" unfolding x by (rule length_dropWhile_le)
  ultimately show "(dropWhile (\<lambda>c. c \<noteq> CHR '' '') x, s) \<in> measure length" by simp
qed simp

declare strtok_all.simps [simp del]

text \<open>The server slot that is being filled: the last in use.\<close>

definition upd_srv :: "(np_server_config_t \<Rightarrow> np_server_config_t) \<Rightarrow> np_config_t \<Rightarrow> np_config_t" where
  "upd_srv f c =
     c\<lparr>c_servers := (c_servers c)[length (c_servers c) - 1 := f (c_servers c ! (length (c_servers c) - 1))]\<rparr>"

definition add_rewrite ::
  "(string \<Rightarrow> bool) \<Rightarrow> string \<Rightarrow> np_server_config_t \<Rightarrow> np_server_config_t" where
  "add_rewrite regcomp val s =
     (case strchr (CHR '' '') val of
        None \<Rightarrow> s
      | Some sp \<Rightarrow>
          (let repl = dropWhile isspace (drop (sp + 1) val);
               rule = \<lparr>rw_pattern = strncpy (CONFIG_MAX_STR - 1) (take sp val),
                       rw_replacement = strncpy (CONFIG_MAX_STR - 1) repl\<rparr>
           in if regcomp (rw_pattern rule) then s\<lparr>srv_rewrite := srv_rewrite s @ [rule]\<rparr> else s))"

fun add_try_files :: "string list \<Rightarrow> np_server_config_t \<Rightarrow> np_server_config_t" where
  "add_try_files [] s = s"
| "add_try_files (t # ts) s =
     (if length (srv_try_files s) < CONFIG_MAX_TRY_FILES
      then add_try_files ts (s\<lparr>srv_try_files := srv_try_files s @ [strncpy (CONFIG_MAX_STR - 1) t]\<rparr>)
      else s)"

definition server_setting ::
  "(string \<Rightarrow> bool) \<Rightarrow> string \<Rightarrow> string \<Rightarrow> np_config_t \<Rightarrow> np_config_t" where
  "server_setting regcomp key val c =
     (let srv = c_servers c ! (length (c_servers c) - 1)
      in if key = ''listen_port'' then upd_srv (\<lambda>s. s\<lparr>srv_listen_port := word_of_int (atoi val)\<rparr>) c
         else if key = ''server_name'' then upd_srv (\<lambda>s. s\<lparr>srv_server_name := strncpy (CONFIG_MAX_STR - 1) val\<rparr>) c
         else if key = ''listen_addr'' then c\<lparr>c_listen_addr := strncpy 63 val\<rparr>
         else if key = ''worker_processes'' then c\<lparr>c_worker_processes := atoi val\<rparr>
         else if key = ''backlog'' then c\<lparr>c_backlog := atoi val\<rparr>
         else if key = ''max_connections'' then c\<lparr>c_max_connections := atoi val\<rparr>
         else if key = ''keepalive_timeout'' then c\<lparr>c_keepalive_timeout := atoi val\<rparr>
         else if key = ''read_timeout'' then c\<lparr>c_read_timeout := atoi val\<rparr>
         else if key = ''write_timeout'' then c\<lparr>c_write_timeout := atoi val\<rparr>
         else if key = ''static_root'' then upd_srv (\<lambda>s. s\<lparr>srv_static_root := strncpy (CONFIG_MAX_STR - 1) val\<rparr>) c
         else if key = ''load_module'' \<and> length (srv_modules srv) < CONFIG_MAX_MODULES then
           upd_srv (\<lambda>s. s\<lparr>srv_modules := srv_modules s @ [strncpy (CONFIG_MAX_STR - 1) val]\<rparr>) c
         else if key = ''rewrite'' \<and> length (srv_rewrite srv) < CONFIG_MAX_REWRITES then
           upd_srv (add_rewrite regcomp val) c
         else if key = ''try_files'' then upd_srv (add_try_files (strtok_all val)) c
         else c)"

definition tls_setting :: "string \<Rightarrow> string \<Rightarrow> tls_config \<Rightarrow> tls_config" where
  "tls_setting key val t =
     (if key = ''enabled'' then t\<lparr>tls_enabled := parse_bool val\<rparr>
      else if key = ''listen_port'' then t\<lparr>tls_listen_port := word_of_int (atoi val)\<rparr>
      else if key = ''cert_file'' then t\<lparr>tls_cert_file := strncpy (CONFIG_MAX_STR - 1) val\<rparr>
      else if key = ''key_file'' then t\<lparr>tls_key_file := strncpy (CONFIG_MAX_STR - 1) val\<rparr>
      else t)"

definition proxy_setting :: "string \<Rightarrow> string \<Rightarrow> proxy_config \<Rightarrow> proxy_config" where
  "proxy_setting key val p =
     (if key = ''enabled'' then p\<lparr>px_enabled := parse_bool val\<rparr>
      else if key = ''mode'' then
        p\<lparr>px_mode := (if val = ''least_conn'' then BALANCE_LEAST_CONN else BALANCE_ROUND_ROBIN)\<rparr>
      else if key = ''connect_timeout'' then p\<lparr>px_connect_timeout := atoi val\<rparr>
      else if key = ''upstream_timeout'' then p\<lparr>px_upstream_timeout := atoi val\<rparr>
      else if key = ''keepalive_conns'' then p\<lparr>px_keepalive_conns := atoi val\<rparr>
      else p)"

definition upstream_setting :: "string \<Rightarrow> string \<Rightarrow> proxy_config \<Rightarrow> proxy_config" where
  "upstream_setting key val p =
     (if key = ''backend'' \<and> length (px_backends p) < CONFIG_MAX_BACKENDS then
        (let be = (case strrchr (CHR '':'') val of
             Some colon \<Rightarrow>
               (let hlen = (if colon \<ge> 256 then 255 else colon)
                in \<lparr>be_host = take hlen val, be_port = word_of_int (atoi (drop (colon + 1) val)),
                    be_enabled = True\<rparr>)
           | None \<Rightarrow> \<lparr>be_host = strncpy 255 val, be_port = 80, be_enabled = True\<rparr>)
         in p\<lparr>px_backends := px_backends p @ [be]\<rparr>)
      else p)"

definition rate_limit_setting :: "string \<Rightarrow> string \<Rightarrow> np_config_t \<Rightarrow> np_config_t" where
  "rate_limit_setting key val c =
     (if key = ''enabled'' then c\<lparr>c_rl_enabled := parse_bool val\<rparr>
      else if key = ''requests_per_second'' then c\<lparr>c_rl_requests_per_second := atoi val\<rparr>
      else if key = ''burst'' then c\<lparr>c_rl_burst := atoi val\<rparr>
      else c)"

definition log_setting :: "string \<Rightarrow> string \<Rightarrow> np_config_t \<Rightarrow> np_config_t" where
  "log_setting key val c =
     (if key = ''level'' then
        (if val = ''debug'' then c\<lparr>c_log_level := LOG_DEBUG\<rparr>
         else if val = ''info'' then c\<lparr>c_log_level := LOG_INFO\<rparr>
         else if val = ''warn'' then c\<lparr>c_log_level := LOG_WARN\<rparr>
         else if val = ''error'' then c\<lparr>c_log_level := LOG_ERROR\<rparr>
         else c)
      else if key = ''access_log'' then c\<lparr>c_access_log := strncpy (CONFIG_MAX_STR - 1) val\<rparr>
      else if key = ''error_log'' then c\<lparr>c_error_log := strncpy (CONFIG_MAX_STR - 1) val\<rparr>
      else c)"

definition metrics_setting :: "string \<Rightarrow> string \<Rightarrow> np_config_t \<Rightarrow> np_config_t" where
  "metrics_setting key val c =
     (if key = ''enabled'' then c\<lparr>c_metrics_enabled := parse_bool val\<rparr>
      else if key = ''path'' then c\<lparr>c_metrics_path := strncpy (CONFIG_MAX_STR - 1) val\<rparr>
      else c)"

definition cache_setting :: "string \<Rightarrow> string \<Rightarrow> cache_config \<Rightarrow> cache_config" where
  "cache_setting key val cc =
     (if key = ''enabled'' then cc\<lparr>cc_enabled := parse_bool val\<rparr>
      else if key = ''root'' then cc\<lparr>cc_root := strncpy (CONFIG_MAX_STR - 1) val\<rparr>
      else if key = ''default_ttl'' then cc\<lparr>cc_default_ttl := atoi val\<rparr>
      else if key = ''max_entries'' then cc\<lparr>cc_max_entries := atoi val\<rparr>
      else cc)"

definition process_setting :: "string \<Rightarrow> string \<Rightarrow> np_config_t \<Rightarrow> np_config_t" where
  "process_setting key val c =
     (if key = ''daemon'' then c\<lparr>c_daemon := parse_bool val\<rparr>
      else if key = ''pid_file'' then c\<lparr>c_pid_file := strncpy (CONFIG_MAX_STR - 1) val\<rparr>
      else c)"

definition gzip_setting :: "string \<Rightarrow> string \<Rightarrow> gzip_config \<Rightarrow> gzip_config" where
  "gzip_setting key val g =
     (if key = ''enabled'' then g\<lparr>gz_enabled := parse_bool val\<rparr>
      else if key = ''min_length'' then g\<lparr>gz_min_length := atoi val\<rparr>
      else g)"

definition apply_setting ::
  "(string \<Rightarrow> bool) \<Rightarrow> string \<Rightarrow> string \<Rightarrow> string \<Rightarrow> np_config_t \<Rightarrow> np_config_t" where
  "apply_setting regcomp sec key val c =
     (let c =
        (if sec = ''server'' then server_setting regcomp key val c
         else if sec = ''tls'' then upd_srv (\<lambda>s. s\<lparr>srv_tls := tls_setting key val (srv_tls s)\<rparr>) c
         else if sec = ''proxy'' then upd_srv (\<lambda>s. s\<lparr>srv_proxy := proxy_setting key val (srv_proxy s)\<rparr>) c
         else if sec = ''upstream'' then
           upd_srv (\<lambda>s. s\<lparr>srv_proxy := upstream_setting key val (srv_proxy s)\<rparr>) c
         else if sec = ''rate_limit'' then rate_limit_setting key val c
         else if sec = ''log'' then log_setting key val c
         else if sec = ''metrics'' then metrics_setting key val c
         else if sec = ''cache'' then upd_srv (\<lambda>s. s\<lparr>srv_cache := cache_setting key val (srv_cache s)\<rparr>) c
         else if sec = ''process'' then process_setting key val c
         else if sec = ''gzip'' then upd_srv (\<lambda>s. s\<lparr>srv_gzip := gzip_setting key val (srv_gzip s)\<rparr>) c
         else c)
      in if sec = ''global'' \<and> key = ''shutdown_timeout'' then c\<lparr>c_shutdown_timeout := atoi val\<rparr> else c)"

text \<open>The state of the loop over the lines: configuration, current section, \<^verbatim>\<open>seen_server\<close>.\<close>

type_synonym load_state = "np_config_t \<times> string \<times> bool"

definition enter_section :: "load_state \<Rightarrow> string \<Rightarrow> nat \<Rightarrow> load_state" where
  "enter_section st rest len =
     (case st of (c, sec, seen) \<Rightarrow>
        (let len = (if len \<ge> 64 then 63 else len);
             (c, seen) =
               (if prefix ''server'' rest then
                  (if seen \<and> length (c_servers c) < CONFIG_MAX_SERVERS
                   then c\<lparr>c_servers := c_servers c @
                     [server_zero\<lparr>srv_listen_port := 8080, srv_static_root := ''./www''\<rparr>]\<rparr>
                   else c, True)
                else (c, seen))
         in (c, take len rest, seen)))"

definition config_line :: "(string \<Rightarrow> bool) \<Rightarrow> load_state \<Rightarrow> string \<Rightarrow> load_state" where
  "config_line regcomp st line =
     (let p = dropWhile isspace (strip_comment line)
      in case p of
           [] \<Rightarrow> st
         | ch # rest \<Rightarrow>
             if ch = CHR ''['' then
               (case strchr (CHR '']'') p of None \<Rightarrow> st | Some e \<Rightarrow> enter_section st rest (e - 1))
             else
               (case strchr (CHR ''='') p of
                  None \<Rightarrow> st
                | Some eq \<Rightarrow>
                    (case st of (c, sec, seen) \<Rightarrow>
                       (let key = str_trim_right (take eq p);
                            val = str_trim_right (dropWhile isspace (drop (eq + 1) p))
                        in (apply_setting regcomp sec key val c, sec, seen)))))"

text \<open>\<open>fgets (line, n + 1, fp)\<close>: the line read and the rest of the file.\<close>

fun fgets :: "nat \<Rightarrow> string \<Rightarrow> string \<times> string" where
  "fgets 0 s = ([], s)"
| "fgets (Suc n) [] = ([], [])"
| "fgets (Suc n) (c # s) =
     (if c = CHR 0x0A then ([c], s) else (let (l, r) = fgets n s in (c # l, r)))"

lemma fgets_split: "fst (fgets n s) @ snd (fgets n s) = s"
  by (induction n s rule: fgets.induct) (auto split: prod.splits)

lemma fgets_progress: "0 < n \<Longrightarrow> s \<noteq> [] \<Longrightarrow> length (snd (fgets n s)) < length s"
  using fgets_split [of n s] by (cases n; cases s) (auto split: prod.splits)

function config_loop :: "(string \<Rightarrow> bool) \<Rightarrow> load_state \<Rightarrow> string \<Rightarrow> load_state" where
  "config_loop regcomp st file =
     (if file = [] then st
      else config_loop regcomp (config_line regcomp st (fst (fgets 511 file))) (snd (fgets 511 file)))"
  by pat_completeness auto
termination by (relation "measure (\<lambda>(_, _, file). length file)") (auto intro: fgets_progress)

declare config_loop.simps [simp del]

text \<open>\<open>None\<close> is a file that cannot be opened.\<close>

definition config_load :: "(string \<Rightarrow> bool) \<Rightarrow> string option \<Rightarrow> np_config_t \<times> np_status_t" where
  "config_load regcomp file =
     (case file of
        None \<Rightarrow> (config_defaults, NP_ERR_CONFIG)
      | Some text \<Rightarrow> (fst (config_loop regcomp (config_defaults, [], False) text), NP_OK))"

text \<open>The line that \<^verbatim>\<open>config_print\<close> logs.\<close>

definition config_print :: "np_config_t \<Rightarrow> string" where
  "config_print c =
     ''config: listen='' @ c_listen_addr c @ '' workers='' @ dec_int (c_worker_processes c) @
     '' max_conn='' @ dec_int (c_max_connections c) @ '' servers='' @ dec_int (int (length (c_servers c)))"

text \<open>
  The inner loop of \<^verbatim>\<open>config_destroy\<close> for server \<open>s\<close> with \<open>cnt\<close> rules: its condition does not
  mention the index, so it ends at once or at the end of the array of rules. The value is
  the number of expressions freed.
\<close>

function destroy_rules :: "nat \<Rightarrow> nat \<Rightarrow> nat \<Rightarrow> nat mem" where
  "destroy_rules s cnt i =
     (if s < cnt then
        (if i < CONFIG_MAX_REWRITES then destroy_rules s cnt (i + 1) else Inl Out_of_bounds)
      else Inr i)"
  by pat_completeness auto
termination by (relation "measure (\<lambda>(s, cnt, i). CONFIG_MAX_REWRITES - i)") auto

declare destroy_rules.simps [simp del]

fun destroy_servers :: "nat \<Rightarrow> np_server_config_t list \<Rightarrow> nat mem" where
  "destroy_servers s [] = Inr 0"
| "destroy_servers s (x # xs) =
     mbind (destroy_rules s (length (srv_rewrite x)) 0) (\<lambda>n.
     mbind (destroy_servers (s + 1) xs) (\<lambda>k. Inr (n + k)))"

definition config_destroy :: "np_config_t \<Rightarrow> nat mem" where
  "config_destroy c = destroy_servers 0 (c_servers c)"

section \<open>Every array is large enough\<close>

text \<open>A C string with its NUL fits an array of \<open>n\<close> bytes.\<close>

definition str_fits :: "nat \<Rightarrow> string \<Rightarrow> bool" where
  "str_fits n s \<longleftrightarrow> length s < n \<and> CHR 0x00 \<notin> set s"

definition proxy_ok :: "proxy_config \<Rightarrow> bool" where
  "proxy_ok p \<longleftrightarrow> length (px_backends p) \<le> CONFIG_MAX_BACKENDS \<and>
     list_all (\<lambda>b. str_fits 256 (be_host b)) (px_backends p)"

definition srv_ok :: "np_server_config_t \<Rightarrow> bool" where
  "srv_ok s \<longleftrightarrow>
     str_fits CONFIG_MAX_STR (srv_server_name s) \<and> str_fits CONFIG_MAX_STR (srv_static_root s) \<and>
     length (srv_modules s) \<le> CONFIG_MAX_MODULES \<and> list_all (str_fits CONFIG_MAX_STR) (srv_modules s) \<and>
     length (srv_rewrite s) \<le> CONFIG_MAX_REWRITES \<and>
     list_all (\<lambda>r. str_fits CONFIG_MAX_STR (rw_pattern r) \<and> str_fits CONFIG_MAX_STR (rw_replacement r)) (srv_rewrite s) \<and>
     length (srv_try_files s) \<le> CONFIG_MAX_TRY_FILES \<and> list_all (str_fits CONFIG_MAX_STR) (srv_try_files s) \<and>
     str_fits CONFIG_MAX_STR (tls_cert_file (srv_tls s)) \<and> str_fits CONFIG_MAX_STR (tls_key_file (srv_tls s)) \<and>
     proxy_ok (srv_proxy s) \<and> str_fits CONFIG_MAX_STR (cc_root (srv_cache s))"

definition config_ok :: "np_config_t \<Rightarrow> bool" where
  "config_ok c \<longleftrightarrow>
     str_fits 64 (c_listen_addr c) \<and> c_servers c \<noteq> [] \<and> length (c_servers c) \<le> CONFIG_MAX_SERVERS \<and>
     list_all srv_ok (c_servers c) \<and> str_fits CONFIG_MAX_STR (c_access_log c) \<and>
     str_fits CONFIG_MAX_STR (c_error_log c) \<and> str_fits CONFIG_MAX_STR (c_metrics_path c) \<and>
     str_fits CONFIG_MAX_STR (c_pid_file c)"

lemma strncpy_fits [simp]: "n < m \<Longrightarrow> str_fits m (strncpy n s)"
  using length_strncpy [of n s] strncpy_no_nul by (auto simp: str_fits_def simp del: length_strncpy)

lemma upd_srv_ok [np_invar]:
  assumes "config_ok c" and "\<And>s. s \<in> set (c_servers c) \<Longrightarrow> s = c_servers c ! (length (c_servers c) - 1) \<Longrightarrow> srv_ok s \<Longrightarrow> srv_ok (f s)"
  shows "config_ok (upd_srv f c)"
proof -
  from assms(1) have "c_servers c \<noteq> []" "list_all srv_ok (c_servers c)" by (simp_all add: config_ok_def)
  then have "srv_ok (f (c_servers c ! (length (c_servers c) - 1)))"
    using assms(2) by (simp add: list_all_iff)
  then show ?thesis
    using assms(1) by (auto simp: config_ok_def upd_srv_def list_all_iff dest: set_update_subset_insert [THEN subsetD])
qed

lemma add_try_files_ok: "srv_ok s \<Longrightarrow> srv_ok (add_try_files ts s)"
  by (induction ts s rule: add_try_files.induct) (auto simp: srv_ok_def)

lemma add_rewrite_ok:
  "srv_ok s \<Longrightarrow> length (srv_rewrite s) < CONFIG_MAX_REWRITES \<Longrightarrow> srv_ok (add_rewrite regcomp val s)"
  by (auto simp: add_rewrite_def srv_ok_def Let_def split: option.splits)

lemma server_setting_ok [np_invar]:
  assumes "config_ok c"
  shows "config_ok (server_setting regcomp key val c)"
proof -
  have "config_ok (upd_srv f c)" if "\<And>s. srv_ok s \<Longrightarrow> srv_ok (f s)" for f
    using assms that by (auto intro: upd_srv_ok)
  moreover have "config_ok (upd_srv (\<lambda>s. s\<lparr>srv_modules := srv_modules s @ [strncpy (CONFIG_MAX_STR - 1) val]\<rparr>) c)"
    if "length (srv_modules (c_servers c ! (length (c_servers c) - 1))) < CONFIG_MAX_MODULES"
    using assms that by (intro upd_srv_ok) (auto simp: srv_ok_def)
  moreover have "config_ok (upd_srv (add_rewrite regcomp val) c)"
    if "length (srv_rewrite (c_servers c ! (length (c_servers c) - 1))) < CONFIG_MAX_REWRITES"
    using assms that by (intro upd_srv_ok) (auto intro: add_rewrite_ok)
  moreover have "config_ok (c\<lparr>c_listen_addr := strncpy 63 val\<rparr>)" using assms by (simp add: config_ok_def)
  ultimately show ?thesis
    using assms unfolding server_setting_def Let_def
    by (simp add: srv_ok_def add_try_files_ok [unfolded srv_ok_def]) (simp add: config_ok_def)
qed

lemma upstream_setting_ok:
  assumes "proxy_ok p" and "CHR 0x00 \<notin> set val"
  shows "proxy_ok (upstream_setting key val p)"
proof -
  have "CHR 0x00 \<notin> set (take k val)" for k
    using assms(2) by (meson in_set_takeD)
  then have "str_fits 256 (take (if k \<ge> 256 then 255 else k) val)" for k
    unfolding str_fits_def by auto
  then show ?thesis
    using assms(1) by (auto simp: upstream_setting_def proxy_ok_def Let_def split: option.splits)
qed

lemma apply_setting_ok [np_invar]:
  assumes "config_ok c" and "CHR 0x00 \<notin> set val"
  shows "config_ok (apply_setting regcomp sec key val c)"
proof -
  have srv: "config_ok (upd_srv f c)" if "\<And>s. srv_ok s \<Longrightarrow> srv_ok (f s)" for f
    using assms(1) that by (auto intro: upd_srv_ok)
  have 1: "config_ok (upd_srv (\<lambda>s. s\<lparr>srv_tls := tls_setting key val (srv_tls s)\<rparr>) c)"
    by (rule srv) (simp add: srv_ok_def tls_setting_def)
  have 2: "config_ok (upd_srv (\<lambda>s. s\<lparr>srv_proxy := proxy_setting key val (srv_proxy s)\<rparr>) c)"
    by (rule srv) (simp add: srv_ok_def proxy_setting_def proxy_ok_def)
  have 3: "config_ok (upd_srv (\<lambda>s. s\<lparr>srv_proxy := upstream_setting key val (srv_proxy s)\<rparr>) c)"
    by (rule srv) (simp add: srv_ok_def upstream_setting_ok assms(2))
  have 4: "config_ok (upd_srv (\<lambda>s. s\<lparr>srv_cache := cache_setting key val (srv_cache s)\<rparr>) c)"
    by (rule srv) (simp add: srv_ok_def cache_setting_def)
  have 5: "config_ok (upd_srv (\<lambda>s. s\<lparr>srv_gzip := gzip_setting key val (srv_gzip s)\<rparr>) c)"
    by (rule srv) (simp add: srv_ok_def)
  have 6: "config_ok (rate_limit_setting key val c)" "config_ok (log_setting key val c)"
    "config_ok (metrics_setting key val c)" "config_ok (process_setting key val c)"
    using assms(1)
    by (simp_all add: config_ok_def rate_limit_setting_def log_setting_def metrics_setting_def process_setting_def)
  have 7: "config_ok (x\<lparr>c_shutdown_timeout := n\<rparr>)" if "config_ok x" for x n
    using that by (simp add: config_ok_def)
  show ?thesis
    unfolding apply_setting_def Let_def
    using assms(1) by (simp add: 1 2 3 4 5 6 7 server_setting_ok)
qed

lemma enter_section_ok [np_invar]:
  "config_ok (fst st) \<Longrightarrow> config_ok (fst (enter_section st rest n))"
  by (cases st)
    (simp add: enter_section_def Let_def config_ok_def srv_ok_def server_zero_def str_fits_def proxy_ok_def)

lemma set_strip_comment: "set (strip_comment l) \<subseteq> set (cstr l)"
  by (auto simp: strip_comment_def Let_def str_trim_right_eq split: option.splits
      dest!: set_dropWhileD in_set_takeD)

lemma config_line_ok [np_invar]:
  assumes "config_ok (fst st)"
  shows "config_ok (fst (config_line regcomp st line))"
proof -
  let ?p = "dropWhile isspace (strip_comment line)"
  have nul: "CHR 0x00 \<notin> set (str_trim_right (dropWhile isspace (drop n ?p)))" for n
    using set_strip_comment [of line] cstr_no_nul [of line]
    by (auto simp: str_trim_right_eq dest!: set_dropWhileD in_set_dropD)
  obtain c sec seen where st: "st = (c, sec, seen)" by (cases st)
  have "config_ok (apply_setting regcomp sec key (str_trim_right (dropWhile isspace (drop n ?p))) c)" for key n
    using assms nul st by (simp add: apply_setting_ok)
  then show ?thesis
    using assms enter_section_ok [of st]
    by (auto simp: config_line_def Let_def st simp del: drop_Suc_Cons drop_Cons split: list.split option.split)
qed

lemma config_loop_ok:
  "config_ok (fst st) \<Longrightarrow> config_ok (fst (config_loop regcomp st txts))"
proof (induction regcomp st txts rule: config_loop.induct)
  case (1 regcomp st txts)
  then show ?case by (subst config_loop.simps) (simp add: config_line_ok)
qed

lemma config_defaults_ok: "config_ok config_defaults"
  by (simp add: config_defaults_def config_ok_def srv_ok_def server_zero_def str_fits_def proxy_ok_def)

text \<open>C18: Whatever the file contains, and whichever patterns \<^verbatim>\<open>regcomp\<close> accepts, the configuration
  that is read stays within its arrays: at least one and at most 16 servers, at most 16
  modules, 32 rules, 8 files to try and 64 backends in each, and every string ends with
  its NUL inside its array.\<close>

theorem config_load_ok: "config_ok (fst (config_load regcomp file))"
  by (auto simp: config_load_def config_defaults_ok intro!: config_loop_ok split: option.splits)

section \<open>Freeing a configuration\<close>

lemma destroy_rules_loop:
  assumes "s < cnt"
  shows "destroy_rules s cnt i = Inl Out_of_bounds"
  using assms
proof (induction s cnt i rule: destroy_rules.induct)
  case (1 s cnt i)
  then show ?case by (subst destroy_rules.simps) simp
qed

lemma destroy_rules_0: "destroy_rules s cnt 0 = (if s < cnt then Inl Out_of_bounds else Inr 0)"
  using destroy_rules_loop by (simp add: destroy_rules.simps [of s cnt 0])

lemma destroy_servers_eq:
  "destroy_servers s xs =
     (if \<exists>i < length xs. s + i < length (srv_rewrite (xs ! i)) then Inl Out_of_bounds else Inr 0)"
proof (induction s xs rule: destroy_servers.induct)
  case (1 s)
  then show ?case by simp
next
  case (2 s x xs)
  have "(\<exists>i < length (x # xs). s + i < length (srv_rewrite ((x # xs) ! i))) \<longleftrightarrow>
      s < length (srv_rewrite x) \<or> (\<exists>i < length xs. s + 1 + i < length (srv_rewrite (xs ! i)))"
    by (simp add: Ex_less_Suc2)
  then show ?case using 2 by (simp add: destroy_rules_0)
qed

text \<open>Freeing a configuration runs beyond the array of rules as soon as some server \<open>i\<close> has
  more than \<open>i\<close> rewrite rules, in particular when the first server has any; otherwise it
  frees none of the compiled expressions.\<close>

theorem config_destroy_faults:
  "config_destroy c =
     (if \<exists>i < length (c_servers c). i < length (srv_rewrite (c_servers c ! i))
      then Inl Out_of_bounds else Inr 0)"
  by (simp add: config_destroy_def destroy_servers_eq)

theorem config_destroy_faults_witness:
  "config_destroy (apply_setting (\<lambda>p. True) ''server'' ''rewrite'' ''^/a /b'' config_defaults) =
     Inl Out_of_bounds"
  unfolding config_destroy_faults
  by (simp add: apply_setting_def server_setting_def upd_srv_def add_rewrite_def config_defaults_def
      server_zero_def strchr_def cstr_def Let_def)

section \<open>Reading a file of settings\<close>

datatype config_item = Section string | Setting string string | Comment string

fun render_item :: "config_item \<Rightarrow> string" where
  "render_item (Section n) = ''['' @ n @ '']'' @ LF"
| "render_item (Setting k v) = k @ '' = '' @ v @ LF"
| "render_item (Comment t) = ''#'' @ t @ LF"

definition plain :: "string \<Rightarrow> bool" where
  "plain s \<longleftrightarrow> CHR 0x00 \<notin> set s \<and> CHR 0x0A \<notin> set s \<and> CHR ''#'' \<notin> set s"

fun wf_item :: "config_item \<Rightarrow> bool" where
  "wf_item (Section n) \<longleftrightarrow> plain n \<and> CHR '']'' \<notin> set n \<and> length n < 64"
| "wf_item (Setting k v) \<longleftrightarrow> plain k \<and> plain v \<and> CHR ''='' \<notin> set k \<and> str_trim k = k \<and> k \<noteq> [] \<and>
     hd k \<noteq> CHR ''['' \<and> str_trim v = v \<and> length k + length v < 500"
| "wf_item (Comment t) \<longleftrightarrow> CHR 0x0A \<notin> set t \<and> CHR 0x00 \<notin> set t \<and> length t < 500"

fun item_step :: "(string \<Rightarrow> bool) \<Rightarrow> load_state \<Rightarrow> config_item \<Rightarrow> load_state" where
  "item_step regcomp st (Section n) = enter_section st (n @ '']'') (length n)"
| "item_step regcomp (c, sec, seen) (Setting k v) = (apply_setting regcomp sec k v c, sec, seen)"
| "item_step regcomp st (Comment t) = st"

lemma fgets_line: "CHR 0x0A \<notin> set l \<Longrightarrow> length l < n \<Longrightarrow> fgets n (l @ CHR 0x0A # r) = (l @ LF, r)"
proof (induction l arbitrary: n)
  case Nil
  then show ?case by (cases n) auto
next
  case (Cons x l)
  then show ?case by (cases n) auto
qed

lemma strip_comment_plain:
  assumes "plain l"
  shows "strip_comment (l @ LF) = str_trim_right l"
proof -
  have "cstr (l @ LF) = l @ LF" using assms by (intro cstr_ident) (simp add: plain_def)
  moreover have "strchr (CHR ''#'') (l @ LF) = None"
    using assms \<open>cstr (l @ LF) = l @ LF\<close> by (simp add: strchr_def memchr_None_iff plain_def)
  ultimately show ?thesis by (simp add: strip_comment_def str_trim_right_eq isspace_def)
qed

lemma trim_right_snoc: "\<not> isspace c \<Longrightarrow> str_trim_right (s @ [c]) = s @ [c]"
  by (simp add: str_trim_right_eq)

lemma trimmed_ends:
  assumes "str_trim s = s" "s \<noteq> []"
  shows "\<not> isspace (hd s)" "\<not> isspace (last s)"
  using str_trim_hd [of s] str_trim_last [of s] assms by simp_all

lemma trim_right_keep: "s = [] \<or> \<not> isspace (last s) \<Longrightarrow> str_trim_right s = s"
  by (cases s rule: rev_cases) (simp_all add: str_trim_right_eq)

lemma dropWhile_keep: "s = [] \<or> \<not> isspace (hd s) \<Longrightarrow> dropWhile isspace s = s"
  by (cases s) simp_all

lemma plain_append [simp]: "plain (s @ t) \<longleftrightarrow> plain s \<and> plain t"
  by (auto simp: plain_def)

lemma section_line:
  assumes "wf_item (Section n)"
  shows "config_line regcomp st (render_item (Section n)) = item_step regcomp st (Section n)"
proof -
  let ?l = "CHR ''['' # n @ [CHR '']'']"
  have "plain ?l" using assms by (auto simp: plain_def)
  then have "strip_comment (?l @ LF) = ?l"
    by (simp only: strip_comment_plain) (simp add: trim_right_keep isspace_def)
  moreover have "strchr (CHR '']'') ?l = Some (length n + 1)"
    using assms cstr_ident [of ?l] by (simp add: strchr_def memchr_append plain_def)
  ultimately show ?thesis by (simp add: config_line_def isspace_def)
qed

lemma setting_line:
  assumes wf: "wf_item (Setting k v)"
  shows "config_line regcomp st (render_item (Setting k v)) = item_step regcomp st (Setting k v)"
proof -
  obtain c sec seen where st: "st = (c, sec, seen)" by (cases st)
  let ?l = "k @ '' = '' @ v"
  from wf have k: "\<not> isspace (hd k)" "\<not> isspace (last k)" "k \<noteq> []" "hd k \<noteq> CHR ''[''"
    using trimmed_ends [of k] by simp_all
  have v: "v = [] \<or> \<not> isspace (hd v)" "v = [] \<or> \<not> isspace (last v)"
    using wf trimmed_ends [of v] by auto
  have sp: "isspace (CHR '' '')" "\<not> isspace (CHR ''='')" by (simp_all add: isspace_def)
  define p where "p = str_trim_right ?l"
  have p: "p = k @ '' ='' @ (if v = [] then [] else CHR '' '' # v)"
  proof (cases "v = []")
    case True
    then show ?thesis by (simp add: p_def str_trim_right_eq sp)
  next
    case False
    with v(2) have "str_trim_right ?l = ?l" by (intro trim_right_keep) simp
    with False show ?thesis by (simp add: p_def)
  qed
  have "plain ?l" using wf by (auto simp: plain_def)
  then have s: "strip_comment (?l @ LF) = p"
    unfolding p_def by (rule strip_comment_plain)
  have "\<not> isspace (hd p)" "p \<noteq> []" using k by (auto simp: p)
  then have dw: "dropWhile isspace p = p" by (simp add: dropWhile_keep)
  have "CHR 0x00 \<notin> set p" using wf by (auto simp: p plain_def)
  then have eq: "strchr (CHR ''='') p = Some (length k + 1)"
    using wf memchr_append [of "CHR ''=''" "k @ '' ''"] by (simp add: strchr_def cstr_ident p)
  have key: "str_trim_right (take (length k + 1) p) = k"
    using k by (simp add: p str_trim_right_eq sp dropWhile_keep hd_rev)
  have val: "str_trim_right (dropWhile isspace (drop (length k + 1 + 1) p)) = v"
    using dropWhile_keep [OF v(1)] trim_right_keep [OF v(2)] by (cases "v = []") (simp_all add: p sp)
  obtain x xs where xs: "p = x # xs" "x \<noteq> CHR ''[''" using k by (cases k) (auto simp: p)
  have "config_line regcomp st (?l @ LF) =
      (apply_setting regcomp sec (str_trim_right (take (length k + 1) p))
         (str_trim_right (dropWhile isspace (drop (length k + 1 + 1) p))) c, sec, seen)"
    unfolding config_line_def Let_def s dw using xs eq by (simp add: st)
  then show ?thesis by (simp only: key val) (simp add: st)
qed

lemma comment_line:
  assumes "wf_item (Comment t)"
  shows "config_line regcomp st (render_item (Comment t)) = item_step regcomp st (Comment t)"
proof -
  have "cstr (CHR ''#'' # t @ LF) = CHR ''#'' # t @ LF" using assms by (intro cstr_ident) simp
  then have "strip_comment (CHR ''#'' # t @ LF) = []"
    by (simp add: strip_comment_def strchr_def str_trim_right_eq)
  then show ?thesis by (simp add: config_line_def)
qed

lemma item_line: "wf_item i \<Longrightarrow> config_line regcomp st (render_item i) = item_step regcomp st i"
  by (cases i) (simp_all only: section_line setting_line comment_line)

lemma render_item_line:
  assumes "wf_item i"
  obtains l where "render_item i = l @ LF" "CHR 0x0A \<notin> set l" "length l < 511"
proof (cases i)
  case (Section n)
  with assms that [of "''['' @ n @ '']''"] show ?thesis by (simp add: plain_def)
next
  case (Setting k v)
  with assms that [of "k @ '' = '' @ v"] show ?thesis by (simp add: plain_def)
next
  case (Comment t)
  with assms that [of "''#'' @ t"] show ?thesis by simp
qed

lemma config_loop_items:
  assumes "list_all wf_item items"
  shows "config_loop regcomp st (concat (map render_item items)) = foldl (item_step regcomp) st items"
  using assms
proof (induction items arbitrary: st)
  case Nil
  then show ?case by (simp add: config_loop.simps)
next
  case (Cons i items)
  then have i: "wf_item i" by simp
  from render_item_line [OF i] obtain l where
    l: "render_item i = l @ LF" "CHR 0x0A \<notin> set l" "length l < 511" by blast
  then have "fgets 511 (concat (map render_item (i # items))) = (render_item i, concat (map render_item items))"
    using fgets_line [OF l(2,3)] by simp
  moreover have "render_item i \<noteq> []" by (simp add: l(1))
  ultimately show ?case
    using Cons.IH Cons.prems i by (subst config_loop.simps) (simp add: item_line)
qed



end
