(* ===== verification/Module.thy ===== *)
theory Module
  imports Conn Config
begin

text \<open>
  The dynamic modules of \<^verbatim>\<open>src/src/module/module.c\<close>. A module is code outside the repository: its
  entry points are fields of a record of functions, and what \<^verbatim>\<open>dlopen\<close> and \<^verbatim>\<open>dlsym\<close> find for a
  path is an argument. A module is taken not to change the configuration, which it is handed as a
  pointer; the request and the connection it may change. The array \<^verbatim>\<open>g_modules\<close> with its count is
  a list of at most 16 elements, and storing beyond it is an error.
\<close>

section \<open>Model\<close>

abbreviation NP_MODULE_DECLINED :: int where "NP_MODULE_DECLINED \<equiv> 0"
abbreviation NP_MODULE_HANDLED :: int where "NP_MODULE_HANDLED \<equiv> 1"
abbreviation NP_MODULE_ERROR :: int where "NP_MODULE_ERROR \<equiv> -1"

type_synonym request_handler = "conn_t \<Rightarrow> http_request_t \<Rightarrow> np_config_t \<Rightarrow> conn_t \<times> http_request_t \<times> int"

record nproxy_module_t =
  md_name :: string
  md_version :: string
  md_init :: "(np_config_t \<Rightarrow> int) option"
  md_request_handler :: "request_handler option"
  md_destroy :: bool

record loaded_module_t =
  lm_handle :: nat
  lm_module :: nproxy_module_t

text \<open>The handle of \<^verbatim>\<open>dlopen\<close>, if any, and what \<^verbatim>\<open>dlsym\<close> finds through it.\<close>

type_synonym dl = "string \<Rightarrow> (nat \<times> nproxy_module_t option) option"

text \<open>The body of the two loops for one path: the registry, the result if the function returns, the handles closed.\<close>

definition module_load ::
  "dl \<Rightarrow> np_config_t \<Rightarrow> string \<Rightarrow> loaded_module_t list \<Rightarrow> (loaded_module_t list \<times> int option \<times> nat list) mem" where
  "module_load dl cfg path ms =
     (case dl path of
        None \<Rightarrow> Inr (ms, Some NP_MODULE_ERROR, [])
      | Some (handle, None) \<Rightarrow> Inr (ms, Some NP_MODULE_ERROR, [handle])
      | Some (handle, Some md) \<Rightarrow>
          if (case md_init md of None \<Rightarrow> False | Some init \<Rightarrow> init cfg \<noteq> 0)
          then Inr (ms, Some NP_MODULE_ERROR, [handle])
          else if CONFIG_MAX_MODULES \<le> length ms then Inl Out_of_bounds
          else Inr (ms @ [\<lparr>lm_handle = handle, lm_module = md\<rparr>], None, []))"

fun module_load_paths ::
  "dl \<Rightarrow> np_config_t \<Rightarrow> string list \<Rightarrow> loaded_module_t list \<Rightarrow> (loaded_module_t list \<times> int \<times> nat list) mem" where
  "module_load_paths dl cfg [] ms = Inr (ms, 0, [])"
| "module_load_paths dl cfg (path # paths) ms =
     mbind (module_load dl cfg path ms) (\<lambda>(ms, r, closed).
       case r of Some rc \<Rightarrow> Inr (ms, rc, closed) | None \<Rightarrow> module_load_paths dl cfg paths ms)"

text \<open>The paths of all servers in the order of the two loops.\<close>

definition module_load_all :: "dl \<Rightarrow> np_config_t \<Rightarrow> (loaded_module_t list \<times> int \<times> nat list) mem" where
  "module_load_all dl cfg = module_load_paths dl cfg (concat (map srv_modules (c_servers cfg))) []"

fun module_run_request_handlers ::
  "loaded_module_t list \<Rightarrow> conn_t \<Rightarrow> http_request_t \<Rightarrow> np_config_t \<Rightarrow> conn_t \<times> http_request_t \<times> int" where
  "module_run_request_handlers [] conn req cfg = (conn, req, NP_MODULE_DECLINED)"
| "module_run_request_handlers (m # ms) conn req cfg =
     (case md_request_handler (lm_module m) of
        None \<Rightarrow> module_run_request_handlers ms conn req cfg
      | Some f \<Rightarrow>
          (case f conn req cfg of (conn, req, rc) \<Rightarrow>
             if rc = NP_MODULE_HANDLED then (conn, req, NP_MODULE_HANDLED)
             else module_run_request_handlers ms conn req cfg))"

text \<open>The empty registry, the modules whose \<^verbatim>\<open>destroy\<close> is called and the handles closed.\<close>

definition module_unload_all :: "loaded_module_t list \<Rightarrow> loaded_module_t list \<times> nproxy_module_t list \<times> nat list" where
  "module_unload_all ms = ([], filter md_destroy (map lm_module ms), map lm_handle ms)"

section \<open>Loading\<close>

text \<open>A path whose module loads and starts.\<close>

definition loads :: "dl \<Rightarrow> np_config_t \<Rightarrow> string \<Rightarrow> loaded_module_t option" where
  "loads dl cfg path =
     (case dl path of
        Some (handle, Some md) \<Rightarrow>
          if (case md_init md of None \<Rightarrow> True | Some init \<Rightarrow> init cfg = 0)
          then Some \<lparr>lm_handle = handle, lm_module = md\<rparr> else None
      | _ \<Rightarrow> None)"

lemma module_load_loads:
  "loads dl cfg path = Some m \<Longrightarrow>
     module_load dl cfg path ms = (if CONFIG_MAX_MODULES \<le> length ms then Inl Out_of_bounds else Inr (ms @ [m], None, []))"
  by (auto simp: loads_def module_load_def split: option.splits if_splits)

lemma module_load_paths_prefix:
  "length ms + length paths \<le> CONFIG_MAX_MODULES \<Longrightarrow> list_all (\<lambda>p. loads dl cfg p \<noteq> None) paths \<Longrightarrow>
     module_load_paths dl cfg (paths @ rest) ms = module_load_paths dl cfg rest (ms @ map (\<lambda>p. the (loads dl cfg p)) paths)"
  by (induction paths arbitrary: ms) (auto simp: module_load_loads)

lemma module_load_paths_length:
  "module_load_paths dl cfg paths ms = Inr (ms', rc, closed) \<Longrightarrow> length ms \<le> CONFIG_MAX_MODULES \<Longrightarrow>
     length ms' \<le> CONFIG_MAX_MODULES"
  by (induction paths arbitrary: ms)
    (auto simp: module_load_def mbind_Inr_iff split: option.splits if_splits)

text \<open>
  Modules that all load and start end up in the registry in the order of the configuration
  when there are at most 16 of them in all servers together, and with one more the function
  stores beyond its array, although the configuration admits 16 for each of 16 servers.
\<close>

theorem module_load_all_bounds:
  assumes "list_all (\<lambda>p. loads dl cfg p \<noteq> None) paths" "paths = concat (map srv_modules (c_servers cfg))"
  shows "module_load_all dl cfg =
     (if length paths \<le> CONFIG_MAX_MODULES then Inr (map (\<lambda>p. the (loads dl cfg p)) paths, 0, []) else Inl Out_of_bounds)"
proof (cases "length paths \<le> CONFIG_MAX_MODULES")
  case True
  then show ?thesis
    using module_load_paths_prefix [of "[]" paths dl cfg "[]"] assms by (simp add: module_load_all_def)
next
  case False
  let ?a = "take CONFIG_MAX_MODULES paths"
  obtain p r where d: "drop CONFIG_MAX_MODULES paths = p # r" using False by (cases "drop CONFIG_MAX_MODULES paths") auto
  then have eq: "paths = ?a @ p # r" by (metis append_take_drop_id)
  have all: "list_all (\<lambda>p. loads dl cfg p \<noteq> None) ?a" "loads dl cfg p \<noteq> None"
    using assms(1) unfolding list_all_iff by (metis in_set_takeD, metis d in_set_dropD list.set_intros(1))
  have "module_load_all dl cfg = module_load_paths dl cfg (?a @ p # r) []"
    unfolding module_load_all_def assms(2) [symmetric] using eq by simp
  also have "\<dots> = module_load_paths dl cfg (p # r) (map (\<lambda>p. the (loads dl cfg p)) ?a)"
    using module_load_paths_prefix [of "[]" ?a dl cfg "p # r"] all(1) by simp
  also have "\<dots> = Inl Out_of_bounds"
    using all(2) False module_load_loads [of dl cfg p] by auto
  finally show ?thesis using False by simp
qed

definition demo_module :: nproxy_module_t where
  "demo_module = \<lparr>md_name = ''m'', md_version = ''1'', md_init = Some (\<lambda>_. 0), md_request_handler = None, md_destroy = False\<rparr>"

theorem module_load_all_bounds_witness:
  "module_load_all (\<lambda>_. Some (3, Some demo_module)) (config_defaults\<lparr>c_servers := replicate 2 (server_zero\<lparr>srv_modules := replicate 9 ''m.so''\<rparr>)\<rparr>) =
     Inl Out_of_bounds"
proof -
  let ?cfg = "config_defaults\<lparr>c_servers := replicate 2 (server_zero\<lparr>srv_modules := replicate 9 ''m.so''\<rparr>)\<rparr>"
  have "list_all (\<lambda>p. loads (\<lambda>_. Some (3, Some demo_module)) ?cfg p \<noteq> None) (concat (map srv_modules (c_servers ?cfg)))"
    by (simp add: list_all_iff loads_def demo_module_def)
  from module_load_all_bounds [OF this refl] show ?thesis by (simp add: numeral_2_eq_2)
qed

section \<open>Requests\<close>

text \<open>
  A property of connections and requests that every module keeps is kept by the chain; a module
  that handles the request ends it.
\<close>

lemma module_handlers_keep:
  assumes "list_all (\<lambda>m. case md_request_handler (lm_module m) of None \<Rightarrow> True
      | Some f \<Rightarrow> \<forall>c r. P c r \<longrightarrow> (case f c r cfg of (c', r', _) \<Rightarrow> P c' r')) ms" "P conn req"
    "module_run_request_handlers ms conn req cfg = (conn', req', rc)"
  shows "P conn' req'"
  using assms
proof (induction ms arbitrary: conn req)
  case (Cons m ms)
  show ?case
  proof (cases "md_request_handler (lm_module m)")
    case None
    then show ?thesis using Cons by simp
  next
    case (Some f)
    obtain c1 r1 rc1 where f: "f conn req cfg = (c1, r1, rc1)" by (cases "f conn req cfg")
    have "P c1 r1" using Cons.prems(1,2) by (simp add: Some) (use f in fastforce)
    then show ?thesis using Cons.IH [of c1 r1] Cons.prems by (auto simp: Some f split: if_splits)
  qed
qed simp

lemma module_handlers_result:
  "module_run_request_handlers ms conn req cfg = (conn', req', rc) \<Longrightarrow> rc \<in> {NP_MODULE_HANDLED, NP_MODULE_DECLINED}"
  by (induction ms arbitrary: conn req) (auto split: option.splits prod.splits if_splits)

lemma module_handlers_none:
  "list_all (\<lambda>m. md_request_handler (lm_module m) = None) ms \<Longrightarrow>
     module_run_request_handlers ms conn req cfg = (conn, req, NP_MODULE_DECLINED)"
  by (induction ms) auto

end
