(* ===== verification/Upstream.thy ===== *)
theory Upstream
  imports Config
begin

text \<open>
  Upstream selection: the two balancers of \<^verbatim>\<open>src/src/proxy/balancer.c\<close> and the pool of
  \<^verbatim>\<open>src/src/proxy/upstream.c\<close>. A pointer to a backend is its index, \<^verbatim>\<open>NULL\<close> is \<open>None\<close>; the
  array of idle connections with its count is a list, the last pushed at its end. Counters
  are integers: the code would overflow after \<open>2 ^ 31\<close> requests.

  The locale \<open>balancer\<close> is the contract between the pool and a balancer: both balancers
  interpret it, and the selection lemma is proved once from it. The life of a pool is a
  step relation over its operations, with the invariant of every reachable pool.
\<close>

section \<open>Model\<close>

record upstream_backend =
  ub_host :: string
  ub_port :: u16
  ub_active_conns :: int
  ub_total_requests :: int
  ub_error_count :: int
  ub_healthy :: bool
  ub_idle_fds :: "int list"

record upstream_pool =
  up_backends :: "upstream_backend list"
  up_rr_index :: nat
  up_mode :: balance_mode_t
  up_keepalive_conns :: int

text \<open>The loop of the round robin balancer, with \<open>k\<close> backends left to look at.\<close>

fun rr_loop :: "upstream_backend list \<Rightarrow> nat \<Rightarrow> nat \<Rightarrow> nat \<Rightarrow> nat option" where
  "rr_loop bs start i 0 = None"
| "rr_loop bs start i (Suc k) =
     (let idx = (start + i) mod length bs
      in if ub_healthy (bs ! idx) then Some idx else rr_loop bs start (i + 1) k)"

definition balancer_round_robin :: "upstream_pool \<Rightarrow> upstream_pool \<times> nat option" where
  "balancer_round_robin pool =
     (let count = length (up_backends pool)
      in case rr_loop (up_backends pool) (up_rr_index pool) 0 count of
           None \<Rightarrow> (pool, None)
         | Some idx \<Rightarrow> (pool\<lparr>up_rr_index := (idx + 1) mod count\<rparr>, Some idx))"

fun lc_loop :: "upstream_backend list \<Rightarrow> nat \<Rightarrow> nat option \<Rightarrow> int \<Rightarrow> nat option" where
  "lc_loop [] i best min_conns = best"
| "lc_loop (be # bs) i best min_conns =
     (if \<not> ub_healthy be then lc_loop bs (i + 1) best min_conns
      else if ub_active_conns be < min_conns then lc_loop bs (i + 1) (Some i) (ub_active_conns be)
      else lc_loop bs (i + 1) best min_conns)"

definition balancer_least_conn :: "upstream_pool \<Rightarrow> upstream_pool \<times> nat option" where
  "balancer_least_conn pool = (pool, lc_loop (up_backends pool) 0 None INT_MAX)"

definition backend_of :: "backend_entry_t \<Rightarrow> upstream_backend" where
  "backend_of e =
     \<lparr>ub_host = strncpy 255 (be_host e), ub_port = be_port e, ub_active_conns = 0,
      ub_total_requests = 0, ub_error_count = 0, ub_healthy = True, ub_idle_fds = []\<rparr>"

text \<open>\<open>m\<close> says whether \<^verbatim>\<open>malloc\<close> succeeds.\<close>

definition upstream_pool_create :: "np_server_config_t \<Rightarrow> bool \<Rightarrow> upstream_pool option" where
  "upstream_pool_create cfg m =
     (if \<not> m then None
      else Some \<lparr>up_backends = map backend_of (px_backends (srv_proxy cfg)), up_rr_index = 0,
        up_mode = px_mode (srv_proxy cfg), up_keepalive_conns = px_keepalive_conns (srv_proxy cfg)\<rparr>)"

definition upd_backend ::
  "nat \<Rightarrow> (upstream_backend \<Rightarrow> upstream_backend) \<Rightarrow> upstream_pool \<Rightarrow> upstream_pool" where
  "upd_backend i f pool = pool\<lparr>up_backends := (up_backends pool)[i := f (up_backends pool ! i)]\<rparr>"

definition upstream_select :: "upstream_pool \<Rightarrow> upstream_pool \<times> nat option" where
  "upstream_select pool =
     (if length (up_backends pool) = 0 then (pool, None)
      else
        (let (pool, be) = (if up_mode pool = BALANCE_LEAST_CONN then balancer_least_conn pool
                           else balancer_round_robin pool)
         in case be of
              None \<Rightarrow> (pool, None)
            | Some i \<Rightarrow> (upd_backend i (\<lambda>b. b\<lparr>ub_active_conns := ub_active_conns b + 1\<rparr>) pool, Some i)))"

definition release_backend :: "bool \<Rightarrow> upstream_backend \<Rightarrow> upstream_backend" where
  "release_backend err be =
     (let be = (if ub_active_conns be > 0 then be\<lparr>ub_active_conns := ub_active_conns be - 1\<rparr> else be)
      in if err then
           (let be = be\<lparr>ub_error_count := ub_error_count be + 1\<rparr>
            in if ub_error_count be > 5 then be\<lparr>ub_healthy := False\<rparr> else be)
         else
           (let be = be\<lparr>ub_total_requests := ub_total_requests be + 1\<rparr>
            in if \<not> ub_healthy be \<and> ub_error_count be = 0 then be\<lparr>ub_healthy := True\<rparr> else be))"

definition upstream_release :: "upstream_pool \<Rightarrow> nat option \<Rightarrow> bool \<Rightarrow> upstream_pool" where
  "upstream_release pool be err =
     (case be of None \<Rightarrow> pool | Some i \<Rightarrow> upd_backend i (release_backend err) pool)"

text \<open>\<open>conn\<close> is the result of \<^verbatim>\<open>socket_connect_nonblock\<close>; the result \<open>-1\<close> is \<open>None\<close>.\<close>

definition upstream_get_connection ::
  "upstream_pool \<Rightarrow> nat \<Rightarrow> int option \<Rightarrow> upstream_pool \<times> int option" where
  "upstream_get_connection pool i conn =
     (let fds = ub_idle_fds (up_backends pool ! i)
      in if length fds > 0
         then (upd_backend i (\<lambda>b. b\<lparr>ub_idle_fds := butlast fds\<rparr>) pool, Some (last fds))
         else (pool, conn))"

text \<open>The second component is the descriptor that is closed.\<close>

definition upstream_put_connection ::
  "upstream_pool \<Rightarrow> nat option \<Rightarrow> int \<Rightarrow> upstream_pool \<times> int option" where
  "upstream_put_connection pool be fd =
     (case be of
        None \<Rightarrow> (pool, Some fd)
      | Some i \<Rightarrow>
          (let fds = ub_idle_fds (up_backends pool ! i)
           in if int (length fds) < up_keepalive_conns pool \<and> length fds < 64
              then (upd_backend i (\<lambda>b. b\<lparr>ub_idle_fds := fds @ [fd]\<rparr>) pool, None)
              else (pool, Some fd)))"

section \<open>Balancers\<close>

text \<open>
  What the pool relies on: a balancer picks a healthy backend, finds one whenever there is
  one, and leaves the backends as they are.
\<close>

locale balancer =
  fixes pick :: "upstream_pool \<Rightarrow> upstream_pool \<times> nat option"
    and invar :: "upstream_pool \<Rightarrow> bool"
  assumes pick_healthy: "invar p \<Longrightarrow> pick p = (p', Some i) \<Longrightarrow>
      i < length (up_backends p) \<and> ub_healthy (up_backends p ! i)"
    and pick_none: "invar p \<Longrightarrow> snd (pick p) = None \<Longrightarrow> \<forall>b \<in> set (up_backends p). \<not> ub_healthy b"
    and pick_frame: "up_backends (fst (pick p)) = up_backends p"
begin

definition chosen :: "upstream_pool \<Rightarrow> upstream_pool \<times> nat option" where
  "chosen p =
     (case pick p of
        (p', None) \<Rightarrow> (p', None)
      | (p', Some i) \<Rightarrow> (upd_backend i (\<lambda>b. b\<lparr>ub_active_conns := ub_active_conns b + 1\<rparr>) p', Some i))"

lemma chosen_some:
  assumes "invar p" "chosen p = (p', Some i)"
  shows "i < length (up_backends p) \<and> ub_healthy (up_backends p ! i) \<and>
     up_backends p' = (up_backends p)[i := (up_backends p ! i)\<lparr>ub_active_conns :=
       ub_active_conns (up_backends p ! i) + 1\<rparr>]"
  using assms pick_healthy [OF assms(1)] pick_frame [of p]
  by (auto simp: chosen_def upd_backend_def split: prod.splits option.splits)

lemma chosen_none_iff:
  assumes "invar p"
  shows "snd (chosen p) = None \<longleftrightarrow> (\<forall>b \<in> set (up_backends p). \<not> ub_healthy b)"
proof
  assume "snd (chosen p) = None"
  then have "snd (pick p) = None" by (auto simp: chosen_def split: prod.splits option.splits)
  then show "\<forall>b \<in> set (up_backends p). \<not> ub_healthy b" by (rule pick_none [OF assms])
next
  assume none: "\<forall>b \<in> set (up_backends p). \<not> ub_healthy b"
  show "snd (chosen p) = None"
  proof (cases "snd (chosen p)")
    case (Some i)
    then obtain p' where "chosen p = (p', Some i)" by (metis surjective_pairing)
    from chosen_some [OF assms this] none have False by (meson nth_mem)
    then show ?thesis ..
  qed simp
qed

lemma chosen_none_frame: "chosen p = (p', None) \<Longrightarrow> up_backends p' = up_backends p"
  using pick_frame [of p] by (auto simp: chosen_def split: prod.splits option.splits)

lemma chosen_spec:
  assumes "invar p"
  shows "case chosen p of
     (p', None) \<Rightarrow> up_backends p' = up_backends p \<and> (\<forall>b \<in> set (up_backends p). \<not> ub_healthy b)
   | (p', Some i) \<Rightarrow> i < length (up_backends p) \<and> ub_healthy (up_backends p ! i) \<and>
       up_backends p' = (up_backends p)[i := (up_backends p ! i)\<lparr>ub_active_conns :=
         ub_active_conns (up_backends p ! i) + 1\<rparr>]"
proof -
  obtain p' r where r: "chosen p = (p', r)" by fastforce
  show ?thesis
  proof (cases r)
    case None
    then show ?thesis
      using r chosen_none_frame [of p p'] chosen_none_iff [OF assms] by simp
  next
    case (Some i)
    then show ?thesis using r chosen_some [OF assms, of p' i] by simp
  qed
qed

end

lemma rr_loop_some:
  assumes "rr_loop bs start i k = Some idx" "bs \<noteq> []"
  shows "idx < length bs" "ub_healthy (bs ! idx)"
  using assms by (induction bs start i k rule: rr_loop.induct) (auto simp: Let_def split: if_splits)

lemma rr_loop_none_iff:
  "rr_loop bs start i k = None \<longleftrightarrow> (\<forall>j < k. \<not> ub_healthy (bs ! ((start + i + j) mod length bs)))"
proof (induction bs start i k rule: rr_loop.induct)
  case (1 bs start i)
  then show ?case by simp
next
  case (2 bs start i k)
  have "(\<forall>j < Suc k. \<not> ub_healthy (bs ! ((start + i + j) mod length bs))) \<longleftrightarrow>
      \<not> ub_healthy (bs ! ((start + i) mod length bs)) \<and>
      (\<forall>j < k. \<not> ub_healthy (bs ! ((start + (i + 1) + j) mod length bs)))"
    by (simp add: All_less_Suc2)
  then show ?case using 2 by (simp add: Let_def)
qed

text \<open>The positions that the loop visits are all positions.\<close>

lemma rotation_covers:
  assumes "j < (n :: nat)"
  shows "\<exists>k < n. (start + k) mod n = j"
proof -
  let ?d = "j + (n - start mod n)"
  have lt: "start mod n < n" using assms by simp
  have "(start + ?d mod n) mod n = (start mod n + ?d) mod n"
    by (simp only: mod_add_left_eq mod_add_right_eq)
  also have "start mod n + ?d = j + n" using lt by simp
  also have "(j + n) mod n = j" using assms by simp
  finally show ?thesis using assms by (intro exI [of _ "?d mod n"]) simp
qed

text \<open>
  The loop of the least connections balancer: what holds of the best backend so far after
  the backends \<open>xs\<close>.
\<close>

definition lc_inv :: "upstream_backend list \<Rightarrow> nat option \<Rightarrow> int \<Rightarrow> bool" where
  "lc_inv xs best m =
     (case best of
        None \<Rightarrow> m = INT_MAX \<and> (\<forall>j < length xs. ub_healthy (xs ! j) \<longrightarrow> INT_MAX \<le> ub_active_conns (xs ! j))
      | Some k \<Rightarrow> k < length xs \<and> ub_healthy (xs ! k) \<and> ub_active_conns (xs ! k) = m \<and> m < INT_MAX \<and>
          (\<forall>j < length xs. ub_healthy (xs ! j) \<longrightarrow> m \<le> ub_active_conns (xs ! j)) \<and>
          (\<forall>j < k. ub_healthy (xs ! j) \<longrightarrow> m < ub_active_conns (xs ! j)))"

lemma lc_inv_skip:
  assumes "lc_inv xs best m" "ub_healthy be \<Longrightarrow> m \<le> ub_active_conns be"
  shows "lc_inv (xs @ [be]) best m"
  using assms by (auto simp: lc_inv_def nth_append less_Suc_eq split: option.splits)

lemma lc_inv_take:
  assumes "lc_inv xs best m" "ub_healthy be" "ub_active_conns be < m"
  shows "lc_inv (xs @ [be]) (Some (length xs)) (ub_active_conns be)"
  using assms by (fastforce simp: lc_inv_def nth_append less_Suc_eq split: option.splits)

lemma lc_loop_inv:
  "lc_inv xs best m \<Longrightarrow> \<exists>m'. lc_inv (xs @ bs) (lc_loop bs (length xs) best m) m'"
proof (induction bs arbitrary: xs best m)
  case Nil
  then show ?case by auto
next
  case (Cons be bs)
  consider (skip) "ub_healthy be \<Longrightarrow> m \<le> ub_active_conns be" | (take) "ub_healthy be" "ub_active_conns be < m"
    by linarith
  then show ?case
  proof cases
    case skip
    then have "lc_loop (be # bs) (length xs) best m = lc_loop bs (length (xs @ [be])) best m" by auto
    with Cons.IH [OF lc_inv_skip [OF Cons.prems skip]] show ?thesis by simp
  next
    case take
    with Cons.IH [OF lc_inv_take [OF Cons.prems take]] show ?thesis by simp
  qed
qed

lemma lc_loop_result: "\<exists>m. lc_inv bs (lc_loop bs 0 None INT_MAX) m"
  using lc_loop_inv [of "[]" None INT_MAX bs] by (simp add: lc_inv_def)

definition pool_ok :: "upstream_pool \<Rightarrow> bool" where
  "pool_ok p \<longleftrightarrow> (\<forall>b \<in> set (up_backends p). ub_active_conns b < INT_MAX)"

interpretation rr: balancer balancer_round_robin "\<lambda>p. up_backends p \<noteq> []"
proof unfold_locales
  fix p p' i
  assume "up_backends p \<noteq> []" "balancer_round_robin p = (p', Some i)"
  then show "i < length (up_backends p) \<and> ub_healthy (up_backends p ! i)"
    using rr_loop_some by (auto simp: balancer_round_robin_def Let_def split: option.splits)
next
  fix p
  assume "snd (balancer_round_robin p) = None"
  then have none: "rr_loop (up_backends p) (up_rr_index p) 0 (length (up_backends p)) = None"
    by (auto simp: balancer_round_robin_def Let_def split: option.splits)
  have "\<not> ub_healthy (up_backends p ! j)" if "j < length (up_backends p)" for j
    using rotation_covers [OF that, of "up_rr_index p"] none by (auto simp: rr_loop_none_iff)
  then show "\<forall>b \<in> set (up_backends p). \<not> ub_healthy b" by (metis in_set_conv_nth)
next
  fix p
  show "up_backends (fst (balancer_round_robin p)) = up_backends p"
    by (simp add: balancer_round_robin_def Let_def split: option.splits)
qed

interpretation lc: balancer balancer_least_conn pool_ok
proof unfold_locales
  fix p p' i
  assume "balancer_least_conn p = (p', Some i)"
  then show "i < length (up_backends p) \<and> ub_healthy (up_backends p ! i)"
    using lc_loop_result [of "up_backends p"] by (auto simp: balancer_least_conn_def lc_inv_def)
next
  fix p
  assume ok: "pool_ok p" and "snd (balancer_least_conn p) = None"
  then have "\<forall>j < length (up_backends p). ub_healthy (up_backends p ! j) \<longrightarrow>
      INT_MAX \<le> ub_active_conns (up_backends p ! j)"
    using lc_loop_result [of "up_backends p"] by (auto simp: balancer_least_conn_def lc_inv_def)
  with ok show "\<forall>b \<in> set (up_backends p). \<not> ub_healthy b"
    by (force simp: pool_ok_def in_set_conv_nth)
qed (simp add: balancer_least_conn_def)

lemma upstream_select_chosen:
  assumes "up_backends p \<noteq> []"
  shows "upstream_select p = (if up_mode p = BALANCE_LEAST_CONN then lc.chosen p else rr.chosen p)"
  using assms by (simp add: upstream_select_def lc.chosen_def rr.chosen_def split: prod.splits option.splits)

text \<open>C9: Selecting an upstream, in either mode, returns a healthy backend whenever there is
  one and nothing otherwise; it counts one more active connection at the backend it
  returns and changes nothing else of any backend.\<close>

theorem upstream_select_healthy:
  assumes "pool_ok p"
  shows "case upstream_select p of
     (p', None) \<Rightarrow> up_backends p' = up_backends p \<and> (\<forall>b \<in> set (up_backends p). \<not> ub_healthy b)
   | (p', Some i) \<Rightarrow> i < length (up_backends p) \<and> ub_healthy (up_backends p ! i) \<and>
       up_backends p' = (up_backends p)[i := (up_backends p ! i)\<lparr>ub_active_conns :=
         ub_active_conns (up_backends p ! i) + 1\<rparr>]"
proof (cases "up_backends p = []")
  case True
  then show ?thesis by (simp add: upstream_select_def)
next
  case False
  show ?thesis
    unfolding upstream_select_chosen [OF False]
    using lc.chosen_spec [OF assms] rr.chosen_spec [OF False] by (simp split: if_split)
qed


text \<open>A backend with the given number of active connections and health, for the examples.\<close>

definition example_backend :: "int \<Rightarrow> bool \<Rightarrow> upstream_backend" where
  "example_backend n h = \<lparr>ub_host = ''h'', ub_port = 80, ub_active_conns = n, ub_total_requests = 0,
     ub_error_count = (if h then 0 else 6), ub_healthy = h, ub_idle_fds = []\<rparr>"

definition example_pool :: "balance_mode_t \<Rightarrow> upstream_pool" where
  "example_pool mode = \<lparr>up_backends = [example_backend 3 True, example_backend 0 False, example_backend 1 True],
     up_rr_index = 1, up_mode = mode, up_keepalive_conns = 16\<rparr>"

theorem upstream_select_healthy_witness:
  "\<exists>p'. upstream_select (example_pool BALANCE_LEAST_CONN) = (p', Some 2) \<and>
     map ub_active_conns (up_backends p') = [3, 0, 2]"
proof -
  have 1: "pool_ok (example_pool BALANCE_LEAST_CONN)"
    by (simp add: pool_ok_def example_pool_def example_backend_def)
  obtain p' where 2: "upstream_select (example_pool BALANCE_LEAST_CONN) = (p', Some 2)"
    by (simp add: upstream_select_def balancer_least_conn_def example_pool_def example_backend_def numeral_2_eq_2)
  with upstream_select_healthy [OF 1] show ?thesis
    by (simp add: example_pool_def example_backend_def)
qed

section \<open>Fairness\<close>

fun select_n :: "nat \<Rightarrow> upstream_pool \<Rightarrow> upstream_pool \<times> nat option list" where
  "select_n 0 p = (p, [])"
| "select_n (Suc n) p =
     (let (p1, r) = upstream_select p; (p2, rs) = select_n n p1 in (p2, r # rs))"

lemma rr_select_all_healthy:
  assumes "up_backends p \<noteq> []" "\<forall>b \<in> set (up_backends p). ub_healthy b" "up_mode p = BALANCE_ROUND_ROBIN"
  defines "i \<equiv> up_rr_index p mod length (up_backends p)"
  shows "\<exists>q. upstream_select p = (q, Some i) \<and> length (up_backends q) = length (up_backends p) \<and>
     (\<forall>b \<in> set (up_backends q). ub_healthy b) \<and> up_mode q = BALANCE_ROUND_ROBIN \<and>
     up_rr_index q = (i + 1) mod length (up_backends p)"
proof -
  have i: "i < length (up_backends p)" using assms(1) by (simp add: i_def)
  then have "ub_healthy (up_backends p ! i)" using assms(2) by simp
  then have "rr_loop (up_backends p) (up_rr_index p) 0 (length (up_backends p)) = Some i"
    using i by (cases "length (up_backends p)") (simp_all add: i_def)
  then have "balancer_round_robin p = (p\<lparr>up_rr_index := (i + 1) mod length (up_backends p)\<rparr>, Some i)"
    by (simp add: balancer_round_robin_def Let_def)
  moreover have "\<forall>b \<in> set ((up_backends p)[i := (up_backends p ! i)\<lparr>ub_active_conns := n\<rparr>]). ub_healthy b" for n
    using assms(2) i by (auto dest!: set_update_subset_insert [THEN subsetD])
  ultimately show ?thesis
    using assms(1,3) by (simp add: upstream_select_def upd_backend_def)
qed

text \<open>C37: While all backends are healthy the round robin mode takes them in turn: the \<open>j\<close>-th
  selection from any state gives the backend \<open>j\<close> positions after the current one, modulo
  the number of backends, so that each gets every \<open>count\<close>-th request.\<close>

theorem round_robin_in_turn:
  assumes "up_backends p \<noteq> []" "\<forall>b \<in> set (up_backends p). ub_healthy b" "up_mode p = BALANCE_ROUND_ROBIN"
  shows "snd (select_n m p) =
     map (\<lambda>j. Some ((up_rr_index p + j) mod length (up_backends p))) [0..<m]"
  using assms
proof (induction m arbitrary: p)
  case 0
  then show ?case by simp
next
  case (Suc m)
  let ?c = "length (up_backends p)"
  from rr_select_all_healthy [OF Suc.prems] obtain q where
    q: "upstream_select p = (q, Some (up_rr_index p mod ?c))" "length (up_backends q) = ?c"
      "\<forall>b \<in> set (up_backends q). ub_healthy b" "up_mode q = BALANCE_ROUND_ROBIN"
      "up_rr_index q = (up_rr_index p mod ?c + 1) mod ?c" by blast
  from q(2) Suc.prems(1) have "up_backends q \<noteq> []" by auto
  from Suc.IH [OF this q(3,4)] have
    "snd (select_n m q) = map (\<lambda>j. Some ((up_rr_index p + Suc j) mod ?c)) [0..<m]"
    by (simp add: q(2,5) mod_simps)
  then show ?case
    by (cases "select_n m q") (simp add: q(1) upt_conv_Cons map_Suc_upt [symmetric] comp_def del: upt_Suc)
qed

theorem round_robin_in_turn_witness:
  "snd (select_n 4 \<lparr>up_backends = [example_backend 0 True, example_backend 0 True, example_backend 0 True],
     up_rr_index = 1, up_mode = BALANCE_ROUND_ROBIN, up_keepalive_conns = 16\<rparr>) = [Some 1, Some 2, Some 0, Some 1]"
proof -
  let ?p = "\<lparr>up_backends = [example_backend 0 True, example_backend 0 True, example_backend 0 True],
     up_rr_index = 1, up_mode = BALANCE_ROUND_ROBIN, up_keepalive_conns = 16\<rparr>"
  have "\<forall>b \<in> set (up_backends ?p). ub_healthy b" by (simp add: example_backend_def)
  from round_robin_in_turn [OF _ this, of 4]
  have "snd (select_n 4 ?p) = map (\<lambda>j. Some ((1 + j) mod 3)) [0..<4]" by (simp del: upt_Suc select_n.simps)
  also have "\<dots> = [Some 1, Some 2, Some 0, Some 1]" by (simp add: upt_conv_Cons)
  finally show ?thesis .
qed

text \<open>The least connections mode returns the first of the healthy backends that have the
  fewest active connections.\<close>

theorem least_conn_minimal:
  assumes "snd (balancer_least_conn p) = Some i"
  shows "i < length (up_backends p) \<and> ub_healthy (up_backends p ! i) \<and>
     (\<forall>j < length (up_backends p). ub_healthy (up_backends p ! j) \<longrightarrow>
        ub_active_conns (up_backends p ! i) \<le> ub_active_conns (up_backends p ! j) \<and>
        (j < i \<longrightarrow> ub_active_conns (up_backends p ! i) < ub_active_conns (up_backends p ! j)))"
  using assms lc_loop_result [of "up_backends p"] by (auto simp: balancer_least_conn_def lc_inv_def)

theorem least_conn_minimal_witness:
  "snd (balancer_least_conn (example_pool BALANCE_LEAST_CONN)) = Some 2 \<and>
   ub_active_conns (up_backends (example_pool BALANCE_LEAST_CONN) ! 2)
     < ub_active_conns (up_backends (example_pool BALANCE_LEAST_CONN) ! 0)"
proof -
  let ?p = "example_pool BALANCE_LEAST_CONN"
  have 1: "snd (balancer_least_conn ?p) = Some 2"
    by (simp add: balancer_least_conn_def example_pool_def example_backend_def numeral_2_eq_2)
  have 2: "length (up_backends ?p) = 3" "ub_healthy (up_backends ?p ! 0)"
    by (simp_all add: example_pool_def example_backend_def)
  show ?thesis using least_conn_minimal [OF 1] 1 2 by simp
qed

section \<open>The life of a pool\<close>

inductive pool_step :: "upstream_pool \<Rightarrow> upstream_pool \<Rightarrow> bool" where
  select: "pool_step p (fst (upstream_select p))"
| release: "pool_step p (upstream_release p be err)"
| get: "pool_step p (fst (upstream_get_connection p i conn))"
| put: "pool_step p (fst (upstream_put_connection p be fd))"

definition backend_ok :: "upstream_backend \<Rightarrow> bool" where
  "backend_ok b \<longleftrightarrow> 0 \<le> ub_active_conns b \<and> 0 \<le> ub_error_count b \<and> length (ub_idle_fds b) \<le> 64 \<and>
     (\<not> ub_healthy b \<longrightarrow> 5 < ub_error_count b)"

definition pool_inv :: "upstream_pool \<Rightarrow> bool" where
  "pool_inv p \<longleftrightarrow> list_all backend_ok (up_backends p)"

text \<open>Every step changes at most one backend, and only by one of these functions.\<close>

definition benign :: "(upstream_backend \<Rightarrow> upstream_backend) \<Rightarrow> bool" where
  "benign f \<longleftrightarrow> (\<forall>b. backend_ok b \<longrightarrow> backend_ok (f b) \<and> (\<not> ub_healthy b \<longrightarrow> \<not> ub_healthy (f b)))"

lemma benign_release: "benign (release_backend err)"
  by (auto simp: benign_def backend_ok_def release_backend_def Let_def)

definition one_change :: "upstream_pool \<Rightarrow> upstream_pool \<Rightarrow> bool" where
  "one_change p q \<longleftrightarrow> (\<exists>i f. benign f \<and> up_backends q = (up_backends p)[i := f (up_backends p ! i)])"

lemma one_change_same: "up_backends q = up_backends p \<Longrightarrow> one_change p q"
  unfolding one_change_def by (rule exI [of _ 0], rule exI [of _ "\<lambda>b. b"]) (simp add: benign_def)

lemma one_change_upd: "benign f \<Longrightarrow> one_change p (upd_backend i f p)"
  by (auto simp: one_change_def upd_backend_def)

lemma pool_step_benign:
  assumes "pool_step p q"
  shows "one_change p q"
  using assms
proof cases
  case select
  have inc: "benign (\<lambda>b. b\<lparr>ub_active_conns := ub_active_conns b + 1\<rparr>)"
    by (auto simp: benign_def backend_ok_def)
  have "up_backends q = up_backends p \<or> (\<exists>i. up_backends q = (up_backends p)[i :=
      (up_backends p ! i)\<lparr>ub_active_conns := ub_active_conns (up_backends p ! i) + 1\<rparr>])"
    using select rr.pick_frame [of p] lc.pick_frame [of p]
    by (auto simp: upstream_select_def upd_backend_def split: prod.splits option.splits if_splits)
  then show ?thesis using one_change_same inc by (auto simp: one_change_def)
next
  case (release be err)
  then show ?thesis
    by (cases be) (simp_all add: upstream_release_def one_change_same one_change_upd benign_release)
next
  case (get i conn)
  have "benign (\<lambda>b. b\<lparr>ub_idle_fds := butlast (ub_idle_fds b)\<rparr>)"
    by (auto simp: benign_def backend_ok_def)
  then have "one_change p (upd_backend i (\<lambda>b. b\<lparr>ub_idle_fds := butlast (ub_idle_fds b)\<rparr>) p)"
    by (rule one_change_upd)
  then show ?thesis
    using get by (auto simp: upstream_get_connection_def upd_backend_def Let_def one_change_same)
next
  case (put be fd)
  let ?f = "\<lambda>b. if length (ub_idle_fds b) < 64 then b\<lparr>ub_idle_fds := ub_idle_fds b @ [fd]\<rparr> else b"
  have "benign ?f" by (auto simp: benign_def backend_ok_def)
  then have change: "one_change p (upd_backend i ?f p)" for i by (rule one_change_upd)
  show ?thesis
  proof (cases be)
    case None
    then show ?thesis using put by (simp add: upstream_put_connection_def one_change_same)
  next
    case (Some i)
    then show ?thesis
      using put change [of i]
      by (auto simp: upstream_put_connection_def upd_backend_def Let_def one_change_same split: if_splits)
  qed
qed

lemma one_change_inv:
  assumes "one_change p q" "pool_inv p"
  shows "pool_inv q \<and> length (up_backends q) = length (up_backends p) \<and>
     (\<forall>i < length (up_backends p). \<not> ub_healthy (up_backends p ! i) \<longrightarrow> \<not> ub_healthy (up_backends q ! i))"
proof -
  from assms(1) obtain i f where f: "benign f" "up_backends q = (up_backends p)[i := f (up_backends p ! i)]"
    by (auto simp: one_change_def)
  have ok: "backend_ok (up_backends p ! j)" if "j < length (up_backends p)" for j
    using assms(2) that by (simp add: pool_inv_def list_all_length)
  have "(up_backends q) ! j = (if j = i then f (up_backends p ! j) else up_backends p ! j)"
    if "j < length (up_backends p)" for j
    using that by (simp add: f(2) nth_list_update)
  moreover have "length (up_backends q) = length (up_backends p)" by (simp add: f(2))
  ultimately show ?thesis
    using f(1) ok by (simp add: pool_inv_def list_all_length benign_def)
qed

lemma pool_create_inv: "upstream_pool_create cfg m = Some p \<Longrightarrow> pool_inv p"
  by (auto simp: upstream_pool_create_def pool_inv_def backend_of_def backend_ok_def list_all_iff split: if_splits)

lemma pool_steps_inv:
  assumes "pool_step\<^sup>*\<^sup>* p q" "pool_inv p"
  shows "pool_inv q \<and> length (up_backends q) = length (up_backends p) \<and>
     (\<forall>i < length (up_backends p). \<not> ub_healthy (up_backends p ! i) \<longrightarrow> \<not> ub_healthy (up_backends q ! i))"
  using assms
proof (induction rule: rtranclp_induct)
  case base
  then show ?case by simp
next
  case (step q r)
  then show ?case using one_change_inv [OF pool_step_benign [OF step(2)]] by simp
qed


text \<open>A backend that was taken out of use after errors is never used again: no sequence of
  operations on the pool makes it healthy, since nothing ever resets its error count.\<close>

theorem unhealthy_forever:
  assumes "upstream_pool_create cfg m = Some p" and "pool_step\<^sup>*\<^sup>* p q" and "pool_step\<^sup>*\<^sup>* q r"
    and "i < length (up_backends q)" and "\<not> ub_healthy (up_backends q ! i)"
  shows "i < length (up_backends r) \<and> \<not> ub_healthy (up_backends r ! i)"
  using pool_steps_inv [OF assms(2) pool_create_inv [OF assms(1)]] pool_steps_inv [OF assms(3)] assms(4,5)
  by simp

definition example_server :: np_server_config_t where
  "example_server = server_zero\<lparr>srv_proxy := (srv_proxy server_zero)\<lparr>px_backends :=
     [\<lparr>be_host = ''h'', be_port = 80, be_enabled = True\<rparr>]\<rparr>\<rparr>"

text \<open>Six errors take the only backend out of use.\<close>

lemma example_unhealthy:
  "\<exists>p q. upstream_pool_create example_server True = Some p \<and> pool_step\<^sup>*\<^sup>* p q \<and>
     length (up_backends q) = 1 \<and> \<not> ub_healthy (up_backends q ! 0)"
proof -
  define rel where "rel p = upstream_release p (Some 0) True" for p
  obtain p where p: "upstream_pool_create example_server True = Some p"
    "up_backends p = [backend_of \<lparr>be_host = ''h'', be_port = 80, be_enabled = True\<rparr>]"
    by (simp add: upstream_pool_create_def example_server_def)
  have step: "pool_step q (rel q)" for q unfolding rel_def by (rule pool_step.release)
  have "pool_step\<^sup>*\<^sup>* p (rel (rel (rel (rel (rel (rel p))))))"
    by (meson step rtranclp.rtrancl_into_rtrancl rtranclp.rtrancl_refl)
  moreover have "length (up_backends (rel (rel (rel (rel (rel (rel p))))))) = 1"
    "\<not> ub_healthy (up_backends (rel (rel (rel (rel (rel (rel p)))))) ! 0)"
    by (simp_all add: rel_def upstream_release_def upd_backend_def p(2) release_backend_def backend_of_def Let_def)
  ultimately show ?thesis using p(1) by blast
qed


theorem unhealthy_forever_witness:
  "\<exists>p q. upstream_pool_create example_server True = Some p \<and> pool_step\<^sup>*\<^sup>* p q \<and>
     \<not> ub_healthy (up_backends (upstream_release q (Some 0) False) ! 0)"
proof -
  obtain p q where pq: "upstream_pool_create example_server True = Some p" "pool_step\<^sup>*\<^sup>* p q"
    "length (up_backends q) = 1" "\<not> ub_healthy (up_backends q ! 0)" using example_unhealthy by blast
  have "pool_step\<^sup>*\<^sup>* q (upstream_release q (Some 0) False)"
    by (intro r_into_rtranclp pool_step.release)
  from unhealthy_forever [OF pq(1,2) this, of 0] pq show ?thesis by auto
qed

section \<open>Idle connections\<close>

lemma get_put:
  assumes "i < length (up_backends p)" "upstream_put_connection p (Some i) fd = (q, None)"
  shows "upstream_get_connection q i conn = (p, Some fd)"
  using assms
  by (auto simp: upstream_put_connection_def upstream_get_connection_def upd_backend_def Let_def split: if_splits)

end
