(* ===== verification/Rate_Limit.thy ===== *)
theory Rate_Limit
  imports Config
begin

text \<open>
  The per-address token buckets of \<^verbatim>\<open>src/src/features/rate_limit.c\<close>. Tokens, rate and burst
  are \<^verbatim>\<open>double\<close>s that only ever hold whole numbers: rate and burst come from \<^verbatim>\<open>int\<close>s, the
  elapsed time is a difference of whole seconds, and a product too large to be exact
  exceeds the burst and is cut down to it. They are integers here. The clock is an argument.

  The lemmas bound the requests that are let through in any period, show that a client that
  keeps to one request a second is never refused, and that two addresses that share a slot
  of the table evade the limit.
\<close>

section \<open>Model\<close>

abbreviation RL_TABLE_SIZE :: u32 where "RL_TABLE_SIZE \<equiv> 4096"

record rl_bucket_t =
  rl_ip :: string
  rl_tokens :: int
  rl_last_refill :: int
  rl_used :: bool

record rate_limiter =
  rl_table :: "nat \<Rightarrow> rl_bucket_t"
  rl_rate :: int
  rl_burst :: int

fun hash_loop :: "u32 \<Rightarrow> string \<Rightarrow> u32" where
  "hash_loop h [] = h"
| "hash_loop h (c # s) = hash_loop ((h XOR of_char c) * 16777619) s"

definition ip_hash :: "string \<Rightarrow> u32" where
  "ip_hash ip = hash_loop 2166136261 ip"

definition rate_limiter_create :: "np_config_t \<Rightarrow> bool \<Rightarrow> rate_limiter option" where
  "rate_limiter_create cfg m =
     (if \<not> m then None
      else Some \<lparr>rl_table = (\<lambda>i. \<lparr>rl_ip = [], rl_tokens = 0, rl_last_refill = 0, rl_used = False\<rparr>),
        rl_rate = c_rl_requests_per_second cfg, rl_burst = c_rl_burst cfg\<rparr>)"

definition rl_slot :: "string \<Rightarrow> nat" where
  "rl_slot ip = unat (ip_hash ip mod RL_TABLE_SIZE)"

definition rate_limit_check :: "rate_limiter \<Rightarrow> string \<Rightarrow> int \<Rightarrow> rate_limiter \<times> np_status_t" where
  "rate_limit_check rl ip now =
     (let b = rl_table rl (rl_slot ip);
          b = (if \<not> rl_used b \<or> rl_ip b \<noteq> ip
               then b\<lparr>rl_ip := strncpy 15 ip, rl_tokens := rl_burst rl, rl_last_refill := now, rl_used := True\<rparr>
               else b);
          elapsed = now - rl_last_refill b;
          b = b\<lparr>rl_tokens := rl_tokens b + elapsed * rl_rate rl\<rparr>;
          b = (if rl_tokens b > rl_burst rl then b\<lparr>rl_tokens := rl_burst rl\<rparr> else b);
          b = b\<lparr>rl_last_refill := now\<rparr>
      in if rl_tokens b < 1 then (rl\<lparr>rl_table := (rl_table rl)(rl_slot ip := b)\<rparr>, NP_ERR)
         else (rl\<lparr>rl_table := (rl_table rl)(rl_slot ip := b\<lparr>rl_tokens := rl_tokens b - 1\<rparr>)\<rparr>, NP_OK))"

text \<open>A run of checks, each with its time and address; the results in order.\<close>

fun rl_run :: "rate_limiter \<Rightarrow> (int \<times> string) list \<Rightarrow> rate_limiter \<times> np_status_t list" where
  "rl_run rl [] = (rl, [])"
| "rl_run rl ((t, ip) # reqs) =
     (let (rl1, r) = rate_limit_check rl ip t; (rl2, rs) = rl_run rl1 reqs in (rl2, r # rs))"

lemma rl_run_Cons [simp]:
  "fst (rl_run rl ((t, ip) # reqs)) = fst (rl_run (fst (rate_limit_check rl ip t)) reqs)"
  "snd (rl_run rl ((t, ip) # reqs)) =
     snd (rate_limit_check rl ip t) # snd (rl_run (fst (rate_limit_check rl ip t)) reqs)"
  by (simp_all split: prod.splits)

declare rl_run.simps(2) [simp del]

section \<open>One bucket\<close>

text \<open>An address of at most 15 characters, as \<^verbatim>\<open>inet_ntop\<close> writes it, fills the array it is copied to.\<close>

definition ip_ok :: "string \<Rightarrow> bool" where
  "ip_ok ip \<longleftrightarrow> length ip \<le> 15 \<and> CHR 0x00 \<notin> set ip"

lemma strncpy_ip [simp]: "ip_ok ip \<Longrightarrow> strncpy 15 ip = ip"
  by (simp add: ip_ok_def strncpy_ident)

lemma rl_slot_less: "rl_slot ip < 4096"
  using word_mod_less_divisor [of RL_TABLE_SIZE "ip_hash ip"]
  by (simp add: rl_slot_def word_less_nat_alt unat_mod_distrib)

definition owns :: "rate_limiter \<Rightarrow> string \<Rightarrow> bool" where
  "owns rl ip \<longleftrightarrow> rl_used (rl_table rl (rl_slot ip)) \<and> rl_ip (rl_table rl (rl_slot ip)) = ip"

text \<open>The tokens of an address at a time, before a request is taken from them.\<close>

definition tokens_at :: "rate_limiter \<Rightarrow> string \<Rightarrow> int \<Rightarrow> int" where
  "tokens_at rl ip t =
     (if owns rl ip
      then min (rl_burst rl) (rl_tokens (rl_table rl (rl_slot ip)) + (t - rl_last_refill (rl_table rl (rl_slot ip))) * rl_rate rl)
      else rl_burst rl)"

lemma check_result: "snd (rate_limit_check rl ip t) = (if tokens_at rl ip t < 1 then NP_ERR else NP_OK)"
  by (auto simp: rate_limit_check_def tokens_at_def owns_def Let_def min_def)

lemma check_bucket:
  assumes "ip_ok ip"
  shows "rl_table (fst (rate_limit_check rl ip t)) (rl_slot ip) =
     \<lparr>rl_ip = ip, rl_tokens = (if tokens_at rl ip t < 1 then tokens_at rl ip t else tokens_at rl ip t - 1),
      rl_last_refill = t, rl_used = True\<rparr>"
  using assms by (auto simp: rate_limit_check_def tokens_at_def owns_def Let_def min_def)

lemma check_frame:
  "rl_rate (fst (rate_limit_check rl ip t)) = rl_rate rl"
  "rl_burst (fst (rate_limit_check rl ip t)) = rl_burst rl"
  "i \<noteq> rl_slot ip \<Longrightarrow> rl_table (fst (rate_limit_check rl ip t)) i = rl_table rl i"
  by (simp_all add: rate_limit_check_def Let_def)

lemma check_owns: "ip_ok ip \<Longrightarrow> owns (fst (rate_limit_check rl ip t)) ip"
  by (simp add: owns_def check_bucket)

text \<open>The tokens at a later time, after a request was checked.\<close>

lemma tokens_after:
  assumes "ip_ok ip"
  shows "tokens_at (fst (rate_limit_check rl ip t)) ip u =
     min (rl_burst rl) ((if tokens_at rl ip t < 1 then tokens_at rl ip t else tokens_at rl ip t - 1) + (u - t) * rl_rate rl)"
  using check_owns [OF assms, of rl t]
  by (simp add: tokens_at_def [of "fst (rate_limit_check rl ip t)"] check_bucket [OF assms] check_frame)

lemma tokens_after_other:
  "rl_slot ip' \<noteq> rl_slot ip \<Longrightarrow> tokens_at (fst (rate_limit_check rl ip' t)) ip u = tokens_at rl ip u"
  by (simp add: tokens_at_def owns_def check_frame)

section \<open>The limit\<close>

text \<open>How many requests of an address a run lets through.\<close>

definition accepted :: "string \<Rightarrow> (int \<times> string) list \<Rightarrow> np_status_t list \<Rightarrow> nat" where
  "accepted ip reqs rs = length (filter (\<lambda>((t, a), r). a = ip \<and> r = NP_OK) (zip reqs rs))"

lemma accepted_Nil [simp]: "accepted ip [] rs = 0"
  by (simp add: accepted_def)

lemma accepted_Cons [simp]:
  "accepted ip ((t, a) # reqs) (r # rs) = (if a = ip \<and> r = NP_OK then 1 else 0) + accepted ip reqs rs"
  by (simp add: accepted_def)

text \<open>No other address of the run falls into the slot of \<open>ip\<close>.\<close>

definition alone :: "string \<Rightarrow> (int \<times> string) list \<Rightarrow> bool" where
  "alone ip reqs \<longleftrightarrow> (\<forall>(t, a) \<in> set reqs. rl_slot a = rl_slot ip \<longrightarrow> a = ip)"

lemma tokens_at_mono:
  assumes "0 \<le> rl_rate rl" "t \<le> u"
  shows "tokens_at rl ip u \<le> tokens_at rl ip t + (u - t) * rl_rate rl"
proof -
  let ?b = "rl_table rl (rl_slot ip)"
  have "(u - rl_last_refill ?b) * rl_rate rl = (t - rl_last_refill ?b) * rl_rate rl + (u - t) * rl_rate rl"
    by (simp add: algebra_simps)
  moreover have "0 \<le> (u - t) * rl_rate rl" using assms by simp
  ultimately show ?thesis by (simp add: tokens_at_def min_def)
qed

lemma tokens_at_nonneg:
  assumes "0 \<le> rl_rate rl" "t \<le> u" "0 \<le> tokens_at rl ip t"
  shows "0 \<le> tokens_at rl ip u"
proof -
  have "(t - x) * rl_rate rl \<le> (u - x) * rl_rate rl" for x
    using assms(1,2) by (intro mult_right_mono) simp_all
  then have "tokens_at rl ip t \<le> tokens_at rl ip u"
    by (auto simp: tokens_at_def intro: min.coboundedI2 order_trans)
  with assms(3) show ?thesis by simp
qed

lemma run_bound:
  assumes "ip_ok ip" "alone ip reqs" "0 \<le> rl_rate rl" "0 \<le> rl_burst rl"
    and "sorted (t0 # map fst reqs)" "t1 = last (t0 # map fst reqs)" "0 \<le> tokens_at rl ip t0"
  shows "int (accepted ip reqs (snd (rl_run rl reqs))) \<le> tokens_at rl ip t0 + (t1 - t0) * rl_rate rl"
  using assms
proof (induction reqs arbitrary: rl t0)
  case Nil
  then show ?case by simp
next
  case (Cons req reqs)
  obtain t a where req: "req = (t, a)" by (cases req)
  let ?rl = "fst (rate_limit_check rl a t)"
  have t: "t0 \<le> t" "sorted (t # map fst reqs)" "t1 = last (t # map fst reqs)" "alone ip reqs"
    using Cons.prems(2,5,6) by (auto simp: req alone_def)
  have le: "tokens_at rl ip t \<le> tokens_at rl ip t0 + (t - t0) * rl_rate rl"
    using tokens_at_mono Cons.prems(3) t(1) by blast
  have split: "(t1 - t0) * rl_rate rl = (t - t0) * rl_rate rl + (t1 - t) * rl_rate rl"
    by (simp add: algebra_simps)
  have nn: "0 \<le> tokens_at rl ip t"
    using Cons.prems(3,7) t(1) tokens_at_nonneg by blast
  have res: "snd (rl_run rl (req # reqs)) = snd (rate_limit_check rl a t) # snd (rl_run ?rl reqs)"
    by (simp add: req)
  have acc: "accepted ip (req # reqs) (snd (rl_run rl (req # reqs))) =
      (if a = ip \<and> \<not> tokens_at rl a t < 1 then 1 else 0) + accepted ip reqs (snd (rl_run ?rl reqs))"
    unfolding res unfolding req accepted_Cons check_result by auto
  show ?case
  proof (cases "a = ip")
    case True
    have now: "tokens_at ?rl ip t = (if tokens_at rl ip t < 1 then tokens_at rl ip t else tokens_at rl ip t - 1)"
      using True tokens_after [OF Cons.prems(1), of rl t t] by (auto simp: tokens_at_def min_def)
    have "int (accepted ip reqs (snd (rl_run ?rl reqs))) \<le> tokens_at ?rl ip t + (t1 - t) * rl_rate ?rl"
      using Cons.IH [of ?rl t, OF Cons.prems(1) t(4) _ _ t(2,3)] Cons.prems(3,4) nn now by (simp add: check_frame)
    then show ?thesis
      unfolding acc using now le split True by (simp add: check_frame split: if_splits)
  next
    case False
    then have slot: "rl_slot a \<noteq> rl_slot ip" using Cons.prems(2) by (auto simp: req alone_def)
    have "int (accepted ip reqs (snd (rl_run ?rl reqs))) \<le> tokens_at ?rl ip t + (t1 - t) * rl_rate ?rl"
      using Cons.IH [of ?rl t, OF Cons.prems(1) t(4) _ _ t(2,3)] Cons.prems(3,4) nn
      by (simp add: check_frame tokens_after_other slot)
    then show ?thesis
      unfolding acc using le split False by (simp add: check_frame tokens_after_other slot)
  qed
qed

lemma run_frame:
  "rl_rate (fst (rl_run rl reqs)) = rl_rate rl" "rl_burst (fst (rl_run rl reqs)) = rl_burst rl"
proof -
  have "rl_rate (fst (rl_run rl reqs)) = rl_rate rl \<and> rl_burst (fst (rl_run rl reqs)) = rl_burst rl"
  proof (induction reqs arbitrary: rl)
    case Nil
    then show ?case by simp
  next
    case (Cons req reqs)
    obtain t a where "req = (t, a)" by (cases req)
    then show ?case
      using Cons.IH [of "fst (rate_limit_check rl a t)"]
      by (simp add: check_frame)
  qed
  then show "rl_rate (fst (rl_run rl reqs)) = rl_rate rl" "rl_burst (fst (rl_run rl reqs)) = rl_burst rl"
    by simp_all
qed

lemma run_nonneg:
  assumes "ip_ok ip" "alone ip reqs" "0 \<le> rl_rate rl" "sorted (t0 # map fst reqs @ [t1])"
    and "0 \<le> tokens_at rl ip t0"
  shows "0 \<le> tokens_at (fst (rl_run rl reqs)) ip t1"
  using assms
proof (induction reqs arbitrary: rl t0)
  case Nil
  then show ?case using tokens_at_nonneg by simp
next
  case (Cons req reqs)
  obtain t a where req: "req = (t, a)" by (cases req)
  let ?rl = "fst (rate_limit_check rl a t)"
  have t: "t0 \<le> t" "sorted (t # map fst reqs @ [t1])" "alone ip reqs"
    using Cons.prems(2,4) by (auto simp: req alone_def)
  have nn: "0 \<le> tokens_at rl ip t" using Cons.prems(3,5) t(1) tokens_at_nonneg by blast
  have "0 \<le> tokens_at ?rl ip t"
  proof (cases "a = ip")
    case True
    then show ?thesis
      using nn tokens_after [OF Cons.prems(1), of rl t t] by (auto simp: tokens_at_def min_def split: if_splits)
  next
    case False
    then have "rl_slot a \<noteq> rl_slot ip" using Cons.prems(2) by (auto simp: req alone_def)
    then show ?thesis using nn by (simp add: tokens_after_other)
  qed
  from Cons.IH [OF Cons.prems(1) t(3) _ t(2) this] Cons.prems(3) have "0 \<le> tokens_at (fst (rl_run ?rl reqs)) ip t1"
    by (simp add: check_frame)
  then show ?case by (simp add: req)
qed

lemma tokens_at_le_burst: "tokens_at rl ip t \<le> rl_burst rl"
  by (simp add: tokens_at_def)

lemma create_tokens:
  "rate_limiter_create cfg m = Some rl \<Longrightarrow> tokens_at rl ip t = c_rl_burst cfg"
  "rate_limiter_create cfg m = Some rl \<Longrightarrow> rl_rate rl = c_rl_requests_per_second cfg"
  "rate_limiter_create cfg m = Some rl \<Longrightarrow> rl_burst rl = c_rl_burst cfg"
  by (auto simp: rate_limiter_create_def tokens_at_def owns_def split: if_splits)


definition example_config :: "int \<Rightarrow> int \<Rightarrow> np_config_t" where
  "example_config rate burst = config_defaults\<lparr>c_rl_requests_per_second := rate, c_rl_burst := burst\<rparr>"


text \<open>A client that sends at most one request a second is never refused, as long as rate and
  burst are at least 1 and no other address of the run shares its slot, whatever other
  clients do.\<close>

theorem rate_limit_never_starves:
  assumes "rate_limiter_create cfg m = Some rl" "1 \<le> c_rl_requests_per_second cfg" "1 \<le> c_rl_burst cfg"
    and "ip_ok ip" "alone ip reqs" "sorted_wrt (\<lambda>(t, a) (u, b). a = ip \<and> b = ip \<longrightarrow> t < u) reqs"
  shows "accepted ip reqs (snd (rl_run rl reqs)) = length (filter (\<lambda>(t, a). a = ip) reqs)"
proof -
  have "accepted ip reqs (snd (rl_run rl reqs)) = length (filter (\<lambda>(t, a). a = ip) reqs)"
    if "1 \<le> rl_rate rl" "1 \<le> rl_burst rl" "alone ip reqs"
      "sorted_wrt (\<lambda>(t, a) (u, b). a = ip \<and> b = ip \<longrightarrow> t < u) reqs"
      "\<forall>(t, a) \<in> set reqs. a = ip \<longrightarrow> 1 \<le> tokens_at rl ip t" for rl reqs
    using that
  proof (induction reqs arbitrary: rl)
    case Nil
    then show ?case by simp
  next
    case (Cons req reqs)
    obtain t a where req: "req = (t, a)" by (cases req)
    let ?rl = "fst (rate_limit_check rl a t)"
    have al: "alone ip reqs" using Cons.prems(3) by (simp add: alone_def)
    have later: "1 \<le> tokens_at ?rl ip u" if u: "(u, ip) \<in> set reqs" for u
    proof (cases "a = ip")
      case True
      then have "t < u" "1 \<le> tokens_at rl ip t" using Cons.prems(4,5) u by (auto simp: req)
      then have "1 \<le> (u - t) * rl_rate rl" using Cons.prems(1) by (smt (verit) mult_le_cancel_right1 mult_pos_pos)
      then show ?thesis
        using \<open>1 \<le> tokens_at rl ip t\<close> True Cons.prems(2) by (simp add: tokens_after [OF assms(4)])
    next
      case False
      then have "rl_slot a \<noteq> rl_slot ip" using Cons.prems(3) by (auto simp: req alone_def)
      then show ?thesis using Cons.prems(5) u by (auto simp: tokens_after_other)
    qed
    have "snd (rl_run rl (req # reqs)) = snd (rate_limit_check rl a t) # snd (rl_run ?rl reqs)"
      by (simp add: req)
    moreover have "accepted ip reqs (snd (rl_run ?rl reqs)) = length (filter (\<lambda>(t, a). a = ip) reqs)"
      using Cons.IH [of ?rl] Cons.prems(1,2,4) al later by (auto simp: check_frame)
    ultimately show ?case
      using Cons.prems(5) by (auto simp: req check_result)
  qed
  then show ?thesis using assms create_tokens [OF assms(1)] by (simp add: split_beta)
qed

theorem rate_limit_never_starves_witness:
  "\<exists>rl. rate_limiter_create (example_config 1 1) True = Some rl \<and>
     accepted ''10.0.0.1'' [(5, ''10.0.0.1''), (6, ''10.0.0.1'')]
       (snd (rl_run rl [(5, ''10.0.0.1''), (6, ''10.0.0.1'')])) = 2"
proof -
  let ?ip = "''10.0.0.1''" and ?cfg = "example_config 1 1"
  obtain rl where rl: "rate_limiter_create ?cfg True = Some rl" by (simp add: rate_limiter_create_def)
  have cfg: "c_rl_requests_per_second ?cfg = 1" "c_rl_burst ?cfg = 1" by (simp_all add: example_config_def)
  have ip: "ip_ok ?ip" "alone ?ip [(5, ?ip), (6, ?ip)]" by (simp_all add: ip_ok_def alone_def)
  show ?thesis
    using rate_limit_never_starves [OF rl _ _ ip] rl unfolding cfg by simp
qed

text \<open>Addresses that share a slot evade the limit: when consecutive requests come from
  different addresses with the same slot, each finds the bucket of the other, starts again
  with a full burst, and none is ever refused, at any rate.\<close>

theorem rate_limit_collision:
  assumes "1 \<le> rl_burst rl" "\<forall>(t, a) \<in> set reqs. ip_ok a"
    and "successively (\<lambda>(t, a) (u, b). a \<noteq> b \<and> rl_slot a = rl_slot b) reqs"
    and "reqs \<noteq> [] \<Longrightarrow> \<not> owns rl (snd (hd reqs))"
  shows "set (snd (rl_run rl reqs)) \<subseteq> {NP_OK}"
  using assms
proof (induction reqs arbitrary: rl)
  case Nil
  then show ?case by simp
next
  case (Cons req reqs)
  obtain t a where req: "req = (t, a)" by (cases req)
  let ?rl = "fst (rate_limit_check rl a t)"
  have ip: "ip_ok a" using Cons.prems(2) by (simp add: req)
  have "\<not> owns rl a" using Cons.prems(4) by (simp add: req)
  then have "tokens_at rl a t = rl_burst rl" by (simp add: tokens_at_def)
  then have ok: "snd (rate_limit_check rl a t) = NP_OK" using Cons.prems(1) by (simp add: check_result)
  have next_free: "\<not> owns ?rl (snd (hd reqs))" if ne: "reqs \<noteq> []"
  proof -
    obtain u b rest where reqs: "reqs = (u, b) # rest" using ne by (cases reqs) auto
    then have "a \<noteq> b" "rl_slot b = rl_slot a" using Cons.prems(3) by (auto simp: req)
    then show ?thesis by (simp add: owns_def reqs check_bucket [OF ip])
  qed
  have "successively (\<lambda>(t, a) (u, b). a \<noteq> b \<and> rl_slot a = rl_slot b) reqs"
    using Cons.prems(3) by (cases reqs) auto
  from Cons.IH [of ?rl, OF _ _ this next_free] Cons.prems(1,2)
  have "set (snd (rl_run ?rl reqs)) \<subseteq> {NP_OK}" by (simp add: check_frame)
  then show ?case using ok by (simp add: req)
qed

theorem rate_limit_collision_witness:
  "\<exists>rl. rate_limiter_create (example_config 0 1) True = Some rl \<and>
     set (snd (rl_run rl [(5, ''10.0.0.69''), (5, ''10.0.0.106''), (5, ''10.0.0.69'')])) \<subseteq> {NP_OK}"
proof -
  let ?reqs = "[(5, ''10.0.0.69''), (5, ''10.0.0.106''), (5, ''10.0.0.69'')] :: (int \<times> string) list"
  obtain rl where rl: "rate_limiter_create (example_config 0 1) True = Some rl"
    by (simp add: rate_limiter_create_def)
  have slots: "rl_slot ''10.0.0.69'' = 4003" "rl_slot ''10.0.0.106'' = 4003"
    by (simp_all add: rl_slot_def ip_hash_def)
  have "1 \<le> rl_burst rl" using create_tokens(3) [OF rl] by (simp add: example_config_def)
  moreover have "\<not> owns rl (snd (hd ?reqs))" using rl by (auto simp: rate_limiter_create_def owns_def)
  moreover have "\<forall>(t, a) \<in> set ?reqs. ip_ok a" by (simp add: ip_ok_def)
  moreover have "successively (\<lambda>(t, a) (u, b). a \<noteq> b \<and> rl_slot a = rl_slot b) ?reqs"
    by (simp add: slots)
  ultimately have "set (snd (rl_run rl ?reqs)) \<subseteq> {NP_OK}" by (intro rate_limit_collision)
  with rl show ?thesis by blast
qed

end
