(* ===== verification/Cache.thy ===== *)
theory Cache
  imports Request
begin

text \<open>
  The response cache of \<^verbatim>\<open>src/src/cache/cache.c\<close>, which keeps every entry in a file of its
  own. The file system is a map from paths to contents; an entry's header is written as the
  bytes of the C structure, so that its encoding is part of the model. Which system calls
  fail is an argument. The locale \<open>entry_store\<close> states the laws of a store of entries by
  key; the cache implements it as long as its calls succeed.
\<close>

section \<open>Model\<close>

text \<open>Little endian integers of \<open>k\<close> bytes.\<close>

fun le_bytes :: "nat \<Rightarrow> nat \<Rightarrow> string" where
  "le_bytes 0 n = []"
| "le_bytes (Suc k) n = char_of (n mod 256) # le_bytes k (n div 256)"

fun le_val :: "string \<Rightarrow> nat" where
  "le_val [] = 0"
| "le_val (c # s) = of_char c + 256 * le_val s"

record cache_entry_header_t =
  ch_status :: int
  ch_headers_len :: usize
  ch_body_len :: usize
  ch_expire_time :: int

abbreviation CACHE_HDR_SIZE :: nat where "CACHE_HDR_SIZE \<equiv> 32"

text \<open>
  The bytes of the structure: a 4-byte status, 4 bytes of padding that are never set
  (\<open>pad\<close>), and three 8-byte fields.
\<close>

definition header_bytes :: "string \<Rightarrow> cache_entry_header_t \<Rightarrow> string" where
  "header_bytes pad h =
     le_bytes 4 (unat (word_of_int (ch_status h) :: 32 word)) @ pad @
     le_bytes 8 (unat (ch_headers_len h)) @ le_bytes 8 (unat (ch_body_len h)) @
     le_bytes 8 (unat (word_of_int (ch_expire_time h) :: 64 word))"

definition header_of_bytes :: "string \<Rightarrow> cache_entry_header_t" where
  "header_of_bytes s =
     \<lparr>ch_status = sint (of_nat (le_val (take 4 s)) :: 32 word),
      ch_headers_len = of_nat (le_val (take 8 (drop 8 s))),
      ch_body_len = of_nat (le_val (take 8 (drop 16 s))),
      ch_expire_time = sint (of_nat (le_val (take 8 (drop 24 s))) :: 64 word)\<rparr>"

record cache_entry_t =
  ce_hdr :: cache_entry_header_t
  ce_data :: string

record cache_store_t =
  cs_root :: string
  cs_max_entries :: int

type_synonym fs = "string \<rightharpoonup> string"

fun fnv1a_loop :: "u64 \<Rightarrow> string \<Rightarrow> u64" where
  "fnv1a_loop h [] = h"
| "fnv1a_loop h (c # s) = fnv1a_loop ((h XOR of_char c) * 1099511628211) s"

definition fnv1a :: "string \<Rightarrow> u64" where
  "fnv1a s = fnv1a_loop 14695981039346656037 s"

definition cache_path :: "cache_store_t \<Rightarrow> string \<Rightarrow> string" where
  "cache_path store key =
     take 1023 (cs_root store @ ''/'' @ pad_left 16 (CHR ''0'') (hex_nat (unat (fnv1a key))) @ ''.cache'')"

definition cache_store_create :: "string \<Rightarrow> int \<Rightarrow> bool \<Rightarrow> cache_store_t option" where
  "cache_store_create root max_entries m =
     (if \<not> m then None else Some \<lparr>cs_root = strncpy 511 root, cs_max_entries = max_entries\<rparr>)"

text \<open>
  Which calls of a lookup succeed: opening an existing file, reading as many bytes as are
  there, and \<^verbatim>\<open>malloc\<close>.
\<close>

record lookup_io =
  lk_open :: bool
  lk_read_hdr :: bool
  lk_malloc :: bool
  lk_read_data :: bool

definition cache_lookup ::
  "cache_store_t \<Rightarrow> string \<Rightarrow> fs \<Rightarrow> int \<Rightarrow> lookup_io \<Rightarrow> fs \<times> np_status_t \<times> cache_entry_t option" where
  "cache_lookup store key f now io =
     (let path = cache_path store key
      in case f path of
           None \<Rightarrow> (f, NP_ERR, None)
         | Some file \<Rightarrow>
             if \<not> lk_open io then (f, NP_ERR, None)
             else if \<not> (lk_read_hdr io \<and> CACHE_HDR_SIZE \<le> length file) then (f, NP_ERR, None)
             else
               (let hdr = header_of_bytes (take CACHE_HDR_SIZE file)
                in if ch_expire_time hdr > 0 \<and> now > ch_expire_time hdr then (f(path := None), NP_ERR, None)
                   else
                     (let total = ch_headers_len hdr + ch_body_len hdr
                      in if \<not> lk_malloc io then (f, NP_ERR_NOMEM, None)
                         else
                           (let dat = take (unat total) (drop CACHE_HDR_SIZE file)
                            in if \<not> lk_read_data io \<or> of_nat (length dat) \<noteq> total then (f, NP_ERR, None)
                               else (f, NP_OK, Some \<lparr>ce_hdr = hdr, ce_data = dat\<rparr>)))))"

text \<open>Which calls of an insert succeed; \<open>in_write_hdr\<close> and so on are whole writes.\<close>

record insert_io =
  in_open :: bool
  in_write_hdr :: bool
  in_write_headers :: bool
  in_write_body :: bool
  in_rename :: bool

definition cache_insert ::
  "cache_store_t \<Rightarrow> string \<Rightarrow> int \<Rightarrow> string \<Rightarrow> string \<Rightarrow> int \<Rightarrow> string \<Rightarrow> fs \<Rightarrow> int \<Rightarrow> insert_io \<Rightarrow> fs \<times> np_status_t" where
  "cache_insert store key status headers body ttl pad f now io =
     (let path = cache_path store key;
          tmp_path = take 1039 (path @ ''.tmp'')
      in if \<not> in_open io then (f, NP_ERR)
         else
           (let f = f(tmp_path \<mapsto> []);
                hdr = \<lparr>ch_status = status, ch_headers_len = of_nat (length headers),
                  ch_body_len = of_nat (length body),
                  ch_expire_time = (if ttl > 0 then now + ttl else 0)\<rparr>
            in if \<not> in_write_hdr io then (f(tmp_path := None), NP_ERR)
               else
                 (let f = f(tmp_path \<mapsto> header_bytes pad hdr)
                  in if length headers > 0 \<and> \<not> in_write_headers io then (f(tmp_path := None), NP_ERR)
                     else
                       (let f = f(tmp_path \<mapsto> header_bytes pad hdr @ headers)
                        in if length body > 0 \<and> \<not> in_write_body io then (f(tmp_path := None), NP_ERR)
                           else
                             (let f = f(tmp_path \<mapsto> header_bytes pad hdr @ headers @ body)
                              in if \<not> in_rename io then (f(tmp_path := None), NP_ERR)
                                 else (f(path := f tmp_path, tmp_path := None), NP_OK))))))"

text \<open>The result of \<^verbatim>\<open>unlink\<close> is whether the file was there and could be removed.\<close>

definition cache_remove :: "cache_store_t \<Rightarrow> string \<Rightarrow> fs \<Rightarrow> bool \<Rightarrow> fs \<times> np_status_t" where
  "cache_remove store key f unlink_ok =
     (if f (cache_path store key) \<noteq> None \<and> unlink_ok then (f(cache_path store key := None), NP_OK)
      else (f, NP_ERR))"

definition cache_key_from_request :: "http_request_t \<Rightarrow> nat \<Rightarrow> string" where
  "cache_key_from_request req mx =
     take (mx - 1)
       (case request_header req ''Host'' of
          Some host \<Rightarrow> http_method_str (req_method req) @ '':'' @ cstr host @ '':'' @ cstr (req_path req)
        | None \<Rightarrow> http_method_str (req_method req) @ '':_:'' @ cstr (req_path req))"

section \<open>The encoding of an entry\<close>

lemma length_le_bytes [simp]: "length (le_bytes k n) = k"
  by (induction k arbitrary: n) simp_all

lemma le_val_le_bytes: "le_val (le_bytes k n) = n mod 256 ^ k"
proof (induction k arbitrary: n)
  case 0
  then show ?case by simp
next
  case (Suc k)
  have "le_val (le_bytes (Suc k) n) = n mod 256 + 256 * (n div 256 mod 256 ^ k)"
    using Suc by simp
  also have "\<dots> = n mod (256 * 256 ^ k)" by (simp add: mod_mult2_eq)
  finally show ?case by simp
qed

lemma le_val_unat:
  fixes w :: "'a::len word"
  assumes "256 ^ k = (2::nat) ^ LENGTH('a)"
  shows "of_nat (le_val (le_bytes k (unat w))) = w"
proof -
  have "unat w < 2 ^ LENGTH('a)" by (rule unsigned_less)
  then show ?thesis using assms by (simp add: le_val_le_bytes)
qed

definition header_ok :: "cache_entry_header_t \<Rightarrow> bool" where
  "header_ok h \<longleftrightarrow> INT_MIN \<le> ch_status h \<and> ch_status h \<le> INT_MAX \<and>
     LLONG_MIN \<le> ch_expire_time h \<and> ch_expire_time h \<le> LLONG_MAX"

lemma sint_word_of_int_32: "INT_MIN \<le> i \<Longrightarrow> i \<le> INT_MAX \<Longrightarrow> sint (word_of_int i :: 32 word) = i"
  by (simp add: sint_sbintrunc' signed_take_bit_int_eq_self)

lemma sint_word_of_int_64: "LLONG_MIN \<le> i \<Longrightarrow> i \<le> LLONG_MAX \<Longrightarrow> sint (word_of_int i :: 64 word) = i"
  by (simp add: sint_sbintrunc' signed_take_bit_int_eq_self)

lemma header_bytes_length: "length pad = 4 \<Longrightarrow> length (header_bytes pad h) = CACHE_HDR_SIZE"
  by (simp add: header_bytes_def)

lemma header_roundtrip:
  assumes "header_ok h" "length pad = 4"
  shows "header_of_bytes (header_bytes pad h) = h"
proof -
  have "of_nat (le_val (le_bytes 4 (unat w))) = w" for w :: "32 word" by (rule le_val_unat) simp
  moreover have "of_nat (le_val (le_bytes 8 (unat w))) = w" for w :: "64 word" by (rule le_val_unat) simp
  ultimately show ?thesis
    using assms
    by (simp add: header_of_bytes_def header_bytes_def header_ok_def sint_word_of_int_32 sint_word_of_int_64)
qed

section \<open>Paths\<close>

definition store_ok :: "cache_store_t \<Rightarrow> bool" where
  "store_ok store \<longleftrightarrow> length (cs_root store) \<le> 511"

lemma cache_store_create_ok: "cache_store_create root n m = Some store \<Longrightarrow> store_ok store"
  by (auto simp: cache_store_create_def store_ok_def split: if_splits)

abbreviation hash_text :: "string \<Rightarrow> string" where
  "hash_text key \<equiv> pad_left 16 (CHR ''0'') (hex_nat (unat (fnv1a key)))"

lemma length_hash_text: "length (hash_text key) = 16"
proof -
  have "unat (fnv1a key) < 16 ^ Suc 15" using unat_usize_less [of "fnv1a key"] by simp
  then have "length (hex_nat (unat (fnv1a key))) \<le> Suc 15" by (intro length_nat_base_le) simp_all
  then show ?thesis by (simp add: pad_left_def)
qed

lemma cache_path_full:
  "store_ok store \<Longrightarrow> cache_path store key = cs_root store @ ''/'' @ hash_text key @ ''.cache''"
  by (simp add: cache_path_def store_ok_def length_hash_text)

lemma length_cache_path: "store_ok store \<Longrightarrow> length (cache_path store key) = length (cs_root store) + 23"
  by (simp add: cache_path_full length_hash_text)

lemma cache_path_eq_iff: "store_ok store \<Longrightarrow> cache_path store k = cache_path store k' \<longleftrightarrow> fnv1a k = fnv1a k'"
  using pad_left_nat_base_inject [of 16 16 "unat (fnv1a k)" "unat (fnv1a k')"]
  by (auto simp: cache_path_full word_unat_eq_iff)

definition tmp_of :: "string \<Rightarrow> string" where
  "tmp_of path = take 1039 (path @ ''.tmp'')"

lemma tmp_not_path: "store_ok store \<Longrightarrow> tmp_of (cache_path store k) \<noteq> cache_path store k'"
  using length_cache_path [of store k] length_cache_path [of store k']
  by (auto simp: tmp_of_def store_ok_def dest!: arg_cong [where f = length])

section \<open>Inserting and looking up\<close>

text \<open>The contents of the file that an insert writes.\<close>

definition entry_bytes :: "string \<Rightarrow> int \<Rightarrow> string \<Rightarrow> string \<Rightarrow> int \<Rightarrow> string" where
  "entry_bytes pad status headers body expire =
     header_bytes pad \<lparr>ch_status = status, ch_headers_len = of_nat (length headers),
       ch_body_len = of_nat (length body), ch_expire_time = expire\<rparr> @ headers @ body"

definition insert_succeeds :: "string \<Rightarrow> string \<Rightarrow> insert_io \<Rightarrow> bool" where
  "insert_succeeds headers body io \<longleftrightarrow> in_open io \<and> in_write_hdr io \<and>
     (headers = [] \<or> in_write_headers io) \<and> (body = [] \<or> in_write_body io) \<and> in_rename io"

lemma cache_insert_result:
  "snd (cache_insert store key status headers body ttl pad f now io) =
     (if insert_succeeds headers body io then NP_OK else NP_ERR)"
  by (auto simp: cache_insert_def insert_succeeds_def Let_def)

lemma cache_insert_files:
  assumes "store_ok store"
  shows "fst (cache_insert store key status headers body ttl pad f now io) =
     (if insert_succeeds headers body io
      then f(cache_path store key \<mapsto> entry_bytes pad status headers body (if ttl > 0 then now + ttl else 0),
             tmp_of (cache_path store key) := None)
      else if in_open io then f(tmp_of (cache_path store key) := None)
      else f)"
  using tmp_not_path [OF assms, of key key]
  by (auto simp: cache_insert_def insert_succeeds_def entry_bytes_def tmp_of_def Let_def fun_eq_iff)

text \<open>C25: An insert changes the entry of its key, and only that, when all its calls succeed, and
  reports an error and leaves every entry as it was when any of them fails: a reader never
  sees part of an entry.\<close>

theorem cache_insert_atomic:
  assumes "store_ok store" and r_def: "r = cache_insert store key status headers body ttl pad f now io"
  shows "if insert_succeeds headers body io
     then snd r = NP_OK \<and>
       fst r (cache_path store key) = Some (entry_bytes pad status headers body (if ttl > 0 then now + ttl else 0)) \<and>
       (\<forall>k. fnv1a k \<noteq> fnv1a key \<longrightarrow> fst r (cache_path store k) = f (cache_path store k))
     else snd r = NP_ERR \<and> (\<forall>k. fst r (cache_path store k) = f (cache_path store k))"
proof -
  have tmp: "cache_path store k \<noteq> tmp_of (cache_path store key)" for k
    using tmp_not_path [OF assms(1)] by metis
  show ?thesis
    by (simp add: r_def cache_insert_result cache_insert_files [OF assms(1)] tmp cache_path_eq_iff [OF assms(1)])
qed

theorem cache_insert_atomic_witness:
  "\<exists>r. r = cache_insert \<lparr>cs_root = ''/c'', cs_max_entries = 9\<rparr> ''GET:a:/'' 200 ''H'' ''body'' 10 ''pppp'' Map.empty 100
       \<lparr>in_open = True, in_write_hdr = True, in_write_headers = True, in_write_body = False, in_rename = True\<rparr> \<and>
     snd r = NP_ERR \<and> (\<forall>k. fst r (cache_path \<lparr>cs_root = ''/c'', cs_max_entries = 9\<rparr> k) = None)"
proof -
  have "store_ok \<lparr>cs_root = ''/c'', cs_max_entries = 9\<rparr>" by (simp add: store_ok_def)
  from cache_insert_atomic [OF this refl, of "''H''" "''body''" "\<lparr>in_open = True, in_write_hdr = True,
      in_write_headers = True, in_write_body = False, in_rename = True\<rparr>" "''GET:a:/''" 200 10 "''pppp''" Map.empty 100]
  show ?thesis by (simp add: insert_succeeds_def)
qed

abbreviation lookup_ok :: lookup_io where
  "lookup_ok \<equiv> \<lparr>lk_open = True, lk_read_hdr = True, lk_malloc = True, lk_read_data = True\<rparr>"

abbreviation insert_ok :: insert_io where
  "insert_ok \<equiv> \<lparr>in_open = True, in_write_hdr = True, in_write_headers = True, in_write_body = True, in_rename = True\<rparr>"

definition entry_fits :: "int \<Rightarrow> string \<Rightarrow> string \<Rightarrow> int \<Rightarrow> bool" where
  "entry_fits status headers body expire \<longleftrightarrow> INT_MIN \<le> status \<and> status \<le> INT_MAX \<and>
     LLONG_MIN \<le> expire \<and> expire \<le> LLONG_MAX \<and> length headers + length body < 2 ^ 64"

lemma lookup_entry:
  assumes "f (cache_path store key) = Some (entry_bytes pad status headers body expire)"
    and "length pad = 4" "entry_fits status headers body expire"
  shows "cache_lookup store key f now lookup_ok =
     (if expire > 0 \<and> now > expire then (f(cache_path store key := None), NP_ERR, None)
      else (f, NP_OK, Some \<lparr>ce_hdr = \<lparr>ch_status = status, ch_headers_len = of_nat (length headers),
        ch_body_len = of_nat (length body), ch_expire_time = expire\<rparr>, ce_data = headers @ body\<rparr>))"
proof -
  let ?h = "\<lparr>ch_status = status, ch_headers_len = of_nat (length headers),
        ch_body_len = of_nat (length body), ch_expire_time = expire\<rparr>"
  have len: "length (header_bytes pad ?h) = CACHE_HDR_SIZE" by (rule header_bytes_length [OF assms(2)])
  have h: "header_of_bytes (take CACHE_HDR_SIZE (entry_bytes pad status headers body expire)) = ?h"
    using assms(2,3) len by (simp add: entry_bytes_def header_roundtrip header_ok_def entry_fits_def)
  have tot: "unat (of_nat (length headers) + of_nat (length body) :: usize) = length headers + length body"
    using assms(3) by (simp add: entry_fits_def unat_of_nat_np flip: of_nat_add)
  have dat: "drop CACHE_HDR_SIZE (entry_bytes pad status headers body expire) = headers @ body"
    using len by (simp add: entry_bytes_def)
  have "CACHE_HDR_SIZE \<le> length (entry_bytes pad status headers body expire)"
    using len by (simp add: entry_bytes_def)
  then show ?thesis
    by (simp add: cache_lookup_def assms(1) h dat tot Let_def)
qed

text \<open>C3: After an insert that succeeds, a lookup of the key returns the status, headers and body
  that were inserted, until the time to live is over; after that it returns an error and
  removes the entry. Without a time to live the entry stays.\<close>

theorem cache_insert_lookup:
  assumes "store_ok store" "insert_succeeds headers body io" "length pad = 4"
    and "entry_fits status headers body (if ttl > 0 then now + ttl else 0)"
    and "now > 0"
    and "f' = fst (cache_insert store key status headers body ttl pad f now io)"
  shows "case cache_lookup store key f' now' lookup_ok of
     (f'', r, e) \<Rightarrow>
       if ttl > 0 \<and> now' > now + ttl then r = NP_ERR \<and> e = None \<and> f'' (cache_path store key) = None
       else r = NP_OK \<and> f'' = f' \<and> (\<exists>h. e = Some \<lparr>ce_hdr = h, ce_data = headers @ body\<rparr> \<and>
         ch_status h = status \<and> ch_headers_len h = of_nat (length headers) \<and> ch_body_len h = of_nat (length body))"
proof -
  let ?e = "if ttl > 0 then now + ttl else 0"
  have "f' (cache_path store key) = Some (entry_bytes pad status headers body ?e)"
    using assms(1,2,6) tmp_not_path [OF assms(1), of key key] by (auto simp: cache_insert_files)
  from lookup_entry [where f = f' and store = store and key = key, OF this assms(3,4)] show ?thesis
    using assms(5) by (auto split: if_splits)
qed

theorem cache_insert_lookup_witness:
  "\<exists>f'. f' = fst (cache_insert \<lparr>cs_root = ''/c'', cs_max_entries = 9\<rparr> ''GET:a:/'' 200 ''H'' ''body'' 10 ''pppp''
       Map.empty 100 insert_ok) \<and>
     fst (snd (cache_lookup \<lparr>cs_root = ''/c'', cs_max_entries = 9\<rparr> ''GET:a:/'' f' 105 lookup_ok)) = NP_OK \<and>
     fst (snd (cache_lookup \<lparr>cs_root = ''/c'', cs_max_entries = 9\<rparr> ''GET:a:/'' f' 111 lookup_ok)) = NP_ERR"
proof -
  let ?s = "\<lparr>cs_root = ''/c'', cs_max_entries = 9\<rparr>"
  have 1: "store_ok ?s" by (simp add: store_ok_def)
  have 2: "insert_succeeds ''H'' ''body'' insert_ok" by (simp add: insert_succeeds_def)
  have 3: "entry_fits 200 ''H'' ''body'' (if (10::int) > 0 then 100 + 10 else 0)" by (simp add: entry_fits_def)
  note l = cache_insert_lookup [where pad = "''pppp''" and key = "''GET:a:/''" and f = Map.empty, OF 1 2 _ 3 _ refl]
  show ?thesis using l [where now' = 105] l [where now' = 111] by (simp split: prod.splits)
qed

section \<open>The cache as a store of entries\<close>

text \<open>
  What the users of the cache rely on: what was put under a key is got back, and keys that
  are not kept in the same place do not disturb each other.
\<close>

locale entry_store =
  fixes ok :: "'s \<Rightarrow> bool"
    and put :: "'s \<Rightarrow> 'k \<Rightarrow> 'v \<Rightarrow> 's"
    and get :: "'s \<Rightarrow> 'k \<Rightarrow> 'v option"
    and same :: "'k \<Rightarrow> 'k \<Rightarrow> bool"
    and fits :: "'v \<Rightarrow> bool"
  assumes get_put: "ok s \<Longrightarrow> fits v \<Longrightarrow> same k k' \<Longrightarrow> get (put s k v) k' = Some v"
    and get_put_other: "ok s \<Longrightarrow> fits v \<Longrightarrow> \<not> same k k' \<Longrightarrow> get (put s k v) k' = get s k'"
    and ok_put: "ok s \<Longrightarrow> ok (put s k v)"
begin

definition put_all :: "'s \<Rightarrow> ('k \<times> 'v) list \<Rightarrow> 's" where
  "put_all s kvs = foldl (\<lambda>s (k, v). put s k v) s kvs"

lemma ok_put_all: "ok s \<Longrightarrow> ok (put_all s kvs)"
  by (induction kvs rule: rev_induct) (auto simp: put_all_def ok_put)

lemma get_put_all:
  assumes "ok s" "list_all (\<lambda>kv. fits (snd kv)) kvs"
  shows "get (put_all s kvs) k =
     (case List.find (\<lambda>(k', v). same k' k) (rev kvs) of Some (k', v) \<Rightarrow> Some v | None \<Rightarrow> get s k)"
  using assms(2)
proof (induction kvs rule: rev_induct)
  case Nil
  then show ?case by (simp add: put_all_def)
next
  case (snoc kv kvs)
  obtain k' v where kv: "kv = (k', v)" by (cases kv)
  have ok: "ok (put_all s kvs)" using assms(1) by (rule ok_put_all)
  have step: "put_all s (kvs @ [kv]) = put (put_all s kvs) k' v" by (simp add: put_all_def kv)
  have fit: "fits v" "list_all (\<lambda>kv. fits (snd kv)) kvs" using snoc.prems by (simp_all add: kv)
  show ?case
  proof (cases "same k' k")
    case True
    then show ?thesis using get_put [OF ok fit(1) True] unfolding step by (simp add: kv)
  next
    case False
    then show ?thesis
      using get_put_other [OF ok fit(1) False] snoc.IH [OF fit(2)] unfolding step by (simp add: kv)
  qed
qed

end

text \<open>A response as the cache keeps it: status, headers and body, put without a time to live.\<close>

type_synonym response = "int \<times> string \<times> string"

definition cache_put :: "cache_store_t \<times> fs \<Rightarrow> string \<Rightarrow> response \<Rightarrow> cache_store_t \<times> fs" where
  "cache_put s key r =
     (case (s, r) of ((store, f), (status, headers, body)) \<Rightarrow>
        (store, fst (cache_insert store key status headers body 0 (replicate 4 (CHR 0x00)) f 0 insert_ok)))"

definition cache_get :: "cache_store_t \<times> fs \<Rightarrow> string \<Rightarrow> response option" where
  "cache_get s key =
     (case cache_lookup (fst s) key (snd s) 0 lookup_ok of
        (_, _, None) \<Rightarrow> None
      | (_, _, Some e) \<Rightarrow>
          Some (ch_status (ce_hdr e), take (unat (ch_headers_len (ce_hdr e))) (ce_data e),
            drop (unat (ch_headers_len (ce_hdr e))) (ce_data e)))"

definition response_fits :: "response \<Rightarrow> bool" where
  "response_fits r = (case r of (status, headers, body) \<Rightarrow> entry_fits status headers body 0)"

interpretation cache: entry_store "\<lambda>s. store_ok (fst s)" cache_put cache_get
  "\<lambda>k k'. fnv1a k = fnv1a k'" response_fits
proof unfold_locales
  fix s :: "cache_store_t \<times> fs" and k k' and v :: response
  obtain store f where s: "s = (store, f)" by (cases s)
  obtain status headers body where v: "v = (status, headers, body)" by (cases v)
  let ?pad = "replicate 4 (CHR 0x00)"
  let ?f = "fst (cache_insert store k status headers body 0 ?pad f 0 insert_ok)"
  have succ: "insert_succeeds headers body insert_ok" by (simp add: insert_succeeds_def)
  show "store_ok (fst (cache_put s k v))" if "store_ok (fst s)" for s k v
    using that by (auto simp: cache_put_def split: prod.splits)
  assume ok: "store_ok (fst s)" and fit: "response_fits v"
  then have st: "store_ok store" and fits: "entry_fits status headers body 0"
    by (simp_all add: s v response_fits_def)
  have files: "?f (cache_path store k') =
      (if fnv1a k = fnv1a k' then Some (entry_bytes ?pad status headers body 0) else f (cache_path store k'))"
    using cache_path_eq_iff [OF st, of k' k] tmp_not_path [OF st, of k k']
    by (auto simp: cache_insert_files [OF st] succ)
  show "cache_get (cache_put s k v) k' = Some v" if "fnv1a k = fnv1a k'"
  proof -
    have entry: "?f (cache_path store k') = Some (entry_bytes ?pad status headers body 0)"
      using files that by simp
    have "unat (of_nat (length headers) :: usize) = length headers"
      using fits by (intro unat_of_nat_np) (simp add: entry_fits_def)
    then show ?thesis
      using lookup_entry [where f = ?f and store = store and key = k', OF entry _ fits] by (simp add: cache_get_def cache_put_def s v)
  qed
  show "cache_get (cache_put s k v) k' = cache_get s k'" if "fnv1a k \<noteq> fnv1a k'"
  proof -
    have "?f (cache_path store k') = f (cache_path store k')" using files that by simp
    then show ?thesis
      by (auto simp: cache_get_def cache_put_def s v cache_lookup_def Let_def split: option.split)
  qed
qed



end
