(* ===== verification/Timeout.thy ===== *)
theory Timeout
  imports Prelude "HOL-Library.Signed_Division"
begin

text \<open>
  The timer wheel of \<^verbatim>\<open>src/src/net/timeout.c\<close>: an array of buckets, each a doubly linked list of
  entries in the heap. The heap is a map from addresses to entries, so that a read through a
  pointer that was freed is an error; the loop of \<^verbatim>\<open>timeout_tick\<close> follows pointers and is a
  partial function whose value \<open>None\<close> is not returning. A callback is recorded by its context;
  callbacks are taken not to use the wheel themselves.

  The pointer structure is abstracted to a list of entries per bucket. Each operation is shown
  to refine the operation on lists, and from the lists it is shown when a timer fires.
\<close>

section \<open>Model\<close>

record timeout_entry =
  te_ctx :: nat
  te_deadline :: int
  te_next :: "nat option"
  te_prev :: "nat option"
  te_bucket :: int
  te_active :: bool

type_synonym theap = "nat \<rightharpoonup> timeout_entry"

record timeout_wheel =
  tw_buckets :: "nat option list"
  tw_nbuckets :: int
  tw_resolution :: int
  tw_current :: int

text \<open>\<open>m1\<close> and \<open>m2\<close> say whether the two allocations succeed.\<close>

definition timeout_wheel_create :: "int \<Rightarrow> int \<Rightarrow> bool \<Rightarrow> bool \<Rightarrow> timeout_wheel option" where
  "timeout_wheel_create nbuckets resolution_sec m1 m2 =
     (if \<not> m1 then None
      else if \<not> m2 then None
      else Some \<lparr>tw_buckets = replicate (nat nbuckets) None, tw_nbuckets = nbuckets,
        tw_resolution = resolution_sec, tw_current = 0\<rparr>)"

text \<open>The free loop of \<^verbatim>\<open>timeout_wheel_destroy\<close> for one bucket.\<close>

partial_function (option) destroy_bucket :: "theap \<Rightarrow> nat option \<Rightarrow> theap mem option" where
  "destroy_bucket h e =
     (case e of
        None \<Rightarrow> Some (Inr h)
      | Some a \<Rightarrow>
          (case h a of
             None \<Rightarrow> Some (Inl Out_of_bounds)
           | Some n \<Rightarrow> destroy_bucket (h(a := None)) (te_next n)))"

fun destroy_buckets :: "theap \<Rightarrow> nat option list \<Rightarrow> theap mem option" where
  "destroy_buckets h [] = Some (Inr h)"
| "destroy_buckets h (b # bs) =
     (case destroy_bucket h b of
        None \<Rightarrow> None
      | Some (Inl e) \<Rightarrow> Some (Inl e)
      | Some (Inr h) \<Rightarrow> destroy_buckets h bs)"

definition timeout_wheel_destroy :: "timeout_wheel \<Rightarrow> theap \<Rightarrow> theap mem option" where
  "timeout_wheel_destroy tw h = destroy_buckets h (tw_buckets tw)"

text \<open>
  Linking an entry in front of a bucket, as \<^verbatim>\<open>timeout_add\<close> and \<^verbatim>\<open>timeout_tick\<close> do: the entry is
  \<open>n\<close>, its address \<open>a\<close>.
\<close>

definition link_front ::
  "timeout_wheel \<Rightarrow> theap \<Rightarrow> int \<Rightarrow> nat \<Rightarrow> timeout_entry \<Rightarrow> (timeout_wheel \<times> theap) mem" where
  "link_front tw h slot a n =
     (if slot < 0 \<or> int (length (tw_buckets tw)) \<le> slot then Inl Out_of_bounds
      else
        (let hd = tw_buckets tw ! nat slot;
             h = h(a \<mapsto> n\<lparr>te_bucket := slot, te_next := hd, te_prev := None\<rparr>)
         in case hd of
              None \<Rightarrow> Inr (tw\<lparr>tw_buckets := (tw_buckets tw)[nat slot := Some a]\<rparr>, h)
            | Some b \<Rightarrow>
                (case h b of
                   None \<Rightarrow> Inl Out_of_bounds
                 | Some m \<Rightarrow>
                     Inr (tw\<lparr>tw_buckets := (tw_buckets tw)[nat slot := Some a]\<rparr>,
                       h(b \<mapsto> m\<lparr>te_prev := Some a\<rparr>)))))"

text \<open>\<open>m\<close> is the address that \<^verbatim>\<open>malloc\<close> returns, \<open>now\<close> the time.\<close>

definition timeout_add ::
  "timeout_wheel \<Rightarrow> theap \<Rightarrow> int \<Rightarrow> nat \<Rightarrow> nat option \<Rightarrow> int \<Rightarrow> (timeout_wheel \<times> theap \<times> nat option) mem" where
  "timeout_add tw h seconds ctx m now =
     (case m of
        None \<Rightarrow> Inr (tw, h, None)
      | Some a \<Rightarrow>
          (let n = \<lparr>te_ctx = ctx, te_deadline = now + seconds, te_next = None, te_prev = None,
                 te_bucket = 0, te_active = True\<rparr>;
               slot = (tw_current tw + seconds sdiv tw_resolution tw) smod tw_nbuckets tw
           in if tw_resolution tw = 0 \<or> tw_nbuckets tw = 0 then Inl Divide_by_zero
              else mbind (link_front tw h slot a n) (\<lambda>(tw, h). Inr (tw, h, Some a))))"

text \<open>A write through a pointer of the list: an error when the entry was freed.\<close>

definition upd_entry :: "theap \<Rightarrow> nat \<Rightarrow> (timeout_entry \<Rightarrow> timeout_entry) \<Rightarrow> theap mem" where
  "upd_entry h a f = (case h a of None \<Rightarrow> Inl Out_of_bounds | Some n \<Rightarrow> Inr (h(a \<mapsto> f n)))"

definition timeout_remove :: "timeout_wheel \<Rightarrow> theap \<Rightarrow> nat option \<Rightarrow> (timeout_wheel \<times> theap) mem" where
  "timeout_remove tw h entry =
     (case entry of
        None \<Rightarrow> Inr (tw, h)
      | Some a \<Rightarrow>
          (case h a of
             None \<Rightarrow> Inl Out_of_bounds
           | Some n \<Rightarrow>
               if \<not> te_active n then Inr (tw, h)
               else
                 (let slot = te_bucket n
                  in mbind
                       (case te_prev n of
                          Some b \<Rightarrow> mbind (upd_entry h b (\<lambda>m. m\<lparr>te_next := te_next n\<rparr>)) (\<lambda>h. Inr (tw, h))
                        | None \<Rightarrow>
                            if slot < 0 \<or> int (length (tw_buckets tw)) \<le> slot then Inl Out_of_bounds
                            else Inr (tw\<lparr>tw_buckets := (tw_buckets tw)[nat slot := te_next n]\<rparr>, h))
                       (\<lambda>(tw, h).
                     mbind
                       (case te_next n of
                          Some c \<Rightarrow> upd_entry h c (\<lambda>m. m\<lparr>te_prev := te_prev n\<rparr>)
                        | None \<Rightarrow> Inr h)
                       (\<lambda>h. Inr (tw, h(a := None)))))))"

partial_function (option) tick_loop ::
  "timeout_wheel \<Rightarrow> theap \<Rightarrow> int \<Rightarrow> nat option \<Rightarrow> nat list \<Rightarrow> (timeout_wheel \<times> theap \<times> nat list) mem option" where
  "tick_loop tw h now e fired =
     (case e of
        None \<Rightarrow> Some (Inr (tw, h, fired))
      | Some a \<Rightarrow>
          (case h a of
             None \<Rightarrow> Some (Inl Out_of_bounds)
           | Some n \<Rightarrow>
               if te_active n \<and> te_deadline n \<le> now then
                 tick_loop tw (h(a := None)) now (te_next n) (fired @ [te_ctx n])
               else if te_active n then
                 (case link_front tw h ((tw_current tw + 1) smod tw_nbuckets tw) a n of
                    Inl f \<Rightarrow> Some (Inl f)
                  | Inr (tw, h) \<Rightarrow> tick_loop tw h now (te_next n) fired)
               else tick_loop tw (h(a := None)) now (te_next n) fired))"

text \<open>The contexts of the callbacks are returned in the order of the calls.\<close>

definition timeout_tick ::
  "timeout_wheel \<Rightarrow> theap \<Rightarrow> int \<Rightarrow> (timeout_wheel \<times> theap \<times> nat list) mem option" where
  "timeout_tick tw h now =
     (let cur = (tw_current tw + 1) smod tw_nbuckets tw;
          tw = tw\<lparr>tw_current := cur\<rparr>
      in if tw_nbuckets tw = 0 then Some (Inl Divide_by_zero)
         else if cur < 0 \<or> int (length (tw_buckets tw)) \<le> cur then Some (Inl Out_of_bounds)
         else
           (let e = tw_buckets tw ! nat cur;
                tw = tw\<lparr>tw_buckets := (tw_buckets tw)[nat cur := None]\<rparr>
            in tick_loop tw h now e []))"

section \<open>Linked lists in the heap\<close>

text \<open>An entry as the wheel's users see it: address, deadline and context.\<close>

type_synonym tentry = "nat \<times> int \<times> nat"

abbreviation addrs :: "tentry list \<Rightarrow> nat set" where
  "addrs es \<equiv> fst ` set es"

text \<open>
  The entries \<open>es\<close> of bucket \<open>i\<close> from pointer \<open>p\<close>, with \<open>prv\<close> before them, ending at pointer \<open>q\<close>
  with \<open>lst\<close> the last before it.
\<close>

fun dseg ::
  "int \<Rightarrow> theap \<Rightarrow> nat option \<Rightarrow> nat option \<Rightarrow> tentry list \<Rightarrow> nat option \<Rightarrow> nat option \<Rightarrow> bool" where
  "dseg i h prv p [] q lst \<longleftrightarrow> p = q \<and> prv = lst"
| "dseg i h prv p ((a, dl, cx) # es) q lst \<longleftrightarrow> p = Some a \<and>
     (\<exists>n. h a = Some n \<and> te_ctx n = cx \<and> te_deadline n = dl \<and> te_prev n = prv \<and> te_bucket n = i \<and>
        te_active n \<and> dseg i h (Some a) (te_next n) es q lst)"

text \<open>The same by the next pointers alone, as the loop of a tick reads it.\<close>

fun chain :: "theap \<Rightarrow> nat option \<Rightarrow> tentry list \<Rightarrow> bool" where
  "chain h p [] \<longleftrightarrow> p = None"
| "chain h p ((a, dl, cx) # es) \<longleftrightarrow> p = Some a \<and>
     (\<exists>n. h a = Some n \<and> te_ctx n = cx \<and> te_deadline n = dl \<and> te_active n \<and> chain h (te_next n) es)"

lemma dseg_append:
  "dseg i h prv p (xs @ ys) q lst \<longleftrightarrow> (\<exists>r m. dseg i h prv p xs r m \<and> dseg i h m r ys q lst)"
  by (induction i h prv p xs q lst rule: dseg.induct) auto

lemma dseg_cong: "(\<And>a. a \<in> addrs es \<Longrightarrow> h' a = h a) \<Longrightarrow> dseg i h' prv p es q lst = dseg i h prv p es q lst"
  by (induction i h prv p es q lst rule: dseg.induct) auto

lemma dseg_frame [simp]: "a \<notin> addrs es \<Longrightarrow> dseg i (h(a := x)) prv p es q lst = dseg i h prv p es q lst"
  by (rule dseg_cong) auto

lemma chain_cong: "(\<And>a. a \<in> addrs es \<Longrightarrow> h' a = h a) \<Longrightarrow> chain h' p es = chain h p es"
  by (induction h p es rule: chain.induct) auto

lemma chain_frame [simp]: "a \<notin> addrs es \<Longrightarrow> chain (h(a := x)) p es = chain h p es"
  by (rule chain_cong) auto

lemma dseg_chain: "dseg i h prv p es q lst \<Longrightarrow> q = None \<Longrightarrow> chain h p es"
  by (induction i h prv p es q lst rule: dseg.induct) auto

lemma dseg_set_prev:
  assumes "dseg i h prv (Some b) es q lst" "es \<noteq> []" "distinct (map fst es)" "h b = Some n"
  shows "dseg i (h(b \<mapsto> n\<lparr>te_prev := x\<rparr>)) x (Some b) es q lst"
  using assms by (cases es) auto

lemma dseg_set_next:
  assumes "dseg i h prv p (es @ [(b, dl, cx)]) q lst" "distinct (map fst (es @ [(b, dl, cx)]))" "h b = Some n"
  shows "dseg i (h(b \<mapsto> n\<lparr>te_next := r\<rparr>)) prv p (es @ [(b, dl, cx)]) r lst"
  using assms by (auto simp: dseg_append)

text \<open>A list that is not empty starts at its head.\<close>

lemma dseg_head: "dseg i h prv p es None lst \<Longrightarrow> p = None \<longleftrightarrow> es = []"
  by (cases es) auto

lemma dseg_head_node:
  assumes "dseg i h prv (Some b) es None lst"
  obtains n where "h b = Some n" "b \<in> addrs es"
  using assms by (cases es) auto

section \<open>The wheel as a list of lists\<close>

definition wheel_rel :: "timeout_wheel \<Rightarrow> theap \<Rightarrow> tentry list list \<Rightarrow> bool" where
  "wheel_rel tw h bs \<longleftrightarrow>
     length (tw_buckets tw) = length bs \<and> tw_nbuckets tw = int (length bs) \<and> bs \<noteq> [] \<and>
     0 \<le> tw_current tw \<and> tw_current tw < int (length bs) \<and>
     (\<forall>i < length bs. distinct (map fst (bs ! i)) \<and>
        (\<exists>l. dseg (int i) h None (tw_buckets tw ! i) (bs ! i) None l)) \<and>
     (\<forall>i < length bs. \<forall>j < length bs. i \<noteq> j \<longrightarrow> addrs (bs ! i) \<inter> addrs (bs ! j) = {})"

definition wheel_addrs :: "tentry list list \<Rightarrow> nat set" where
  "wheel_addrs bs = (\<Union>es \<in> set bs. addrs es)"

lemma wheel_addrs_iff: "a \<in> wheel_addrs bs \<longleftrightarrow> (\<exists>i < length bs. a \<in> addrs (bs ! i))"
  unfolding wheel_addrs_def UN_iff Bex_set list_ex_length by (rule refl)

lemma wheel_addrs_nth: "i < length bs \<Longrightarrow> addrs (bs ! i) \<subseteq> wheel_addrs bs"
  unfolding wheel_addrs_def by (rule UN_upper [OF nth_mem])

lemma wheel_addrs_update: "wheel_addrs (bs[i := es]) \<subseteq> wheel_addrs bs \<union> addrs es"
  unfolding wheel_addrs_def using set_update_subset_insert [of bs i es] by blast

lemma wheel_addrs_split: "i < length bs \<Longrightarrow> wheel_addrs (bs[i := es]) = addrs es \<union> wheel_addrs (bs[i := []])"
  by (auto simp: wheel_addrs_def upd_conv_take_nth_drop)

lemma wheel_addrs_cons: "i < length bs \<Longrightarrow> wheel_addrs (bs[i := x # bs ! i]) = insert (fst x) (wheel_addrs bs)"
  using wheel_addrs_split [of i bs "x # bs ! i"] wheel_addrs_split [of i bs "bs ! i"] by simp

lemma dom_frame: "\<forall>b. b \<noteq> a \<longrightarrow> b \<notin> A \<longrightarrow> h' b = h b \<Longrightarrow> dom h' \<subseteq> insert a (dom h \<union> A)"
  by (auto simp: dom_def)

text \<open>
  Replacing the list of one bucket: the heap may change at the addresses of that bucket and
  at addresses outside the wheel only.
\<close>

lemma wheel_rel_update:
  assumes rel: "wheel_rel tw h bs" and i: "i < length bs"
    and seg: "dseg (int i) h' None p es None l" and dist: "distinct (map fst es)"
    and same: "\<And>b j. j < length bs \<Longrightarrow> j \<noteq> i \<Longrightarrow> b \<in> addrs (bs ! j) \<Longrightarrow> h' b = h b"
    and new: "\<And>j. j < length bs \<Longrightarrow> j \<noteq> i \<Longrightarrow> addrs es \<inter> addrs (bs ! j) = {}"
  shows "wheel_rel (tw\<lparr>tw_buckets := (tw_buckets tw)[i := p]\<rparr>) h' (bs[i := es])"
proof -
  have frame: "\<exists>l. dseg (int j) h' None (tw_buckets tw ! j) (bs ! j) None l"
    if "j < length bs" "j \<noteq> i" for j
    using that rel dseg_cong [of "bs ! j" h' h] same [OF that] unfolding wheel_rel_def by metis
  show ?thesis
    using rel i seg dist new frame
    by (auto simp: wheel_rel_def nth_list_update Int_commute)
qed

lemma wheel_rel_nth:
  assumes "wheel_rel tw h bs" "i < length bs"
  obtains l where "dseg (int i) h None (tw_buckets tw ! i) (bs ! i) None l" "distinct (map fst (bs ! i))"
    "\<And>j. j < length bs \<Longrightarrow> j \<noteq> i \<Longrightarrow> addrs (bs ! i) \<inter> addrs (bs ! j) = {}"
  using assms unfolding wheel_rel_def by metis

lemma wheel_rel_frame:
  assumes rel: "wheel_rel tw h bs" and same: "\<And>a. a \<in> wheel_addrs bs \<Longrightarrow> h' a = h a"
  shows "wheel_rel tw h' bs"
proof -
  have "dseg (int i) h' None p (bs ! i) None l = dseg (int i) h None p (bs ! i) None l"
    if "i < length bs" for i p l
    using same wheel_addrs_nth [OF that] by (intro dseg_cong) blast
  with rel show ?thesis by (simp add: wheel_rel_def)
qed

lemma wheel_rel_current: "wheel_rel tw h bs \<Longrightarrow> 0 \<le> c \<Longrightarrow> c < int (length bs) \<Longrightarrow> wheel_rel (tw\<lparr>tw_current := c\<rparr>) h bs"
  by (simp add: wheel_rel_def)

text \<open>Linking an entry in front of a bucket.\<close>

lemma link_front_rel:
  assumes rel: "wheel_rel tw h bs" and i: "i < length bs" and a: "a \<notin> wheel_addrs bs" and act: "te_active n"
  shows "\<exists>h'. link_front tw h (int i) a n = Inr (tw\<lparr>tw_buckets := (tw_buckets tw)[i := Some a]\<rparr>, h') \<and>
     wheel_rel (tw\<lparr>tw_buckets := (tw_buckets tw)[i := Some a]\<rparr>) h' (bs[i := (a, te_deadline n, te_ctx n) # bs ! i]) \<and>
     (\<forall>b. b \<noteq> a \<longrightarrow> b \<notin> wheel_addrs bs \<longrightarrow> h' b = h b)"
proof -
  from wheel_rel_nth [OF rel i] obtain l where
    seg: "dseg (int i) h None (tw_buckets tw ! i) (bs ! i) None l" and dist: "distinct (map fst (bs ! i))"
    and apart: "\<And>j. j < length bs \<Longrightarrow> j \<noteq> i \<Longrightarrow> addrs (bs ! i) \<inter> addrs (bs ! j) = {}" by blast
  have ai: "a \<notin> addrs (bs ! j)" if "j < length bs" for j using a wheel_addrs_nth [OF that] by blast
  let ?n = "n\<lparr>te_bucket := int i, te_next := tw_buckets tw ! i, te_prev := None\<rparr>"
  let ?es = "(a, te_deadline n, te_ctx n) # bs ! i"
  have len: "length (tw_buckets tw) = length bs" using rel by (simp add: wheel_rel_def)
  have dist': "distinct (map fst ?es)" using dist ai [OF i] by auto
  have apart': "addrs ?es \<inter> addrs (bs ! j) = {}" if "j < length bs" "j \<noteq> i" for j
    using apart [OF that] ai [OF that(1)] by auto
  show ?thesis
  proof (cases "tw_buckets tw ! i")
    case None
    then have "bs ! i = []" using dseg_head [OF seg] by simp
    then have "dseg (int i) (h(a \<mapsto> ?n)) None (Some a) ?es None (Some a)" using act None by simp
    moreover have "(h(a \<mapsto> ?n)) c = h c" if "j < length bs" "j \<noteq> i" "c \<in> addrs (bs ! j)" for c j
      using that ai by auto
    ultimately have "wheel_rel (tw\<lparr>tw_buckets := (tw_buckets tw)[i := Some a]\<rparr>) (h(a \<mapsto> ?n)) (bs[i := ?es])"
      by (rule wheel_rel_update [OF rel i _ dist' _ apart'])
    then show ?thesis using None i by (simp add: link_front_def len)
  next
    case (Some b)
    then obtain m where m: "h b = Some m" "b \<in> addrs (bs ! i)" using seg by (metis dseg_head_node)
    then have ab: "a \<noteq> b" using ai [OF i] by blast
    let ?h = "h(a \<mapsto> ?n, b \<mapsto> m\<lparr>te_prev := Some a\<rparr>)"
    have "dseg (int i) (h(a \<mapsto> ?n)) None (Some b) (bs ! i) None l" using seg ai [OF i] Some by simp
    moreover have "bs ! i \<noteq> []" using m(2) by auto
    ultimately have "dseg (int i) ?h (Some a) (Some b) (bs ! i) None l"
      using dseg_set_prev [of "int i" "h(a \<mapsto> ?n)" None b "bs ! i" None l m "Some a"] dist m(1) ab by simp
    then have "dseg (int i) ?h None (Some a) ?es None l" using act Some ab by simp
    moreover have "?h c = h c" if "j < length bs" "j \<noteq> i" "c \<in> addrs (bs ! j)" for c j
      using that ai [OF that(1)] apart [OF that(1,2)] m(2) by auto
    ultimately have "wheel_rel (tw\<lparr>tw_buckets := (tw_buckets tw)[i := Some a]\<rparr>) ?h (bs[i := ?es])"
      by (rule wheel_rel_update [OF rel i _ dist' _ apart'])
    moreover have "\<forall>c. c \<noteq> a \<longrightarrow> c \<notin> wheel_addrs bs \<longrightarrow> ?h c = h c"
      using m(2) wheel_addrs_nth [OF i] by auto
    ultimately show ?thesis using Some i m(1) ab by (simp add: link_front_def len Let_def)
  qed
qed

section \<open>The operations refine operations on lists\<close>

lemma smod_nonneg: "0 \<le> a \<Longrightarrow> 0 < b \<Longrightarrow> (a :: int) smod b = a mod b"
  by (cases "a = 0") (simp_all add: signed_modulo_int_def)

lemma sdiv_nonneg: "0 \<le> a \<Longrightarrow> 0 < b \<Longrightarrow> (a :: int) sdiv b = a div b"
  by (cases "a = 0") (simp_all add: signed_divide_int_def)

text \<open>The bucket that is \<open>d\<close> steps ahead of the current one.\<close>

definition ahead :: "timeout_wheel \<Rightarrow> nat \<Rightarrow> nat" where
  "ahead tw d = (nat (tw_current tw) + d) mod length (tw_buckets tw)"

lemma ahead_slot:
  assumes "wheel_rel tw h bs"
  shows "(tw_current tw + int d) smod tw_nbuckets tw = int (ahead tw d)" "ahead tw d < length bs"
proof -
  from assms have c: "0 \<le> tw_current tw" "0 < length bs" "tw_nbuckets tw = int (length bs)"
    "length (tw_buckets tw) = length bs" by (auto simp: wheel_rel_def)
  have "(tw_current tw + int d) smod tw_nbuckets tw = (tw_current tw + int d) mod int (length bs)"
    using c smod_nonneg [of "tw_current tw + int d" "int (length bs)"] by simp
  also have "\<dots> = int (nat (tw_current tw) + d) mod int (length bs)" using c by simp
  finally show "(tw_current tw + int d) smod tw_nbuckets tw = int (ahead tw d)"
    by (simp only: ahead_def zmod_int c(4))
  show "ahead tw d < length bs" using c by (simp add: ahead_def)
qed

lemma timeout_wheel_create_rel:
  "0 < nbuckets \<Longrightarrow> timeout_wheel_create nbuckets res True True = Some tw \<Longrightarrow>
     wheel_rel tw h (replicate (nat nbuckets) [])"
  by (auto simp: timeout_wheel_create_def wheel_rel_def)

lemma timeout_add_rel:
  assumes rel: "wheel_rel tw h bs" and sec: "0 \<le> seconds" "0 < tw_resolution tw" and a: "a \<notin> wheel_addrs bs"
    and s: "s = ahead tw (nat (seconds div tw_resolution tw))"
  shows "\<exists>tw' h'. timeout_add tw h seconds ctx (Some a) now = Inr (tw', h', Some a) \<and>
     wheel_rel tw' h' (bs[s := (a, now + seconds, ctx) # bs ! s]) \<and>
     tw_current tw' = tw_current tw \<and> tw_resolution tw' = tw_resolution tw \<and>
     (\<forall>b. b \<noteq> a \<longrightarrow> b \<notin> wheel_addrs bs \<longrightarrow> h' b = h b)"
proof -
  let ?d = "nat (seconds div tw_resolution tw)"
  have slot: "(tw_current tw + seconds sdiv tw_resolution tw) smod tw_nbuckets tw = int s" "s < length bs"
    using ahead_slot [OF rel, of ?d] sec by (simp_all add: s sdiv_nonneg pos_imp_zdiv_nonneg_iff)
  let ?n = "\<lparr>te_ctx = ctx, te_deadline = now + seconds, te_next = None, te_prev = None, te_bucket = 0, te_active = True\<rparr>"
  have "te_active ?n" by simp
  moreover have "tw_nbuckets tw \<noteq> 0" using rel by (auto simp: wheel_rel_def)
  ultimately show ?thesis
    using link_front_rel [OF rel slot(2) a, of ?n] sec(2) by (auto simp: timeout_add_def slot(1))
qed

definition expired :: "int \<Rightarrow> tentry \<Rightarrow> bool" where
  "expired now e \<longleftrightarrow> fst (snd e) \<le> now"

text \<open>
  A tick on the lists: the entries of the current bucket are taken out; those that expired fire,
  in the order of the list, and the others go to the front of the next bucket.
\<close>

definition wheel_tick :: "nat \<Rightarrow> int \<Rightarrow> tentry list list \<Rightarrow> tentry list list \<times> tentry list" where
  "wheel_tick c now bs =
     (let es = bs ! c; bs = bs[c := []]; j = (c + 1) mod length bs
      in (bs[j := rev (filter (\<lambda>e. \<not> expired now e) es) @ bs ! j], filter (expired now) es))"

abbreviation ctxs :: "tentry list \<Rightarrow> nat list" where
  "ctxs es \<equiv> map (\<lambda>e. snd (snd e)) es"

lemma tick_loop_rel:
  assumes "wheel_rel tw h bs" "chain h e es" "distinct (map fst es)" "addrs es \<inter> wheel_addrs bs = {}"
    "dom h \<subseteq> wheel_addrs bs \<union> addrs es"
    and i: "i = ahead tw 1"
  shows "\<exists>tw' h'. tick_loop tw h now e fired = Some (Inr (tw', h', fired @ ctxs (filter (expired now) es))) \<and>
     wheel_rel tw' h' (bs[i := rev (filter (\<lambda>e. \<not> expired now e) es) @ bs ! i]) \<and>
     dom h' \<subseteq> wheel_addrs (bs[i := rev (filter (\<lambda>e. \<not> expired now e) es) @ bs ! i]) \<and>
     tw_current tw' = tw_current tw \<and> tw_resolution tw' = tw_resolution tw"
  using assms
proof (induction es arbitrary: tw h bs e fired)
  case Nil
  then show ?case by (auto simp: tick_loop.simps)
next
  case (Cons x es)
  obtain a dl cx where x: "x = (a, dl, cx)" by (cases x)
  with Cons.prems(2) obtain n where e: "e = Some a" and n: "h a = Some n" "te_ctx n = cx" "te_deadline n = dl"
    "te_active n" "chain h (te_next n) es" by auto
  have a: "a \<notin> addrs es" "a \<notin> wheel_addrs bs" "addrs es \<inter> wheel_addrs bs = {}" "distinct (map fst es)"
    "dom h \<subseteq> insert a (wheel_addrs bs \<union> addrs es)"
    using Cons.prems(3,4,5) by (auto simp: x)
  show ?case
  proof (cases "dl \<le> now")
    case True
    define h1 where "h1 = h(a := None)"
    have rel: "wheel_rel tw h1 bs"
      using a(2) by (auto simp: h1_def intro: wheel_rel_frame [OF Cons.prems(1)])
    have c: "chain h1 (te_next n) es" using n(5) a(1) by (simp add: h1_def)
    have "dom h1 \<subseteq> wheel_addrs bs \<union> addrs es" using a(5) by (auto simp: h1_def)
    note IH = Cons.IH [OF rel c a(4,3) this Cons.prems(6), of "fired @ [cx]"]
    have "tick_loop tw h now e fired = tick_loop tw h1 now (te_next n) (fired @ [cx])"
      using True n by (simp add: tick_loop.simps [of tw h] e h1_def)
    with IH show ?thesis using True by (simp add: x expired_def)
  next
    case False
    have i: "i < length bs" and slot: "(tw_current tw + 1) smod tw_nbuckets tw = int i"
      using ahead_slot [OF Cons.prems(1), of 1] Cons.prems(6) by simp_all
    let ?tw = "tw\<lparr>tw_buckets := (tw_buckets tw)[i := Some a]\<rparr>"
    let ?bs = "bs[i := (a, te_deadline n, te_ctx n) # bs ! i]"
    from link_front_rel [OF Cons.prems(1) i a(2) n(4)] obtain h' where
      h': "link_front tw h (int i) a n = Inr (?tw, h')" "wheel_rel ?tw h' ?bs"
        "\<forall>b. b \<noteq> a \<longrightarrow> b \<notin> wheel_addrs bs \<longrightarrow> h' b = h b" by blast
    have sub: "wheel_addrs ?bs = insert a (wheel_addrs bs)"
      using wheel_addrs_cons [OF i, of "(a, te_deadline n, te_ctx n)"] by simp
    have "chain h' (te_next n) es" using n(5) a(1,3) h'(3) chain_cong [of es h' h] by (metis disjoint_iff)
    moreover have "addrs es \<inter> wheel_addrs ?bs = {}" using a(1,3) by (simp add: sub)
    moreover have "dom h' \<subseteq> wheel_addrs ?bs \<union> addrs es"
      using dom_frame [OF h'(3)] a(5) by (auto simp: sub)
    moreover have "i = ahead ?tw 1" by (simp add: ahead_def Cons.prems(6))
    moreover have "tick_loop tw h now e fired = tick_loop ?tw h' now (te_next n) fired"
      using False n h'(1) by (simp add: tick_loop.simps [of tw h] e slot)
    ultimately show ?thesis
      using Cons.IH [OF h'(2) _ a(4), of "te_next n" fired] False i n(2,3) by (simp add: x expired_def)
  qed
qed

lemma timeout_tick_rel:
  assumes rel: "wheel_rel tw h bs" and "dom h \<subseteq> wheel_addrs bs" and c: "c = ahead tw 1"
  shows "\<exists>tw' h'. timeout_tick tw h now = Some (Inr (tw', h', ctxs (snd (wheel_tick c now bs)))) \<and>
     wheel_rel tw' h' (fst (wheel_tick c now bs)) \<and> dom h' \<subseteq> wheel_addrs (fst (wheel_tick c now bs)) \<and>
     tw_current tw' = int c \<and> tw_resolution tw' = tw_resolution tw"
proof -
  have l: "c < length bs" and slot: "(tw_current tw + 1) smod tw_nbuckets tw = int c"
    using ahead_slot [OF rel, of 1] c by simp_all
  have len: "length (tw_buckets tw) = length bs" "tw_nbuckets tw \<noteq> 0" using rel by (auto simp: wheel_rel_def)
  let ?tw = "tw\<lparr>tw_current := int c, tw_buckets := (tw_buckets tw)[c := None]\<rparr>"
  from wheel_rel_nth [OF rel l] obtain l' where
    seg: "dseg (int c) h None (tw_buckets tw ! c) (bs ! c) None l'" and dist: "distinct (map fst (bs ! c))"
    and apart: "\<And>j. j < length bs \<Longrightarrow> j \<noteq> c \<Longrightarrow> addrs (bs ! c) \<inter> addrs (bs ! j) = {}" by blast
  have "wheel_rel (tw\<lparr>tw_current := int c\<rparr>) h bs" using wheel_rel_current [OF rel] l by simp
  then have rel': "wheel_rel ?tw h (bs[c := []])"
    using wheel_rel_update [of "tw\<lparr>tw_current := int c\<rparr>" h bs c h None "[]" None] l by simp
  have disj: "addrs (bs ! c) \<inter> wheel_addrs (bs[c := []]) = {}"
  proof (rule ccontr)
    assume "addrs (bs ! c) \<inter> wheel_addrs (bs[c := []]) \<noteq> {}"
    then obtain b where b: "b \<in> addrs (bs ! c)" "b \<in> wheel_addrs (bs[c := []])" by blast
    from b(2) obtain j where j: "j < length bs" "b \<in> addrs (bs[c := []] ! j)"
      unfolding wheel_addrs_iff by auto
    then have "j \<noteq> c" using l by auto
    with j apart [OF j(1)] b(1) show False by auto
  qed
  have dom: "dom h \<subseteq> wheel_addrs (bs[c := []]) \<union> addrs (bs ! c)"
    using assms(2) wheel_addrs_split [OF l, of "bs ! c"] by (simp add: Un_commute)
  have next_i: "(c + 1) mod length bs = ahead ?tw 1" by (simp add: ahead_def len)
  have "timeout_tick tw h now = tick_loop ?tw h now (tw_buckets tw ! c) []"
    using len l by (simp add: timeout_tick_def slot Let_def)
  moreover have "fst (wheel_tick c now bs) = bs[c := [], (c + 1) mod length bs :=
      rev (filter (\<lambda>e. \<not> expired now e) (bs ! c)) @ bs[c := []] ! ((c + 1) mod length bs)]"
    "snd (wheel_tick c now bs) = filter (expired now) (bs ! c)"
    by (simp_all add: wheel_tick_def Let_def)
  ultimately show ?thesis
    using tick_loop_rel [OF rel' dseg_chain [OF seg refl] dist disj dom next_i, of now "[]"] by simp
qed

text \<open>Taking an entry out of the middle of its list.\<close>

lemma dseg_last:
  assumes "dseg i h None p xs r m" "distinct (map fst xs)"
  shows "m = None \<Longrightarrow> xs = [] \<and> p = r"
    and "m = Some b \<Longrightarrow> \<exists>n. h b = Some n \<and> b \<in> addrs xs \<and>
      dseg i (h(b \<mapsto> n\<lparr>te_next := q\<rparr>)) None p xs q (Some b)"
  using assms by (cases xs rule: rev_cases; force simp: dseg_append)+

lemma dseg_first:
  assumes "dseg i h prv (Some c) ys None l" "distinct (map fst ys)"
  shows "\<exists>n. h c = Some n \<and> c \<in> addrs ys \<and> dseg i (h(c \<mapsto> n\<lparr>te_prev := x\<rparr>)) x (Some c) ys None l"
  using assms by (cases ys) auto

text \<open>The two halves of \<^verbatim>\<open>timeout_remove\<close>: the entry before it and the entry after it.\<close>

lemma unlink_prev:
  assumes xs: "dseg (int i) h None (tw_buckets tw ! i) xs (Some a) prv" and d: "distinct (map fst xs)"
  obtains p1 h1 where "(case prv of
        Some b \<Rightarrow> mbind (upd_entry h b (\<lambda>m. m\<lparr>te_next := nxt\<rparr>)) (\<lambda>h. Inr (tw, h))
      | None \<Rightarrow> Inr (tw\<lparr>tw_buckets := (tw_buckets tw)[i := nxt]\<rparr>, h)) =
        Inr (tw\<lparr>tw_buckets := (tw_buckets tw)[i := p1]\<rparr>, h1)"
    "dseg (int i) h1 None p1 xs nxt prv" "\<And>b. b \<notin> addrs xs \<Longrightarrow> h1 b = h b"
proof (cases prv)
  case None
  then show ?thesis using that [of nxt h] dseg_last(1) [OF xs d] xs by auto
next
  case (Some b)
  then obtain m where m: "h b = Some m" "b \<in> addrs xs"
    "dseg (int i) (h(b \<mapsto> m\<lparr>te_next := nxt\<rparr>)) None (tw_buckets tw ! i) xs nxt (Some b)"
    using dseg_last(2) [OF xs d Some, of nxt] by blast
  show ?thesis
    by (rule that [of "tw_buckets tw ! i" "h(b \<mapsto> m\<lparr>te_next := nxt\<rparr>)"])
      (use m Some in \<open>auto simp: upd_entry_def mbind_def\<close>)
qed

lemma unlink_next:
  assumes ys: "dseg i h (Some a) nxt ys None l" and d: "distinct (map fst ys)"
  obtains h2 l2 where "(case nxt of Some c \<Rightarrow> upd_entry h c (\<lambda>m. m\<lparr>te_prev := prv\<rparr>) | None \<Rightarrow> Inr h) = Inr h2"
    "dseg i h2 prv nxt ys None l2" "\<And>b. b \<notin> addrs ys \<Longrightarrow> h2 b = h b"
proof (cases nxt)
  case None
  then have "ys = []" using ys dseg_head by metis
  then show ?thesis using that [of h prv] None by simp
next
  case (Some c)
  then obtain m where m: "h c = Some m" "c \<in> addrs ys" "dseg i (h(c \<mapsto> m\<lparr>te_prev := prv\<rparr>)) prv (Some c) ys None l"
    using dseg_first [of i h "Some a" c ys l prv] ys d by auto
  show ?thesis
    by (rule that [of "h(c \<mapsto> m\<lparr>te_prev := prv\<rparr>)" l]) (use m Some in \<open>auto simp: upd_entry_def\<close>)
qed

lemma timeout_remove_rel:
  assumes rel: "wheel_rel tw h bs" and i: "i < length bs" and es: "bs ! i = xs @ (a, dl, cx) # ys"
  shows "\<exists>tw' h'. timeout_remove tw h (Some a) = Inr (tw', h') \<and> wheel_rel tw' h' (bs[i := xs @ ys]) \<and>
     tw_current tw' = tw_current tw \<and> tw_resolution tw' = tw_resolution tw \<and> h' a = None \<and>
     (\<forall>b. b \<notin> wheel_addrs bs \<longrightarrow> h' b = h b)"
proof -
  from wheel_rel_nth [OF rel i] obtain l where
    seg: "dseg (int i) h None (tw_buckets tw ! i) (bs ! i) None l" and dist: "distinct (map fst (bs ! i))"
    and apart: "\<And>j. j < length bs \<Longrightarrow> j \<noteq> i \<Longrightarrow> addrs (bs ! i) \<inter> addrs (bs ! j) = {}" by blast
  have len: "length (tw_buckets tw) = length bs" using rel by (simp add: wheel_rel_def)
  from seg obtain n where n: "h a = Some n" "te_active n" "te_bucket n = int i"
    and xs: "dseg (int i) h None (tw_buckets tw ! i) xs (Some a) (te_prev n)"
    and ys: "dseg (int i) h (Some a) (te_next n) ys None l" by (auto simp: es dseg_append)
  from dist have d: "distinct (map fst xs)" "distinct (map fst ys)" "a \<notin> addrs xs" "a \<notin> addrs ys"
    "addrs xs \<inter> addrs ys = {}" by (auto simp: es)
  obtain p1 h1 where s1: "(case te_prev n of
        Some b \<Rightarrow> mbind (upd_entry h b (\<lambda>m. m\<lparr>te_next := te_next n\<rparr>)) (\<lambda>h. Inr (tw, h))
      | None \<Rightarrow> Inr (tw\<lparr>tw_buckets := (tw_buckets tw)[i := te_next n]\<rparr>, h)) =
        Inr (tw\<lparr>tw_buckets := (tw_buckets tw)[i := p1]\<rparr>, h1)"
    "dseg (int i) h1 None p1 xs (te_next n) (te_prev n)" "\<And>b. b \<notin> addrs xs \<Longrightarrow> h1 b = h b"
    by (rule unlink_prev [OF xs d(1), where nxt = "te_next n"]) (rule that)
  have ys1: "dseg (int i) h1 (Some a) (te_next n) ys None l"
    using ys d(5) s1(3) dseg_cong [of ys h1 h] by (metis disjoint_iff)
  obtain h2 l2 where s2: "(case te_next n of Some c \<Rightarrow> upd_entry h1 c (\<lambda>m. m\<lparr>te_prev := te_prev n\<rparr>) | None \<Rightarrow> Inr h1) = Inr h2"
    "dseg (int i) h2 (te_prev n) (te_next n) ys None l2" "\<And>b. b \<notin> addrs ys \<Longrightarrow> h2 b = h1 b"
    by (rule unlink_next [OF ys1 d(2), where prv = "te_prev n"]) (rule that)
  let ?h = "h2(a := None)"
  have frame: "b \<noteq> a" "?h b = h b" if "b \<notin> addrs (bs ! i)" for b
    using s1(3) [of b] s2(3) [of b] that by (auto simp: es image_Un)
  have "dseg (int i) h2 None p1 xs (te_next n) (te_prev n)"
    using s1(2) d(5) s2(3) dseg_cong [of xs h2 h1] by (metis disjoint_iff)
  then have "dseg (int i) ?h None p1 (xs @ ys) None l2" using s2(2) d(3,4) by (auto simp: dseg_append)
  moreover have "distinct (map fst (xs @ ys))" using d by auto
  moreover have "?h b = h b" if "j < length bs" "j \<noteq> i" "b \<in> addrs (bs ! j)" for b j
    using apart [OF that(1,2)] that(3) frame(2) [of b] by blast
  moreover have "addrs (xs @ ys) \<inter> addrs (bs ! j) = {}" if "j < length bs" "j \<noteq> i" for j
    using apart [OF that] by (auto simp: es)
  ultimately have "wheel_rel (tw\<lparr>tw_buckets := (tw_buckets tw)[i := p1]\<rparr>) ?h (bs[i := xs @ ys])"
    by (rule wheel_rel_update [OF rel i])
  moreover have "timeout_remove tw h (Some a) = Inr (tw\<lparr>tw_buckets := (tw_buckets tw)[i := p1]\<rparr>, ?h)"
    using n s1(1) s2(1) i len by (simp add: timeout_remove_def Let_def cong: option.case_cong)
  moreover have "?h b = h b" if "b \<notin> wheel_addrs bs" for b
    using frame(2) [of b] that wheel_addrs_nth [OF i] by blast
  ultimately show ?thesis by auto
qed

text \<open>Freeing every bucket ends with an empty heap, when the heap holds the wheel's entries only.\<close>

lemma destroy_bucket_chain:
  "chain h p es \<Longrightarrow> distinct (map fst es) \<Longrightarrow> destroy_bucket h p = Some (Inr (\<lambda>a. if a \<in> addrs es then None else h a))"
proof (induction es arbitrary: h p)
  case Nil
  then show ?case by (simp add: destroy_bucket.simps)
next
  case (Cons x es)
  obtain a dl cx where x: "x = (a, dl, cx)" by (cases x)
  with Cons.prems obtain n where n: "p = Some a" "h a = Some n" "chain h (te_next n) es" "a \<notin> addrs es" by auto
  define h1 where "h1 = h(a := None)"
  have c: "chain h1 (te_next n) es" unfolding h1_def using n(3,4) by simp
  have "destroy_bucket h p = destroy_bucket h1 (te_next n)"
    using n by (simp add: destroy_bucket.simps [of h] h1_def)
  also have "\<dots> = Some (Inr (\<lambda>b. if b \<in> addrs es then None else h1 b))"
    using Cons.prems(2) by (intro Cons.IH [OF c]) simp
  also have "(\<lambda>b. if b \<in> addrs es then None else h1 b) = (\<lambda>b. if b \<in> addrs (x # es) then None else h b)"
    by (auto simp: x h1_def)
  finally show ?case .
qed

lemma destroy_buckets_chain:
  assumes "list_all2 (\<lambda>p es. chain h p es \<and> distinct (map fst es)) ps bs"
    "sorted_wrt (\<lambda>xs ys. addrs xs \<inter> addrs ys = {}) bs"
  shows "destroy_buckets h ps = Some (Inr (\<lambda>a. if a \<in> wheel_addrs bs then None else h a))"
  using assms
proof (induction bs arbitrary: h ps rule: list.induct)
  case Nil
  then have "ps = []" by (simp only: list_all2_Nil2)
  then show ?case by (simp add: wheel_addrs_def)
next
  case (Cons es bs)
  then obtain p qs where ps: "ps = p # qs" "chain h p es" "distinct (map fst es)"
    "list_all2 (\<lambda>p es. chain h p es \<and> distinct (map fst es)) qs bs" by (auto simp: list_all2_Cons2)
  define h1 where "h1 = (\<lambda>a. if a \<in> addrs es then None else h a)"
  have same: "chain h1 q ys" if "ys \<in> set bs" "chain h q ys" for q ys
  proof -
    have "addrs es \<inter> addrs ys = {}" using that(1) Cons.prems(2) by simp
    then have "h1 a = h a" if "a \<in> addrs ys" for a using that unfolding h1_def by auto
    then have "chain h1 q ys = chain h q ys" by (rule chain_cong)
    from this that(2) show ?thesis by (rule iffD2)
  qed
  have "list_all2 (\<lambda>p es. chain h1 p es \<and> distinct (map fst es)) qs bs"
    by (rule list.rel_mono_strong [OF ps(4)]) (auto intro: same)
  then have "destroy_buckets h1 qs = Some (Inr (\<lambda>a. if a \<in> wheel_addrs bs then None else h1 a))"
    using Cons.prems(2) by (intro Cons.IH) simp_all
  moreover have "(\<lambda>a. if a \<in> wheel_addrs bs then None else h1 a) = (\<lambda>a. if a \<in> wheel_addrs (es # bs) then None else h a)"
    by (auto simp: h1_def wheel_addrs_def)
  ultimately show ?case
    using destroy_bucket_chain [OF ps(2,3)] by (simp add: ps(1) h1_def)
qed

lemma timeout_wheel_destroy_rel:
  assumes rel: "wheel_rel tw h bs" and "dom h \<subseteq> wheel_addrs bs"
  shows "timeout_wheel_destroy tw h = Some (Inr Map.empty)"
proof -
  have "list_all2 (\<lambda>p es. chain h p es \<and> distinct (map fst es)) (tw_buckets tw) bs"
    using rel by (auto simp: wheel_rel_def list_all2_conv_all_nth intro: dseg_chain)
  moreover have "sorted_wrt (\<lambda>xs ys. addrs xs \<inter> addrs ys = {}) bs"
    unfolding sorted_wrt_iff_nth_less
  proof (intro allI impI)
    fix i j assume ij: "i < j" "j < length bs"
    then have "i < length bs" "i \<noteq> j" by simp_all
    with ij(2) rel show "addrs (bs ! i) \<inter> addrs (bs ! j) = {}" unfolding wheel_rel_def by blast
  qed
  ultimately have "timeout_wheel_destroy tw h = Some (Inr (\<lambda>a. if a \<in> wheel_addrs bs then None else h a))"
    unfolding timeout_wheel_destroy_def by (rule destroy_buckets_chain)
  moreover have "(\<lambda>a. if a \<in> wheel_addrs bs then None else h a) = Map.empty"
    using assms(2) by (intro ext) (auto simp: domIff)
  ultimately show ?thesis by simp
qed

section \<open>Every run of the wheel\<close>

text \<open>
  The states a wheel can be in: created with a positive number of buckets and a positive
  resolution, then any sequence of additions of non-negative timeouts (at an address that
  \<^verbatim>\<open>malloc\<close> found free), removals of live entries and ticks, at any times.
\<close>

inductive wheel_run :: "timeout_wheel \<Rightarrow> theap \<Rightarrow> bool" where
  create: "timeout_wheel_create n r True True = Some tw \<Longrightarrow> 0 < n \<Longrightarrow> 0 < r \<Longrightarrow> wheel_run tw Map.empty"
| add: "wheel_run tw h \<Longrightarrow> h a = None \<Longrightarrow> 0 \<le> seconds \<Longrightarrow>
    timeout_add tw h seconds ctx (Some a) now = Inr (tw', h', e) \<Longrightarrow> wheel_run tw' h'"
| remove: "wheel_run tw h \<Longrightarrow> h a \<noteq> None \<Longrightarrow> timeout_remove tw h (Some a) = Inr (tw', h') \<Longrightarrow> wheel_run tw' h'"
| tick: "wheel_run tw h \<Longrightarrow> timeout_tick tw h now = Some (Inr (tw', h', fired)) \<Longrightarrow> wheel_run tw' h'"

definition wheel_inv :: "timeout_wheel \<Rightarrow> theap \<Rightarrow> tentry list list \<Rightarrow> bool" where
  "wheel_inv tw h bs \<longleftrightarrow> wheel_rel tw h bs \<and> dom h = wheel_addrs bs \<and> 0 < tw_resolution tw"

lemma dseg_dom: "dseg i h prv p es q l \<Longrightarrow> addrs es \<subseteq> dom h"
  by (induction i h prv p es q l rule: dseg.induct) auto

lemma wheel_rel_dom:
  assumes "wheel_rel tw h bs"
  shows "wheel_addrs bs \<subseteq> dom h"
proof
  fix a assume "a \<in> wheel_addrs bs"
  then obtain i where i: "i < length bs" "a \<in> addrs (bs ! i)" unfolding wheel_addrs_iff by blast
  from assms i(1) obtain l where "dseg (int i) h None (tw_buckets tw ! i) (bs ! i) None l" by (auto simp: wheel_rel_def)
  from dseg_dom [OF this] i(2) show "a \<in> dom h" by (rule subsetD)
qed

lemma wheel_invI: "wheel_rel tw h bs \<Longrightarrow> dom h \<subseteq> wheel_addrs bs \<Longrightarrow> 0 < tw_resolution tw \<Longrightarrow> wheel_inv tw h bs"
  unfolding wheel_inv_def by (intro conjI equalityI wheel_rel_dom)

lemma wheel_inv_add:
  assumes inv: "wheel_inv tw h bs" and "0 \<le> seconds" "h a = None"
    and s: "s = ahead tw (nat (seconds div tw_resolution tw))"
  shows "\<exists>tw' h'. timeout_add tw h seconds ctx (Some a) now = Inr (tw', h', Some a) \<and>
     wheel_inv tw' h' (bs[s := (a, now + seconds, ctx) # bs ! s]) \<and> tw_current tw' = tw_current tw"
proof -
  have rel: "wheel_rel tw h bs" "dom h = wheel_addrs bs" "0 < tw_resolution tw" "a \<notin> wheel_addrs bs"
    using inv assms(3) by (auto simp: wheel_inv_def)
  have "s < length bs" unfolding s by (rule ahead_slot(2) [OF rel(1)])
  note c = wheel_addrs_cons [OF this, of "(a, now + seconds, ctx)"]
  from timeout_add_rel [OF rel(1) assms(2) rel(3,4) s, of ctx now] obtain tw' h' where
    o: "timeout_add tw h seconds ctx (Some a) now = Inr (tw', h', Some a)"
      "wheel_rel tw' h' (bs[s := (a, now + seconds, ctx) # bs ! s])" "tw_current tw' = tw_current tw"
      "tw_resolution tw' = tw_resolution tw" "\<forall>b. b \<noteq> a \<longrightarrow> b \<notin> wheel_addrs bs \<longrightarrow> h' b = h b" by blast
  have "dom h' \<subseteq> wheel_addrs (bs[s := (a, now + seconds, ctx) # bs ! s])"
    using dom_frame [OF o(5)] by (simp add: c rel(2))
  then have "wheel_inv tw' h' (bs[s := (a, now + seconds, ctx) # bs ! s])"
    using o(2,4) rel(3) by (intro wheel_invI) simp_all
  with o(1,3) show ?thesis by blast
qed

lemma wheel_inv_remove:
  assumes inv: "wheel_inv tw h bs" and a: "h a \<noteq> None"
  shows "\<exists>i xs e ys tw' h'. i < length bs \<and> bs ! i = xs @ e # ys \<and> fst e = a \<and>
     timeout_remove tw h (Some a) = Inr (tw', h') \<and> wheel_inv tw' h' (bs[i := xs @ ys]) \<and>
     tw_current tw' = tw_current tw \<and> dom h' = dom h - {a}"
proof -
  have rel: "wheel_rel tw h bs" "dom h = wheel_addrs bs" "0 < tw_resolution tw" using inv by (auto simp: wheel_inv_def)
  then have "a \<in> wheel_addrs bs" using a by auto
  then obtain i dl cx where i: "i < length bs" "(a, dl, cx) \<in> set (bs ! i)" unfolding wheel_addrs_iff by force
  then obtain xs ys where es: "bs ! i = xs @ (a, dl, cx) # ys" by (meson split_list)
  from timeout_remove_rel [OF rel(1) i(1) es] obtain tw' h' where
    o: "timeout_remove tw h (Some a) = Inr (tw', h')" "wheel_rel tw' h' (bs[i := xs @ ys])"
      "tw_current tw' = tw_current tw" "tw_resolution tw' = tw_resolution tw" "h' a = None"
      "\<forall>b. b \<notin> wheel_addrs bs \<longrightarrow> h' b = h b" by blast
  have split: "wheel_addrs bs = insert a (wheel_addrs (bs[i := xs @ ys]))"
    using wheel_addrs_split [OF i(1), of "bs ! i", unfolded list_update_id] wheel_addrs_split [OF i(1), of "xs @ ys"]
    by (simp add: es image_Un)
  have "dom h' \<subseteq> insert a (wheel_addrs (bs[i := xs @ ys]))" using o(6) rel(2) unfolding split by auto
  moreover have "a \<notin> dom h'" using o(5) by auto
  ultimately have "dom h' \<subseteq> wheel_addrs (bs[i := xs @ ys])" using subset_insert by metis
  then have inv': "wheel_inv tw' h' (bs[i := xs @ ys])" using o(2,4) rel(3) by (intro wheel_invI) simp_all
  then have "dom h' = dom h - {a}" using o(5) unfolding wheel_inv_def rel(2) split by auto
  moreover have "fst (a, dl, cx) = a" by simp
  ultimately show ?thesis using inv' o(1,3) i(1) es by blast
qed

lemma wheel_inv_tick:
  assumes inv: "wheel_inv tw h bs" and c: "c = ahead tw 1"
  shows "\<exists>tw' h'. timeout_tick tw h now = Some (Inr (tw', h', ctxs (snd (wheel_tick c now bs)))) \<and>
     wheel_inv tw' h' (fst (wheel_tick c now bs)) \<and> tw_current tw' = int c"
proof -
  have rel: "wheel_rel tw h bs" "dom h \<subseteq> wheel_addrs bs" "0 < tw_resolution tw" using inv by (simp_all add: wheel_inv_def)
  from timeout_tick_rel [OF rel(1,2) c, of now] show ?thesis using rel(3) wheel_invI by metis
qed

lemma wheel_run_inv: "wheel_run tw h \<Longrightarrow> \<exists>bs. wheel_inv tw h bs"
proof (induction rule: wheel_run.induct)
  case (create n r tw)
  have "wheel_inv tw Map.empty (replicate (nat n) [])"
    using timeout_wheel_create_rel [OF create(2,1)] create(1,3)
    by (intro wheel_invI) (auto simp: timeout_wheel_create_def)
  then show ?case ..
next
  case (add tw h a seconds ctx now tw' h' e)
  then obtain bs where "wheel_inv tw h bs" by blast
  from wheel_inv_add [OF this add.hyps(3,2) refl, of ctx now] add.hyps(4) show ?case by auto
next
  case (remove tw h a tw' h')
  then obtain bs where "wheel_inv tw h bs" by blast
  from wheel_inv_remove [OF this remove.hyps(2)] remove.hyps(3) show ?case by auto
next
  case (tick tw h now tw' h' fired)
  then obtain bs where "wheel_inv tw h bs" by blast
  from wheel_inv_tick [OF this refl, of now] tick.hyps(2) show ?case by auto
qed

section \<open>When a timer fires\<close>

text \<open>A sequence of ticks, with the contexts that each one fired.\<close>

fun run_ticks :: "timeout_wheel \<Rightarrow> theap \<Rightarrow> int list \<Rightarrow> (timeout_wheel \<times> theap \<times> nat list list) mem option" where
  "run_ticks tw h [] = Some (Inr (tw, h, []))"
| "run_ticks tw h (t # ts) =
     (case timeout_tick tw h t of
        None \<Rightarrow> None
      | Some (Inl f) \<Rightarrow> Some (Inl f)
      | Some (Inr (tw, h, fired)) \<Rightarrow>
          (case run_ticks tw h ts of
             None \<Rightarrow> None
           | Some (Inl f) \<Rightarrow> Some (Inl f)
           | Some (Inr (tw, h, fs)) \<Rightarrow> Some (Inr (tw, h, fired # fs))))"

fun wheel_ticks :: "nat \<Rightarrow> int list \<Rightarrow> tentry list list \<Rightarrow> tentry list list" where
  "wheel_ticks c [] bs = []"
| "wheel_ticks c (t # ts) bs =
     (let c = (c + 1) mod length bs; r = wheel_tick c t bs in snd r # wheel_ticks c ts (fst r))"

text \<open>
  The first tick, from 0, that is at least the \<open>d\<close>-th and at which the deadline has passed.
\<close>

fun first_due :: "nat \<Rightarrow> int \<Rightarrow> int list \<Rightarrow> nat option" where
  "first_due d dl [] = None"
| "first_due d dl (t # ts) =
     (if d \<le> 1 \<and> dl \<le> t then Some 0 else map_option Suc (first_due (d - 1) dl ts))"

lemma run_ticks_rel:
  assumes "wheel_inv tw h bs"
  shows "\<exists>tw' h' bs'. run_ticks tw h ts = Some (Inr (tw', h', map ctxs (wheel_ticks (nat (tw_current tw)) ts bs))) \<and>
    wheel_inv tw' h' bs'"
  using assms
proof (induction ts arbitrary: tw h bs)
  case Nil
  then show ?case by auto
next
  case (Cons t ts)
  have len: "length (tw_buckets tw) = length bs" using Cons.prems by (simp add: wheel_inv_def wheel_rel_def)
  define c where "c = ahead tw 1"
  then have c': "(nat (tw_current tw) + 1) mod length bs = c" by (simp add: ahead_def len)
  from wheel_inv_tick [OF Cons.prems c_def, of t] obtain tw' h' where
    o: "timeout_tick tw h t = Some (Inr (tw', h', ctxs (snd (wheel_tick c t bs))))"
      "wheel_inv tw' h' (fst (wheel_tick c t bs))" "tw_current tw' = int c" by blast
  from Cons.IH [OF o(2)] o(1,3) c' show ?case by (auto simp: Let_def)
qed

lemma wheel_tick_length [simp]: "length (fst (wheel_tick c t bs)) = length bs"
  by (simp add: wheel_tick_def Let_def)

lemma wheel_tick_nth:
  assumes "c < length bs" "j < length bs"
  shows "fst (wheel_tick c t bs) ! j =
    (if j = (c + 1) mod length bs then rev (filter (\<lambda>e. \<not> expired t e) (bs ! c)) @ (if j = c then [] else bs ! j)
     else if j = c then [] else bs ! j)"
  using assms by (auto simp: wheel_tick_def Let_def nth_list_update)

text \<open>
  The only entry with its context is \<open>x\<close>, and it is in bucket \<open>p\<close>; and: there is no such entry.
\<close>

definition only_at :: "nat \<Rightarrow> tentry \<Rightarrow> tentry list list \<Rightarrow> bool" where
  "only_at p x bs \<longleftrightarrow> (\<forall>j < length bs. filter (\<lambda>e. snd (snd e) = snd (snd x)) (bs ! j) = (if j = p then [x] else []))"

definition no_ctx :: "nat \<Rightarrow> tentry list list \<Rightarrow> bool" where
  "no_ctx cx bs \<longleftrightarrow> (\<forall>j < length bs. filter (\<lambda>e. snd (snd e) = cx) (bs ! j) = [])"

lemma filter_swap: "filter P (filter Q xs) = filter Q (filter P xs)"
  by (simp add: conj_commute)

lemma no_ctx_tick:
  assumes "no_ctx cx bs" "c < length bs"
  shows "no_ctx cx (fst (wheel_tick c t bs))" "filter (\<lambda>e. snd (snd e) = cx) (snd (wheel_tick c t bs)) = []"
proof -
  have "filter (\<lambda>e. snd (snd e) = cx) (filter Q (bs ! c)) = []" for Q
    using assms filter_swap [of "\<lambda>e. snd (snd e) = cx" Q "bs ! c"] by (simp add: no_ctx_def)
  then show "no_ctx cx (fst (wheel_tick c t bs))" "filter (\<lambda>e. snd (snd e) = cx) (snd (wheel_tick c t bs)) = []"
    using assms by (simp_all add: no_ctx_def wheel_tick_nth rev_filter [symmetric] del: filter_filter)
      (simp add: wheel_tick_def Let_def del: filter_filter)
qed

lemma no_ctx_ticks:
  "no_ctx cx bs \<Longrightarrow> bs \<noteq> [] \<Longrightarrow> k < length ts \<Longrightarrow> filter (\<lambda>e. snd (snd e) = cx) (wheel_ticks c ts bs ! k) = []"
proof (induction ts arbitrary: c bs k)
  case Nil
  then show ?case by simp
next
  case (Cons t ts)
  let ?c = "(c + 1) mod length bs"
  have "?c < length bs" using Cons.prems(2) by simp
  note t = no_ctx_tick [OF Cons.prems(1) this, of t]
  have "fst (wheel_tick ?c t bs) \<noteq> []" using Cons.prems(2) wheel_tick_length [of ?c t bs] by (metis length_0_conv)
  with Cons.IH [OF t(1)] t(2) Cons.prems(3) show ?case by (cases k) (simp_all add: Let_def)
qed

text \<open>The entry while it waits in a later bucket, when it is scanned too early, and when it fires.\<close>

lemma only_at_tick:
  assumes "only_at p x bs" "c < length bs" "p < length bs"
  shows "p \<noteq> c \<Longrightarrow> only_at p x (fst (wheel_tick c t bs))"
    "p \<noteq> c \<Longrightarrow> filter (\<lambda>e. snd (snd e) = snd (snd x)) (snd (wheel_tick c t bs)) = []"
    "p = c \<Longrightarrow> \<not> expired t x \<Longrightarrow> only_at ((c + 1) mod length bs) x (fst (wheel_tick c t bs))"
    "p = c \<Longrightarrow> filter (\<lambda>e. snd (snd e) = snd (snd x)) (snd (wheel_tick c t bs)) = (if expired t x then [x] else [])"
    "p = c \<Longrightarrow> expired t x \<Longrightarrow> no_ctx (snd (snd x)) (fst (wheel_tick c t bs))"
proof -
  let ?f = "filter (\<lambda>e :: tentry. snd (snd e) = snd (snd x))"
  have j: "?f (bs ! j) = (if j = p then [x] else [])" if "j < length bs" for j
    using assms(1) that by (simp add: only_at_def)
  have f: "?f (filter Q (bs ! c)) = filter Q (if p = c then [x] else [])" for Q
    unfolding filter_swap [of _ Q] j [OF assms(2)] by (simp only: eq_commute [of c p])
  have s: "?f (snd (wheel_tick c t bs)) = filter (expired t) (if p = c then [x] else [])"
    unfolding wheel_tick_def Let_def snd_conv by (rule f)
  note simps = only_at_def no_ctx_def wheel_tick_nth [OF assms(2)] rev_filter [symmetric] f j
  show "p \<noteq> c \<Longrightarrow> only_at p x (fst (wheel_tick c t bs))" using assms by (simp add: simps del: filter_filter)
  show "p \<noteq> c \<Longrightarrow> ?f (snd (wheel_tick c t bs)) = []" by (simp add: s)
  show "p = c \<Longrightarrow> \<not> expired t x \<Longrightarrow> only_at ((c + 1) mod length bs) x (fst (wheel_tick c t bs))"
    using assms by (simp add: simps del: filter_filter)
  show "p = c \<Longrightarrow> ?f (snd (wheel_tick c t bs)) = (if expired t x then [x] else [])" by (simp add: s)
  show "p = c \<Longrightarrow> expired t x \<Longrightarrow> no_ctx (snd (snd x)) (fst (wheel_tick c t bs))"
    using assms by (simp add: simps del: filter_filter)
qed

lemma first_due_0 [simp]: "first_due 0 dl ts = first_due 1 dl ts"
  by (cases ts) simp_all

lemma mod_shift_eq:
  assumes "1 \<le> d" "d \<le> n"
  shows "(c + d) mod n = (c + 1) mod n \<longleftrightarrow> d = (1 :: nat)"
proof
  assume "(c + d) mod n = (c + 1) mod n"
  then have "n dvd (c + d) - (c + 1)" using assms(1) by (metis mod_eq_dvd_iff_nat add_le_cancel_left)
  then have "n dvd d - 1" using assms(1) by simp
  moreover have "d - 1 < n" using assms by simp
  ultimately show "d = 1" using assms(1) by (metis One_nat_def Suc_pred' dvd_imp_le less_eq_Suc_le not_less zero_less_diff le_antisym)
qed simp

lemma only_at_ticks:
  assumes "only_at ((c + d) mod length bs) (a, dl, cx) bs" "1 \<le> d" "d \<le> length bs" "k < length ts"
  shows "filter (\<lambda>e. snd (snd e) = cx) (wheel_ticks c ts bs ! k) =
    (if first_due d dl ts = Some k then [(a, dl, cx)] else [])"
  using assms
proof (induction ts arbitrary: c d bs k)
  case Nil
  then show ?case by simp
next
  case (Cons t ts)
  let ?c = "(c + 1) mod length bs" and ?p = "(c + d) mod length bs"
  let ?r = "wheel_tick ?c t bs"
  have l: "?c < length bs" "?p < length bs" "fst ?r \<noteq> []" "length (fst ?r) = length bs"
    using Cons.prems(2,3) wheel_tick_length [of ?c t bs] by (auto simp flip: length_0_conv)
  note tick = only_at_tick [OF Cons.prems(1) l(1,2), of t]
  have one: "?p = ?c \<longleftrightarrow> d = 1" using mod_shift_eq Cons.prems(2,3) by blast
  have IH: "filter (\<lambda>e. snd (snd e) = cx) (wheel_ticks ?c ts (fst ?r) ! j) =
      (if first_due d' dl ts = Some j then [(a, dl, cx)] else [])"
    if "only_at ((?c + d') mod length bs) (a, dl, cx) (fst ?r)" "1 \<le> d'" "d' \<le> length bs" "j < length ts" for d' j
    using Cons.IH [of ?c d' "fst ?r" j] that l(4) by simp
  show ?case
  proof (cases k)
    case 0
    then show ?thesis using tick(2,4) one Cons.prems(2) by (cases "d = 1") (simp_all add: Let_def expired_def)
  next
    case (Suc j)
    with Cons.prems(4) have j: "j < length ts" by simp
    consider "d = 1" "dl \<le> t" | "d = 1" "\<not> dl \<le> t" | "d \<noteq> 1" by blast
    then show ?thesis
    proof cases
      case 1
      then show ?thesis
        using no_ctx_ticks [OF _ l(3) j, of cx ?c] tick(5) one by (simp add: Suc Let_def expired_def)
    next
      case 2
      then show ?thesis using IH [of 1 j] tick(3) one j l by (simp add: Suc Let_def expired_def)
    next
      case 3
      have "(?c + (d - 1)) mod length bs = (c + 1 + (d - 1)) mod length bs" by (rule mod_add_left_eq)
      then have "(?c + (d - 1)) mod length bs = ?p" using Cons.prems(2) by simp
      then show ?thesis using IH [of "d - 1" j] tick(1) one j 3 Cons.prems(2,3) by (simp add: Suc Let_def)
    qed
  qed
qed

lemma wheel_ticks_length [simp]: "length (wheel_ticks c ts bs) = length ts"
  by (induction ts arbitrary: c bs) (simp_all add: Let_def)

lemma first_due_late: "first_due d dl ts = Some k \<Longrightarrow> d \<le> k + 1 \<and> k < length ts \<and> dl \<le> ts ! k"
proof (induction ts arbitrary: d k)
  case Nil
  then show ?case by simp
next
  case (Cons t ts)
  show ?case
  proof (cases k)
    case 0
    then show ?thesis using Cons.prems by (auto split: if_splits)
  next
    case (Suc j)
    then have "first_due (d - 1) dl ts = Some j" using Cons.prems by (auto split: if_splits)
    from Cons.IH [OF this] show ?thesis by (simp add: Suc) arith
  qed
qed

lemma dseg_ctx: "dseg i h prv p es q l \<Longrightarrow> e \<in> set es \<Longrightarrow> \<exists>n \<in> ran h. te_ctx n = snd (snd e)"
  by (induction i h prv p es q l rule: dseg.induct) (auto simp: ran_def)

lemma wheel_rel_no_ctx:
  assumes "wheel_rel tw h bs" "\<forall>n \<in> ran h. te_ctx n \<noteq> cx"
  shows "no_ctx cx bs"
  unfolding no_ctx_def
proof (intro allI impI)
  fix j assume "j < length bs"
  with assms(1) obtain l where "dseg (int j) h None (tw_buckets tw ! j) (bs ! j) None l" by (auto simp: wheel_rel_def)
  from dseg_ctx [OF this] assms(2) show "filter (\<lambda>e. snd (snd e) = cx) (bs ! j) = []" unfolding filter_empty_conv by metis
qed

lemma count_ctxs: "count_list (ctxs es) cx = length (filter (\<lambda>e. snd (snd e) = cx) es)"
  by (induction es) auto

text \<open>The number of ticks until a timer is looked at for the first time.\<close>

definition wait_ticks :: "timeout_wheel \<Rightarrow> int \<Rightarrow> nat" where
  "wait_ticks tw seconds =
     (let d = nat ((seconds div tw_resolution tw) mod tw_nbuckets tw) in if d = 0 then nat (tw_nbuckets tw) else d)"

lemma wait_ticks_slot:
  assumes "wheel_rel tw h bs" "0 \<le> seconds" "0 < tw_resolution tw"
  shows "ahead tw (nat (seconds div tw_resolution tw)) = (nat (tw_current tw) + wait_ticks tw seconds) mod length bs"
    "1 \<le> wait_ticks tw seconds" "wait_ticks tw seconds \<le> length bs"
proof -
  let ?q = "nat (seconds div tw_resolution tw)"
  have n: "tw_nbuckets tw = int (length bs)" "length (tw_buckets tw) = length bs" "0 < length bs"
    using assms(1) by (auto simp: wheel_rel_def)
  have "0 \<le> seconds div tw_resolution tw" using assms(2,3) by (simp add: pos_imp_zdiv_nonneg_iff)
  then have "nat ((seconds div tw_resolution tw) mod tw_nbuckets tw) = ?q mod length bs"
    using n(1) by (metis nat_int nat_mod_distrib of_nat_0_le_iff)
  then have w: "wait_ticks tw seconds = (if ?q mod length bs = 0 then length bs else ?q mod length bs)"
    by (simp add: wait_ticks_def n(1))
  show "1 \<le> wait_ticks tw seconds" "wait_ticks tw seconds \<le> length bs"
    using n(3) by (auto simp: w Suc_le_eq intro: order.strict_implies_order)
  have "wait_ticks tw seconds mod length bs = ?q mod length bs" by (simp add: w)
  then show "ahead tw ?q = (nat (tw_current tw) + wait_ticks tw seconds) mod length bs"
    by (simp add: ahead_def n(2)) (metis mod_add_right_eq)
qed

lemma short_timeout_wait:
  assumes "wheel_run tw h" "0 \<le> seconds" "seconds < tw_resolution tw"
  shows "wait_ticks tw seconds = nat (tw_nbuckets tw)"
    "first_due (wait_ticks tw seconds) dl ts = Some k \<Longrightarrow> nat (tw_nbuckets tw) \<le> k + 1"
proof -
  show w: "wait_ticks tw seconds = nat (tw_nbuckets tw)" using assms by (simp add: wait_ticks_def)
  show "first_due (wait_ticks tw seconds) dl ts = Some k \<Longrightarrow> nat (tw_nbuckets tw) \<le> k + 1"
    using first_due_late [of "wait_ticks tw seconds" dl ts k] unfolding w by simp
qed

text \<open>
  C16: However timers were added, removed and ticked before, adding a timer for a number of
  seconds that is not negative succeeds, and so does every later sequence of ticks; the timer's
  callback is called exactly once, in the first tick that is late enough for both its slot in
  the wheel and its deadline, and in no other tick (and never while no such tick has come).
\<close>

theorem timer_fires_once:
  assumes run: "wheel_run tw h" and new: "h a = None" "\<forall>n \<in> ran h. te_ctx n \<noteq> ctx" and sec: "0 \<le> seconds"
  shows "\<exists>tw1 h1 tw2 h2 fs. timeout_add tw h seconds ctx (Some a) now = Inr (tw1, h1, Some a) \<and>
    run_ticks tw1 h1 ts = Some (Inr (tw2, h2, fs)) \<and> length fs = length ts \<and>
    (\<forall>k < length ts. count_list (fs ! k) ctx =
      (if first_due (wait_ticks tw seconds) (now + seconds) ts = Some k then 1 else 0))"
proof -
  from wheel_run_inv [OF run] obtain bs where inv: "wheel_inv tw h bs" ..
  then have rel: "wheel_rel tw h bs" "0 < tw_resolution tw" by (simp_all add: wheel_inv_def)
  let ?c = "nat (tw_current tw)" and ?d = "wait_ticks tw seconds" and ?x = "(a, now + seconds, ctx)"
  note w = wait_ticks_slot [OF rel(1) sec rel(2)]
  define s where "s = (?c + ?d) mod length bs"
  let ?bs = "bs[s := ?x # bs ! s]"
  from wheel_inv_add [OF inv sec new(1) refl, of ctx now] obtain tw1 h1 where
    add: "timeout_add tw h seconds ctx (Some a) now = Inr (tw1, h1, Some a)"
      "wheel_inv tw1 h1 ?bs" "tw_current tw1 = tw_current tw" unfolding w(1) s_def by blast
  from run_ticks_rel [OF add(2), of ts] obtain tw2 h2 where
    ticks: "run_ticks tw1 h1 ts = Some (Inr (tw2, h2, map ctxs (wheel_ticks ?c ts ?bs)))" unfolding add(3) by blast
  have "0 < length bs" using w(2,3) by linarith
  then have "s < length bs" by (simp add: s_def)
  then have at: "only_at ((?c + ?d) mod length ?bs) ?x ?bs"
    using wheel_rel_no_ctx [OF rel(1) new(2)] by (auto simp: only_at_def no_ctx_def nth_list_update s_def)
  have "count_list (map ctxs (wheel_ticks ?c ts ?bs) ! k) ctx =
      (if first_due ?d (now + seconds) ts = Some k then 1 else 0)" if "k < length ts" for k
    using only_at_ticks [OF at w(2) _ that] w(3) that by (simp add: count_ctxs)
  with add(1) ticks show ?thesis by auto
qed

text \<open>A wheel of four buckets of one second.\<close>

definition demo_wheel :: timeout_wheel where
  "demo_wheel = \<lparr>tw_buckets = replicate 4 None, tw_nbuckets = 4, tw_resolution = 1, tw_current = 0\<rparr>"

lemma demo_wheel_run: "wheel_run demo_wheel Map.empty"
  by (rule wheel_run.create [of 4 1]) (simp_all add: timeout_wheel_create_def demo_wheel_def)

theorem timer_fires_once_witness:
  "\<exists>tw1 h1 tw2 h2 fs. timeout_add demo_wheel Map.empty 2 7 (Some 0) 100 = Inr (tw1, h1, Some 0) \<and>
    run_ticks tw1 h1 [101, 101, 102, 103] = Some (Inr (tw2, h2, fs)) \<and>
    count_list (fs ! 1) 7 = 0 \<and> count_list (fs ! 2) 7 = 1 \<and> count_list (fs ! 3) 7 = 0"
proof -
  let ?ts = "[101, 101, 102, 103] :: int list"
  have due: "first_due (wait_ticks demo_wheel 2) (100 + 2) ?ts = Some 2"
    by (simp add: wait_ticks_def demo_wheel_def)
  obtain tw1 h1 tw2 h2 fs where o: "timeout_add demo_wheel Map.empty 2 7 (Some 0) 100 = Inr (tw1, h1, Some 0)"
    "run_ticks tw1 h1 ?ts = Some (Inr (tw2, h2, fs))"
    and c: "\<forall>k < length ?ts. count_list (fs ! k) 7 = (if (Some 2 :: nat option) = Some k then 1 else 0)"
    using timer_fires_once [OF demo_wheel_run, where a = 0 and ctx = 7 and seconds = 2 and now = 100 and ts = ?ts]
    unfolding due by auto
  have "count_list (fs ! 1) 7 = 0 \<and> count_list (fs ! 2) 7 = 1 \<and> count_list (fs ! 3) 7 = 0"
    using c [rule_format, of 1] c [rule_format, of 2] c [rule_format, of 3] by simp
  with o show ?thesis by blast
qed

text \<open>
  C19: In every state that a sequence of additions, removals and ticks can reach, the loops over
  the linked lists end and follow no pointer that was freed: a tick returns, removing a live
  timer frees that timer and no other, and destroying the wheel frees every entry.
\<close>

theorem wheel_loops_terminate:
  assumes "wheel_run tw h"
  shows "(\<exists>tw' h' fired. timeout_tick tw h now = Some (Inr (tw', h', fired))) \<and>
    (\<forall>a \<in> dom h. \<exists>tw' h'. timeout_remove tw h (Some a) = Inr (tw', h') \<and> dom h' = dom h - {a}) \<and>
    timeout_wheel_destroy tw h = Some (Inr Map.empty)"
proof -
  from wheel_run_inv [OF assms] obtain bs where inv: "wheel_inv tw h bs" ..
  have "\<exists>tw' h' fired. timeout_tick tw h now = Some (Inr (tw', h', fired))"
    using wheel_inv_tick [OF inv refl] by blast
  moreover have "\<exists>tw' h'. timeout_remove tw h (Some a) = Inr (tw', h') \<and> dom h' = dom h - {a}" if "a \<in> dom h" for a
    using wheel_inv_remove [OF inv, of a] that by blast
  moreover have "timeout_wheel_destroy tw h = Some (Inr Map.empty)"
    by (rule timeout_wheel_destroy_rel [of tw h bs]) (use inv in \<open>simp_all add: wheel_inv_def\<close>)
  ultimately show ?thesis by blast
qed

definition demo_heap :: theap where
  "demo_heap = [0 \<mapsto> \<lparr>te_ctx = 7, te_deadline = 102, te_next = None, te_prev = None, te_bucket = 2, te_active = True\<rparr>]"

theorem wheel_loops_terminate_witness:
  "(\<exists>tw' h' fired. timeout_tick (demo_wheel\<lparr>tw_buckets := [None, None, Some 0, None]\<rparr>) demo_heap 102 = Some (Inr (tw', h', fired))) \<and>
   (\<exists>tw' h'. timeout_remove (demo_wheel\<lparr>tw_buckets := [None, None, Some 0, None]\<rparr>) demo_heap (Some 0) = Inr (tw', h') \<and> dom h' = {}) \<and>
   timeout_wheel_destroy (demo_wheel\<lparr>tw_buckets := [None, None, Some 0, None]\<rparr>) demo_heap = Some (Inr Map.empty)"
proof -
  let ?tw = "demo_wheel\<lparr>tw_buckets := [None, None, Some 0, None]\<rparr>"
  have "timeout_add demo_wheel Map.empty 2 7 (Some 0) 100 = Inr (?tw, demo_heap, Some 0)"
    by (simp add: timeout_add_def link_front_def demo_wheel_def demo_heap_def numeral_eq_Suc
        signed_divide_int_def signed_modulo_int_def)
  then have "wheel_run ?tw demo_heap" by (rule wheel_run.add [OF demo_wheel_run, rotated 2]) simp_all
  from wheel_loops_terminate [OF this, of 102] show ?thesis by (simp add: demo_heap_def)
qed

end
