(* ===== verification/Metrics.thy ===== *)
theory Metrics
  imports Conn
begin

text \<open>
  The counters of \<^verbatim>\<open>src/src/features/metrics.c\<close> and the page that shows them. Counters are 64-bit
  words that wrap. A \<^verbatim>\<open>NULL\<close> pointer to the metrics is \<open>None\<close>. How \<^verbatim>\<open>printf\<close> writes a
  \<^verbatim>\<open>double\<close> is an argument of the page.
\<close>

section \<open>Model\<close>

abbreviation HIST_BUCKETS :: nat where "HIST_BUCKETS \<equiv> 16"

record np_metrics =
  mt_requests_total :: u64
  mt_requests_2xx :: u64
  mt_requests_4xx :: u64
  mt_requests_5xx :: u64
  mt_active_connections :: u64
  mt_upstream_errors :: u64
  mt_latency_hist :: "u64 list"
  mt_latency_sum_us :: u64
  mt_latency_count :: u64

definition hist_bounds :: "u64 list" where
  "hist_bounds = [100, 500, 1000, 2000, 5000, 10000, 20000, 50000, 100000, 200000, 500000, 1000000,
     2000000, 5000000, 10000000, -1]"

definition metrics_create :: "bool \<Rightarrow> np_metrics option" where
  "metrics_create m =
     (if m then Some \<lparr>mt_requests_total = 0, mt_requests_2xx = 0, mt_requests_4xx = 0, mt_requests_5xx = 0,
        mt_active_connections = 0, mt_upstream_errors = 0, mt_latency_hist = replicate HIST_BUCKETS 0,
        mt_latency_sum_us = 0, mt_latency_count = 0\<rparr>
      else None)"

definition metrics_inc_requests :: "np_metrics option \<Rightarrow> int \<Rightarrow> np_metrics option" where
  "metrics_inc_requests mo status =
     (case mo of
        None \<Rightarrow> None
      | Some m \<Rightarrow>
          (let m = m\<lparr>mt_requests_total := mt_requests_total m + 1\<rparr>
           in Some (if 200 \<le> status \<and> status < 300 then m\<lparr>mt_requests_2xx := mt_requests_2xx m + 1\<rparr>
                    else if 400 \<le> status \<and> status < 500 then m\<lparr>mt_requests_4xx := mt_requests_4xx m + 1\<rparr>
                    else if 500 \<le> status then m\<lparr>mt_requests_5xx := mt_requests_5xx m + 1\<rparr>
                    else m)))"

definition metrics_inc_active :: "np_metrics option \<Rightarrow> np_metrics option" where
  "metrics_inc_active = map_option (\<lambda>m. m\<lparr>mt_active_connections := mt_active_connections m + 1\<rparr>)"

definition metrics_dec_active :: "np_metrics option \<Rightarrow> np_metrics option" where
  "metrics_dec_active = map_option (\<lambda>m. m\<lparr>mt_active_connections := mt_active_connections m - 1\<rparr>)"

definition metrics_inc_upstream_errors :: "np_metrics option \<Rightarrow> np_metrics option" where
  "metrics_inc_upstream_errors = map_option (\<lambda>m. m\<lparr>mt_upstream_errors := mt_upstream_errors m + 1\<rparr>)"

text \<open>The loop over the buckets, from bucket \<open>i\<close> on.\<close>

fun observe_loop :: "u64 list \<Rightarrow> u64 list \<Rightarrow> nat \<Rightarrow> u64 \<Rightarrow> u64 list" where
  "observe_loop [] hist i latency_us = hist"
| "observe_loop (b # bs) hist i latency_us =
     (if latency_us \<le> b then hist[i := hist ! i + 1] else observe_loop bs hist (i + 1) latency_us)"

definition metrics_observe_latency :: "np_metrics option \<Rightarrow> u64 \<Rightarrow> np_metrics option" where
  "metrics_observe_latency mo latency_us =
     map_option (\<lambda>m. m\<lparr>mt_latency_sum_us := mt_latency_sum_us m + latency_us,
       mt_latency_count := mt_latency_count m + 1,
       mt_latency_hist := observe_loop hist_bounds (mt_latency_hist m) 0 latency_us\<rparr>) mo"

definition bucket_labels :: "string list" where
  "bucket_labels = [''0.0001'', ''0.0005'', ''0.001'', ''0.002'', ''0.005'', ''0.01'', ''0.02'', ''0.05'', ''0.1'',
     ''0.2'', ''0.5'', ''1.0'', ''2.0'', ''5.0'', ''10.0'', ''+Inf'']"

abbreviation dec_u64 :: "u64 \<Rightarrow> string" where "dec_u64 w \<equiv> dec_nat (unat w)"

text \<open>The texts of the calls of \<^verbatim>\<open>snprintf\<close> in turn; \<open>fmt_f\<close> is \<^verbatim>\<open>%f\<close> of the sum in seconds.\<close>

definition metrics_texts :: "(u64 \<Rightarrow> string) \<Rightarrow> np_metrics \<Rightarrow> string list" where
  "metrics_texts fmt_f m =
     [''# HELP nproxy_requests_total Total HTTP requests'' @ LF @
      ''# TYPE nproxy_requests_total counter'' @ LF @
      ''nproxy_requests_total '' @ dec_u64 (mt_requests_total m) @ LF @
      ''nproxy_requests_2xx_total '' @ dec_u64 (mt_requests_2xx m) @ LF @
      ''nproxy_requests_4xx_total '' @ dec_u64 (mt_requests_4xx m) @ LF @
      ''nproxy_requests_5xx_total '' @ dec_u64 (mt_requests_5xx m) @ LF @
      ''# HELP nproxy_active_connections Active connections'' @ LF @
      ''# TYPE nproxy_active_connections gauge'' @ LF @
      ''nproxy_active_connections '' @ dec_u64 (mt_active_connections m) @ LF @
      ''# HELP nproxy_upstream_errors_total Upstream errors'' @ LF @
      ''# TYPE nproxy_upstream_errors_total counter'' @ LF @
      ''nproxy_upstream_errors_total '' @ dec_u64 (mt_upstream_errors m) @ LF,
      ''# HELP nproxy_request_duration_seconds Request duration histogram'' @ LF @
      ''# TYPE nproxy_request_duration_seconds histogram'' @ LF] @
     map (\<lambda>i. ''nproxy_request_duration_seconds_bucket{le=\"'' @ bucket_labels ! i @ ''\"} '' @
       dec_u64 (mt_latency_hist m ! i) @ LF) [0..<HIST_BUCKETS] @
     [''nproxy_request_duration_seconds_count '' @ dec_u64 (mt_latency_count m) @ LF @
      ''nproxy_request_duration_seconds_sum '' @ fmt_f (mt_latency_sum_us m) @ LF]"

definition metrics_handle :: "(u64 \<Rightarrow> string) \<Rightarrow> np_metrics \<Rightarrow> conn_t \<Rightarrow> http_request_t \<Rightarrow> conn_t mem" where
  "metrics_handle fmt_f m conn req =
     mbind (snprintf_all 4096 ([], 0) (metrics_texts fmt_f m)) (\<lambda>(body, n).
     mbind (response_write_simple (cn_wbuf conn) 200 (Some ''OK'') (Some ''text/plain; version=0.0.4'')
       (Some body) (req_keep_alive req)) (\<lambda>wbuf.
       Inr (conn\<lparr>cn_wbuf := wbuf, cn_state := CONN_WRITING_RESPONSE\<rparr>)))"

section \<open>The counters\<close>

text \<open>Requests seen by a new set of counters.\<close>

fun count_requests :: "np_metrics option \<Rightarrow> int list \<Rightarrow> np_metrics option" where
  "count_requests m [] = m"
| "count_requests m (s # ss) = count_requests (metrics_inc_requests m s) ss"

fun observe_all :: "np_metrics option \<Rightarrow> u64 list \<Rightarrow> np_metrics option" where
  "observe_all m [] = m"
| "observe_all m (l # ls) = observe_all (metrics_observe_latency m l) ls"

text \<open>The latencies of bucket \<open>i\<close>: above the bound of the bucket before it, up to its own.\<close>

definition in_bucket :: "nat \<Rightarrow> u64 \<Rightarrow> bool" where
  "in_bucket i l \<longleftrightarrow> l \<le> hist_bounds ! i \<and> (i = 0 \<or> hist_bounds ! (i - 1) < l)"

lemma observe_loop_nth:
  assumes "length hist = j + length bs" "\<exists>b \<in> set bs. l \<le> b"
  shows "\<exists>k. k < length bs \<and> l \<le> bs ! k \<and> (\<forall>k' < k. bs ! k' < l) \<and>
    observe_loop bs hist j l = hist[j + k := hist ! (j + k) + 1]"
  using assms
proof (induction bs arbitrary: j)
  case Nil
  then show ?case by simp
next
  case (Cons b bs)
  show ?case
  proof (cases "l \<le> b")
    case True
    then show ?thesis by (intro exI [of _ 0]) simp
  next
    case False
    then obtain k where k: "k < length bs" "l \<le> bs ! k" "\<forall>k' < k. bs ! k' < l"
      "observe_loop bs hist (j + 1) l = hist[j + 1 + k := hist ! (j + 1 + k) + 1]"
      using Cons.IH [of "j + 1"] Cons.prems by auto
    have "\<forall>k' < Suc k. (b # bs) ! k' < l" using k(3) False by (auto simp: less_Suc_eq_0_disj not_le)
    then show ?thesis using k False by (intro exI [of _ "Suc k"]) simp
  qed
qed

lemma sorted_hist_bounds: "sorted hist_bounds"
  by (simp add: hist_bounds_def)

lemma observe_hist:
  assumes "length hist = HIST_BUCKETS" "i < HIST_BUCKETS"
  shows "observe_loop hist_bounds hist 0 l ! i = hist ! i + (if in_bucket i l then 1 else 0)"
    "length (observe_loop hist_bounds hist 0 l) = HIST_BUCKETS"
proof -
  have len: "length hist_bounds = HIST_BUCKETS" by (simp add: hist_bounds_def)
  have "-1 \<in> set hist_bounds" "l \<le> -1" by (simp_all add: hist_bounds_def)
  then obtain k where k: "k < HIST_BUCKETS" "l \<le> hist_bounds ! k" "\<forall>k' < k. hist_bounds ! k' < l"
    "observe_loop hist_bounds hist 0 l = hist[k := hist ! k + 1]"
    using observe_loop_nth [of hist 0 hist_bounds l] assms(1) len by auto
  have "in_bucket i l \<longleftrightarrow> i = k"
  proof
    assume b: "in_bucket i l"
    then have "\<not> i < k" using k(3) by (auto simp: in_bucket_def not_le [symmetric])
    moreover have "\<not> k < i"
    proof
      assume "k < i"
      then have "hist_bounds ! k \<le> hist_bounds ! (i - 1)"
        using sorted_nth_mono [OF sorted_hist_bounds, of k "i - 1"] assms(2) len by simp
      then show False using b k(2) \<open>k < i\<close> by (auto simp: in_bucket_def)
    qed
    ultimately show "i = k" by simp
  next
    assume "i = k"
    then show "in_bucket i l" using k(2,3) by (cases k) (auto simp: in_bucket_def)
  qed
  then show "observe_loop hist_bounds hist 0 l ! i = hist ! i + (if in_bucket i l then 1 else 0)"
    using k assms by (simp add: nth_list_update)
  show "length (observe_loop hist_bounds hist 0 l) = HIST_BUCKETS" using k(4) assms(1) by simp
qed

lemma observe_all_hist:
  assumes "length (mt_latency_hist m) = HIST_BUCKETS"
  shows "\<exists>m'. observe_all (Some m) ls = Some m' \<and>
    length (mt_latency_hist m') = HIST_BUCKETS \<and>
    (\<forall>i < HIST_BUCKETS. mt_latency_hist m' ! i = mt_latency_hist m ! i + of_nat (length (filter (in_bucket i) ls))) \<and>
    mt_latency_count m' = mt_latency_count m + of_nat (length ls) \<and>
    mt_latency_sum_us m' = mt_latency_sum_us m + sum_list ls \<and>
    mt_requests_total m' = mt_requests_total m \<and> mt_requests_2xx m' = mt_requests_2xx m \<and>
    mt_requests_4xx m' = mt_requests_4xx m \<and> mt_requests_5xx m' = mt_requests_5xx m"
  using assms
proof (induction ls arbitrary: m)
  case Nil
  then show ?case by simp
next
  case (Cons l ls)
  let ?m = "m\<lparr>mt_latency_sum_us := mt_latency_sum_us m + l, mt_latency_count := mt_latency_count m + 1,
    mt_latency_hist := observe_loop hist_bounds (mt_latency_hist m) 0 l\<rparr>"
  have "length (mt_latency_hist ?m) = HIST_BUCKETS" using observe_hist(2) [OF Cons.prems, of 0] by simp
  from Cons.IH [OF this] show ?case
    using observe_hist(1) [OF Cons.prems] by (auto simp: metrics_observe_latency_def ac_simps)
qed

text \<open>The statuses that a counter counts.\<close>

definition status_class :: "int \<Rightarrow> int \<Rightarrow> bool" where
  "status_class c s \<longleftrightarrow> (if c = 5 then 500 \<le> s else 100 * c \<le> s \<and> s < 100 * c + 100)"

lemma count_requests_exact:
  "\<exists>m'. count_requests (Some m) ss = Some m' \<and> mt_latency_hist m' = mt_latency_hist m \<and>
    mt_latency_count m' = mt_latency_count m \<and> mt_latency_sum_us m' = mt_latency_sum_us m \<and>
    mt_requests_total m' = mt_requests_total m + of_nat (length ss) \<and>
    mt_requests_2xx m' = mt_requests_2xx m + of_nat (length (filter (status_class 2) ss)) \<and>
    mt_requests_4xx m' = mt_requests_4xx m + of_nat (length (filter (status_class 4) ss)) \<and>
    mt_requests_5xx m' = mt_requests_5xx m + of_nat (length (filter (status_class 5) ss))"
proof (induction ss arbitrary: m)
  case Nil
  then show ?case by simp
next
  case (Cons s ss)
  obtain m1 where m1: "metrics_inc_requests (Some m) s = Some m1"
    "mt_latency_hist m1 = mt_latency_hist m" "mt_latency_count m1 = mt_latency_count m"
    "mt_latency_sum_us m1 = mt_latency_sum_us m" "mt_requests_total m1 = mt_requests_total m + 1"
    "mt_requests_2xx m1 = mt_requests_2xx m + (if status_class 2 s then 1 else 0)"
    "mt_requests_4xx m1 = mt_requests_4xx m + (if status_class 4 s then 1 else 0)"
    "mt_requests_5xx m1 = mt_requests_5xx m + (if status_class 5 s then 1 else 0)"
    by (auto simp: metrics_inc_requests_def status_class_def Let_def)
  from Cons.IH [of m1] show ?case using m1 by (auto simp: ac_simps)
qed

text \<open>
  From new counters, after any requests and any latencies: the total counts every request,
  the three class counters those with a status of 200 to 299, 400 to 499 and from 500 on; every
  latency is counted in exactly the one bucket of the histogram whose range it is in (the
  buckets are not cumulative), and the count and the sum are those of the latencies, all modulo
  2 to the 64.
\<close>

theorem metrics_exact:
  "\<exists>m. observe_all (count_requests (metrics_create True) ss) ls = Some m \<and>
    mt_requests_total m = of_nat (length ss) \<and>
    mt_requests_2xx m = of_nat (length (filter (status_class 2) ss)) \<and>
    mt_requests_4xx m = of_nat (length (filter (status_class 4) ss)) \<and>
    mt_requests_5xx m = of_nat (length (filter (status_class 5) ss)) \<and>
    (\<forall>i < HIST_BUCKETS. mt_latency_hist m ! i = of_nat (length (filter (in_bucket i) ls))) \<and>
    mt_latency_count m = of_nat (length ls) \<and> mt_latency_sum_us m = sum_list ls"
proof -
  obtain m0 where m0: "metrics_create True = Some m0" by (simp add: metrics_create_def)
  then have z: "mt_latency_hist m0 = replicate HIST_BUCKETS 0" "mt_latency_count m0 = 0" "mt_latency_sum_us m0 = 0"
    "mt_requests_total m0 = 0" "mt_requests_2xx m0 = 0" "mt_requests_4xx m0 = 0" "mt_requests_5xx m0 = 0"
    by (auto simp: metrics_create_def)
  from count_requests_exact [of m0 ss] obtain m1 where
    1: "count_requests (Some m0) ss = Some m1" "mt_latency_hist m1 = mt_latency_hist m0"
      "mt_latency_count m1 = 0" "mt_latency_sum_us m1 = 0" "mt_requests_total m1 = of_nat (length ss)"
      "mt_requests_2xx m1 = of_nat (length (filter (status_class 2) ss))"
      "mt_requests_4xx m1 = of_nat (length (filter (status_class 4) ss))"
      "mt_requests_5xx m1 = of_nat (length (filter (status_class 5) ss))" using z by auto
  have "length (mt_latency_hist m1) = HIST_BUCKETS" by (simp add: 1 z)
  from observe_all_hist [OF this, of ls] obtain m2 where
    "observe_all (Some m1) ls = Some m2"
    "\<forall>i < HIST_BUCKETS. mt_latency_hist m2 ! i = mt_latency_hist m1 ! i + of_nat (length (filter (in_bucket i) ls))"
    "mt_latency_count m2 = of_nat (length ls)" "mt_latency_sum_us m2 = sum_list ls"
    "mt_requests_total m2 = mt_requests_total m1" "mt_requests_2xx m2 = mt_requests_2xx m1"
    "mt_requests_4xx m2 = mt_requests_4xx m1" "mt_requests_5xx m2 = mt_requests_5xx m1" using 1 by auto
  then show ?thesis using m0 1 z by simp
qed

theorem metrics_exact_witness:
  "\<exists>m. observe_all (count_requests (metrics_create True) [200, 404, 301, 503]) [80, 100, 101] = Some m \<and>
    mt_requests_total m = 4 \<and> mt_requests_4xx m = 1 \<and> mt_latency_hist m ! 0 = 2 \<and> mt_latency_hist m ! 1 = 1"
proof -
  from metrics_exact [of "[200, 404, 301, 503]" "[80, 100, 101]"] obtain m where
    m: "observe_all (count_requests (metrics_create True) [200, 404, 301, 503]) [80, 100, 101] = Some m"
      "mt_requests_total m = 4" "mt_requests_4xx m = of_nat (length (filter (status_class 4) [200, 404, 301, 503]))"
      "\<forall>i < HIST_BUCKETS. mt_latency_hist m ! i = of_nat (length (filter (in_bucket i) [80, 100, 101]))" by auto
  have "mt_latency_hist m ! 0 = 2" "mt_latency_hist m ! 1 = 1"
    using m(4) [rule_format, of 0] m(4) [rule_format, of 1] by (simp_all add: in_bucket_def hist_bounds_def)
  with m(1-3) show ?thesis by (auto simp: status_class_def)
qed

section \<open>The page\<close>

text \<open>
  The number in the last line is below two to the 64 millionths, so at most 14 digits before the
  point and six after it.
\<close>

definition fmt_f_ok :: "(u64 \<Rightarrow> string) \<Rightarrow> bool" where
  "fmt_f_ok fmt_f \<longleftrightarrow> (\<forall>x. length (fmt_f x) \<le> 21)"

definition metrics_body :: "(u64 \<Rightarrow> string) \<Rightarrow> np_metrics \<Rightarrow> string" where
  "metrics_body fmt_f m = concat (metrics_texts fmt_f m)"

lemma length_dec_u64: "length (dec_u64 w) \<le> 20"
  using length_dec_nat_le [of "unat w" 19] unat_usize_less [of w] by simp

lemma length_concat_map_le: "(\<And>x. x \<in> set xs \<Longrightarrow> length (f x) \<le> c) \<Longrightarrow> length (concat (map f xs)) \<le> length xs * c"
  by (induction xs) (auto intro: add_le_mono)

lemma length_bucket_labels: "i < HIST_BUCKETS \<Longrightarrow> length (bucket_labels ! i) \<le> 6"
proof -
  have "list_all (\<lambda>s. length s \<le> 6) bucket_labels" "length bucket_labels = HIST_BUCKETS"
    by (simp_all add: bucket_labels_def)
  then show "i < HIST_BUCKETS \<Longrightarrow> length (bucket_labels ! i) \<le> 6" by (simp add: list_all_length)
qed

lemma length_metrics_body:
  assumes "fmt_f_ok fmt_f"
  shows "length (metrics_body fmt_f m) < 3000"
proof -
  have "length (concat (map (\<lambda>i. ''nproxy_request_duration_seconds_bucket{le=\"'' @ bucket_labels ! i @ ''\"} '' @
      dec_u64 (mt_latency_hist m ! i) @ LF) [0..<HIST_BUCKETS])) \<le> length [0..<HIST_BUCKETS] * 100"
  proof (rule length_concat_map_le)
    fix i assume "i \<in> set [0..<HIST_BUCKETS]"
    then show "length (''nproxy_request_duration_seconds_bucket{le=\"'' @ bucket_labels ! i @ ''\"} '' @
        dec_u64 (mt_latency_hist m ! i) @ LF) \<le> 100"
      using length_bucket_labels [of i] length_dec_u64 [of "mt_latency_hist m ! i"] by simp
  qed
  moreover have "length (fmt_f (mt_latency_sum_us m)) \<le> 21" using assms by (simp add: fmt_f_ok_def)
  ultimately show ?thesis
    using length_dec_u64 [of "mt_requests_total m"] length_dec_u64 [of "mt_requests_2xx m"]
      length_dec_u64 [of "mt_requests_4xx m"] length_dec_u64 [of "mt_requests_5xx m"]
      length_dec_u64 [of "mt_active_connections m"] length_dec_u64 [of "mt_upstream_errors m"]
      length_dec_u64 [of "mt_latency_count m"]
    by (simp add: metrics_body_def metrics_texts_def)
qed

lemma metrics_handle_ok:
  assumes ok: "conn_ok conn" and f: "fmt_f_ok fmt_f"
  shows "\<exists>b. metrics_handle fmt_f m conn req = Inr (conn\<lparr>cn_wbuf := b, cn_state := CONN_WRITING_RESPONSE\<rparr>) \<and>
    conn_ok (conn\<lparr>cn_wbuf := b, cn_state := CONN_WRITING_RESPONSE\<rparr>) \<and>
    (length (http_message 200 ''OK'' ''text/plain; version=0.0.4'' (metrics_body fmt_f m) (req_keep_alive req)) \<le> buf_room (cn_wbuf conn) \<longrightarrow>
      buf_contents b = buf_contents (cn_wbuf conn) @
        http_message 200 ''OK'' ''text/plain; version=0.0.4'' (metrics_body fmt_f m) (req_keep_alive req))"
proof -
  let ?body = "metrics_body fmt_f m" and ?t = "''text/plain; version=0.0.4''"
  note len = length_metrics_body [OF f, of m]
  have body: "snprintf_all 4096 ([], 0) (metrics_texts fmt_f m) = Inr (?body, length ?body)"
    using len by (subst snprintf_all_fits) (simp_all add: metrics_body_def)
  have wb: "buf_ok (cn_wbuf conn)" using conn_ok_bufs [OF ok] by blast
  have "length (dec_nat (length ?body)) \<le> Suc 3" using len by (intro length_dec_nat_le) simp
  then have "length (message_head 200 ''OK'' ?t (length ?body) (req_keep_alive req)) < 512"
    using length_dec_int [of 200] by (simp add: message_head_def)
  from write_simple_ok [OF wb _ this] len obtain b where
    b: "response_write_simple (cn_wbuf conn) 200 (Some ''OK'') (Some ?t) (Some ?body) (req_keep_alive req) = Inr b"
      "buf_ok b" "b_cap b = b_cap (cn_wbuf conn)"
      "length (http_message 200 ''OK'' ?t ?body (req_keep_alive req)) \<le> buf_room (cn_wbuf conn) \<longrightarrow>
        buf_contents b = buf_contents (cn_wbuf conn) @ http_message 200 ''OK'' ?t ?body (req_keep_alive req)" by auto
  have "metrics_handle fmt_f m conn req = Inr (conn\<lparr>cn_wbuf := b, cn_state := CONN_WRITING_RESPONSE\<rparr>)"
    by (simp add: metrics_handle_def body b(1))
  with b conn_ok_wbuf [OF ok b(2,3)] show ?thesis by blast
qed

end
