(* ===== verification/Features.thy ===== *)
theory Features
  imports Conn
begin

text \<open>
  The small features: the health page of \<^verbatim>\<open>src/src/features/health.c\<close>, the decisions about
  compression of \<^verbatim>\<open>src/src/features/compress.c\<close> with \<^verbatim>\<open>zlib\<close> as an argument, and the types of
  files of \<^verbatim>\<open>src/src/static/mime.c\<close>.
\<close>

section \<open>Health page\<close>

definition HEALTHZ_RESPONSE_KA :: string where
  "HEALTHZ_RESPONSE_KA =
     ''HTTP/1.1 200 OK'' @ CRLF @ ''Content-Type: application/json'' @ CRLF @ ''Content-Length: 16'' @ CRLF @
     ''Connection: keep-alive'' @ CRLF @ CRLF @ ''{\"status\":\"ok\"}''"

definition HEALTHZ_RESPONSE_CLOSE :: string where
  "HEALTHZ_RESPONSE_CLOSE =
     ''HTTP/1.1 200 OK'' @ CRLF @ ''Content-Type: application/json'' @ CRLF @ ''Content-Length: 16'' @ CRLF @
     ''Connection: close'' @ CRLF @ CRLF @ ''{\"status\":\"ok\"}''"

definition health_handle :: "conn_t \<Rightarrow> http_request_t \<Rightarrow> conn_t mem" where
  "health_handle conn req =
     (let resp = (if req_keep_alive req then HEALTHZ_RESPONSE_KA else HEALTHZ_RESPONSE_CLOSE)
      in mbind (if of_nat (length resp) \<le> buf_writable (cn_wbuf conn) then buf_memcpy (cn_wbuf conn) resp
                else Inr (cn_wbuf conn)) (\<lambda>wbuf.
         Inr (conn\<lparr>cn_wbuf := wbuf, cn_state := CONN_WRITING_RESPONSE\<rparr>)))"

abbreviation healthz_response :: "bool \<Rightarrow> string" where
  "healthz_response ka \<equiv> if ka then HEALTHZ_RESPONSE_KA else HEALTHZ_RESPONSE_CLOSE"

lemma health_handle_ok:
  assumes ok: "conn_ok conn"
  shows "\<exists>b. health_handle conn req = Inr (conn\<lparr>cn_wbuf := b, cn_state := CONN_WRITING_RESPONSE\<rparr>) \<and>
    conn_ok (conn\<lparr>cn_wbuf := b, cn_state := CONN_WRITING_RESPONSE\<rparr>) \<and>
    (length (healthz_response (req_keep_alive req)) \<le> buf_room (cn_wbuf conn) \<longrightarrow>
      buf_contents b = buf_contents (cn_wbuf conn) @ healthz_response (req_keep_alive req))"
proof -
  let ?s = "healthz_response (req_keep_alive req)"
  have "length ?s < 2 ^ 64" by (simp add: HEALTHZ_RESPONSE_KA_def HEALTHZ_RESPONSE_CLOSE_def)
  moreover have "0 < length ?s" by (simp add: HEALTHZ_RESPONSE_KA_def HEALTHZ_RESPONSE_CLOSE_def)
  moreover have wb: "buf_ok (cn_wbuf conn)" using conn_ok_bufs [OF ok] by blast
  ultimately obtain b where b: "buf_put (cn_wbuf conn) ?s = Inr b" "buf_ok b" "b_cap b = b_cap (cn_wbuf conn)"
    "buf_contents b = buf_contents (cn_wbuf conn) @ (if length ?s \<le> buf_room (cn_wbuf conn) then ?s else [])"
    using buf_put_ok by blast
  have "health_handle conn req = Inr (conn\<lparr>cn_wbuf := b, cn_state := CONN_WRITING_RESPONSE\<rparr>)"
    using b(1) \<open>0 < length ?s\<close> by (simp add: health_handle_def buf_put_def Let_def split: if_splits)
  with b conn_ok_wbuf [OF ok b(2,3)] show ?thesis by auto
qed

text \<open>The body is one byte shorter than its Content-Length says.\<close>

lemma health_content_length:
  "\<exists>hdr body. HEALTHZ_RESPONSE_KA = hdr @ CRLF @ CRLF @ body \<and> length body = 15 \<and>
     sublist ''Content-Length: 16'' hdr"
proof -
  let ?a = "''HTTP/1.1 200 OK'' @ CRLF @ ''Content-Type: application/json'' @ CRLF"
  let ?h = "?a @ ''Content-Length: 16'' @ CRLF @ ''Connection: keep-alive''"
  have "HEALTHZ_RESPONSE_KA = ?h @ CRLF @ CRLF @ ''{\"status\":\"ok\"}''" by (simp add: HEALTHZ_RESPONSE_KA_def)
  moreover have "sublist ''Content-Length: 16'' ?h" unfolding sublist_def by blast
  moreover have "length ''{\"status\":\"ok\"}'' = 15" by simp
  ultimately show ?thesis by blast
qed

section \<open>Compression\<close>

definition client_accepts_gzip :: "http_request_t \<Rightarrow> bool" where
  "client_accepts_gzip req =
     (case request_header req ''Accept-Encoding'' of
        None \<Rightarrow> False
      | Some ae \<Rightarrow>
          if ae = [] then False
          else strstr (cstr (take (min (length ae) 511) ae)) ''gzip'' \<noteq> None)"

definition should_compress :: "string option \<Rightarrow> bool" where
  "should_compress content_type =
     (case content_type of
        None \<Rightarrow> False
      | Some t \<Rightarrow>
          if take 5 t = ''text/'' then True
          else if strstr t ''json'' \<noteq> None then True
          else if strstr t ''javascript'' \<noteq> None then True
          else if strstr t ''xml'' \<noteq> None then True
          else if strstr t ''svg'' \<noteq> None then True
          else False)"

text \<open>
  \<open>init\<close> says whether \<^verbatim>\<open>deflateInit2\<close> succeeds; \<open>deflate s n\<close> is what \<^verbatim>\<open>deflate\<close> with
  \<^verbatim>\<open>Z_FINISH\<close> produces from \<open>s\<close> in at most \<open>n\<close> bytes, \<open>None\<close> when it does not reach the end. The
  lengths are converted to 32-bit unsigned integers.
\<close>

definition gzip_compress ::
  "bool \<Rightarrow> (string \<Rightarrow> nat \<Rightarrow> string option) \<Rightarrow> string \<Rightarrow> usize \<Rightarrow> np_status_t \<times> string" where
  "gzip_compress init deflate s out_cap =
     (if \<not> init then (NP_ERR, [])
      else
        (case deflate (take (unat (ucast (of_nat (length s) :: usize) :: u32)) s) (unat (ucast out_cap :: u32)) of
           None \<Rightarrow> (NP_ERR, [])
         | Some out \<Rightarrow> (NP_OK, out)))"

text \<open>With a compressor that can be undone, an input below 4 GiB is compressed whole and within the output.\<close>

lemma gzip_compress_whole:
  assumes zlib: "\<And>s n out. deflate s n = Some out \<Longrightarrow> inflate out = s \<and> length out \<le> n"
    and "length s < 2 ^ 32" and "gzip_compress init deflate s out_cap = (NP_OK, out)"
  shows "inflate out = s" "length out \<le> unat out_cap"
proof -
  have n: "unat (ucast (of_nat (length s) :: usize) :: u32) = length s"
    using assms(2) by (simp add: unsigned_ucast_eq np_word take_bit_nat_eq_self)
  have cap: "unat (ucast out_cap :: u32) \<le> unat out_cap" by (simp add: unsigned_ucast_eq)
  from assms(3) have "deflate s (unat (ucast out_cap :: u32)) = Some out"
    by (auto simp: gzip_compress_def n split: if_splits option.splits)
  from zlib [OF this] cap show "inflate out = s" "length out \<le> unat out_cap" by auto
qed

section \<open>Types of files\<close>

definition mime_table :: "(string \<times> string) list" where
  "mime_table =
     [(''html'', ''text/html; charset=utf-8''), (''htm'', ''text/html; charset=utf-8''),
      (''css'', ''text/css; charset=utf-8''), (''js'', ''application/javascript''),
      (''mjs'', ''application/javascript''), (''json'', ''application/json''), (''xml'', ''application/xml''),
      (''txt'', ''text/plain; charset=utf-8''), (''md'', ''text/plain; charset=utf-8''), (''png'', ''image/png''),
      (''jpg'', ''image/jpeg''), (''jpeg'', ''image/jpeg''), (''gif'', ''image/gif''), (''webp'', ''image/webp''),
      (''svg'', ''image/svg+xml''), (''ico'', ''image/x-icon''), (''wasm'', ''application/wasm''),
      (''pdf'', ''application/pdf''), (''zip'', ''application/zip''), (''gz'', ''application/gzip''),
      (''mp4'', ''video/mp4''), (''webm'', ''video/webm''), (''mp3'', ''audio/mpeg''), (''ogg'', ''audio/ogg''),
      (''woff'', ''font/woff''), (''woff2'', ''font/woff2''), (''ttf'', ''font/ttf''), (''otf'', ''font/otf'')]"

definition strcasecmp_eq :: "string \<Rightarrow> string \<Rightarrow> bool" where
  "strcasecmp_eq a b \<longleftrightarrow> map tolower (cstr a) = map tolower (cstr b)"

fun mime_loop :: "(string \<times> string) list \<Rightarrow> string \<Rightarrow> string" where
  "mime_loop [] ext = ''application/octet-stream''"
| "mime_loop ((e, t) # es) ext = (if strcasecmp_eq e ext then t else mime_loop es ext)"

definition mime_by_extension :: "string option \<Rightarrow> string" where
  "mime_by_extension ext =
     (case ext of None \<Rightarrow> ''application/octet-stream'' | Some e \<Rightarrow> mime_loop mime_table e)"

lemma length_mime_by_extension: "length (mime_by_extension ext) \<le> 25"
proof -
  have "length (mime_loop es e) \<le> 25" if "list_all (\<lambda>p. length (snd p) \<le> 25) es" for es e
    using that by (induction es e rule: mime_loop.induct) auto
  moreover have "list_all (\<lambda>p. length (snd p) \<le> 25) mime_table" by (simp add: mime_table_def)
  ultimately show ?thesis by (auto simp: mime_by_extension_def split: option.splits)
qed

end
