(* ===== verification/Static_Files.thy ===== *)
theory Static_Files
  imports Features Config "HOL-Library.Sublist"
begin

text \<open>
  The static file server of \<^verbatim>\<open>src/src/static/file_server.c\<close>. The file system answers through two
  functions of the path opened, the kernel's other answers are arguments. The result holds the
  connection and the event loop after the call, the status for the log, and what was sent to the
  client. A lexical resolution of paths says which files a request can reach.
\<close>

section \<open>Model\<close>

record file_stat =
  st_regular :: bool
  st_mtime :: u64
  st_size :: int

text \<open>
  What \<^verbatim>\<open>open\<close> returns for a path and what \<^verbatim>\<open>fstat\<close> then says; what the kernel takes of the
  head; memory and \<^verbatim>\<open>epoll_ctl\<close> for the last call.
\<close>

record file_env =
  fe_open :: "string \<Rightarrow> int"
  fe_stat :: "string \<Rightarrow> file_stat option"
  fe_write :: kernel_write
  fe_malloc :: "nat option"
  fe_epoll :: bool

definition path_is_safe :: "string \<Rightarrow> bool" where
  "path_is_safe path \<longleftrightarrow> strstr path ''..'' = None"

definition file_extension :: "string \<Rightarrow> string option" where
  "file_extension path =
     (case strrchr (CHR ''.'') path of
        None \<Rightarrow> None
      | Some i \<Rightarrow> if i = 0 then None else Some (drop (i + 1) path))"

definition etag_from_stat :: "file_stat \<Rightarrow> string" where
  "etag_from_stat st =
     ''\"'' @ hex_nat (unat (st_mtime st)) @ ''-'' @ hex_nat (unat (word_of_int (st_size st) :: u64)) @ ''\"''"

text \<open>
  The loop that replaces \<^verbatim>\<open>$uri\<close> in an entry of \<^verbatim>\<open>try_files\<close>: \<open>w\<close> is the text in the array of
  8192 bytes, \<open>n\<close> the position of \<^verbatim>\<open>tgt\<close>. The NUL is stored at that position in the end.
\<close>

function expand_uri :: "string \<Rightarrow> string \<Rightarrow> string \<times> nat \<Rightarrow> string mem" where
  "expand_uri path src wn =
     (if src = [] \<or> 8191 \<le> snd wn then (if 8192 \<le> snd wn then Inl Out_of_bounds else Inr (fst wn))
      else if take 4 src = ''$uri'' then mbind (snprintf_at 8192 wn path) (expand_uri path (drop 4 src))
      else expand_uri path (tl src) (fst wn @ [hd src], snd wn + 1))"
  by pat_completeness auto
termination
  by (relation "measure (\<lambda>(path, src, wn). length src)") auto

declare expand_uri.simps [simp del]

text \<open>
  An attempt to open a file: its descriptor and state when it is a regular file, and the
  descriptors closed again.
\<close>

definition open_regular :: "file_env \<Rightarrow> string \<Rightarrow> (int \<times> file_stat) option \<times> int list" where
  "open_regular env resolved =
     (let fd = fe_open env resolved
      in if fd < 0 then (None, [])
         else (case fe_stat env resolved of
            None \<Rightarrow> (None, [fd])
          | Some st \<Rightarrow> if st_regular st then (Some (fd, st), []) else (None, [fd])))"

fun try_files ::
  "file_env \<Rightarrow> string \<Rightarrow> string \<Rightarrow> string list \<Rightarrow> ((string \<times> int \<times> file_stat) option \<times> int list) mem" where
  "try_files env root path [] = Inr (None, [])"
| "try_files env root path (t # ts) =
     mbind (expand_uri path t ([], 0)) (\<lambda>tmp_path.
       let resolved = take 8191 (root @ tmp_path)
       in case open_regular env resolved of
            (Some (fd, st), closed) \<Rightarrow> Inr (Some (resolved, fd, st), closed)
          | (None, closed) \<Rightarrow>
              mbind (try_files env root path ts) (\<lambda>(found, closed'). Inr (found, closed @ closed')))"

text \<open>
  The branch without \<^verbatim>\<open>try_files\<close>: \<open>plen\<close> bytes of the path were copied, of which \<open>path\<close> are
  before the first NUL.
\<close>

definition open_default ::
  "file_env \<Rightarrow> string \<Rightarrow> string \<Rightarrow> nat \<Rightarrow> ((string \<times> int \<times> file_stat) option \<times> int list) mem" where
  "open_default env root path plen =
     (if plen = 0 then Inl Out_of_bounds
      else
        (let resolved =
           (if length path = plen \<and> last path = CHR ''/'' then take 8191 (root @ path @ ''index.html'')
            else take 8191 (root @ path));
             (found, closed) = open_regular env resolved
         in Inr (map_option (\<lambda>(fd, st). (resolved, fd, st)) found, closed)))"

definition file_head :: "string \<Rightarrow> file_stat \<Rightarrow> bool \<Rightarrow> string" where
  "file_head mime st keep_alive =
     ''HTTP/1.1 200 OK'' @ CRLF @ ''Content-Type: '' @ mime @ CRLF @
     ''Content-Length: '' @ dec_int (st_size st) @ CRLF @ ''ETag: '' @ etag_from_stat st @ CRLF @
     ''Connection: '' @ (if keep_alive then ''keep-alive'' else ''close'') @ CRLF @ CRLF"

text \<open>
  \<open>self\<close> is the address of the connection, the context of its callback. The result ends with the
  status, what the client was sent, and the descriptors closed.
\<close>

definition file_server_handle ::
  "file_env \<Rightarrow> nat \<Rightarrow> conn_t \<Rightarrow> event_loop_t \<Rightarrow> http_request_t \<Rightarrow> np_server_config_t \<Rightarrow>
   (conn_t \<times> event_loop_t \<times> int \<times> string \<times> int list) mem" where
  "file_server_handle env self conn loop req cfg =
     (let plen = min (length (req_path req)) 4095;
          path = cstr (take plen (req_path req));
          respond = (\<lambda>status closed wbuf.
            Inr (conn\<lparr>cn_wbuf := wbuf, cn_state := CONN_WRITING_RESPONSE\<rparr>, loop, status, [], closed))
      in if \<not> path_is_safe path then
           mbind (response_write_error (cn_wbuf conn) 403 (req_keep_alive req)) (respond 403 [])
         else
           mbind (if srv_try_files cfg \<noteq> [] then try_files env (srv_static_root cfg) path (srv_try_files cfg)
                  else open_default env (srv_static_root cfg) path plen) (\<lambda>(found, closed).
             case found of
               None \<Rightarrow> mbind (response_write_error (cn_wbuf conn) 404 (req_keep_alive req)) (respond 404 closed)
             | Some (resolved, fd, st) \<Rightarrow>
                 (let ims = (case request_header req ''If-None-Match'' of None \<Rightarrow> [] | Some s \<Rightarrow> s)
                  in if ims \<noteq> [] \<and> cstr (take 63 ims) = etag_from_stat st then
                       mbind (response_write_simple (cn_wbuf conn) 304 (Some ''Not Modified'') None None
                         (req_keep_alive req)) (respond 304 (closed @ [fd]))
                     else
                       (let mime = mime_by_extension (file_extension resolved)
                        in mbind (buf_put_fmt 512 (cn_wbuf conn) (file_head mime st (req_keep_alive req))) (\<lambda>wbuf.
                           mbind (buf_send (fe_write env) wbuf) (\<lambda>(wbuf, _, sent).
                           mbind (event_loop_mod loop (cn_fd conn) (EV_WRITE OR EV_READ OR EV_HUP OR EV_EDGE)
                             On_client_event self (fe_malloc env) (fe_epoll env)) (\<lambda>(loop, _).
                             Inr (conn\<lparr>cn_wbuf := wbuf, cn_file_fd := fd, cn_file_offset := 0,
                                 cn_file_remaining := st_size st, cn_state := CONN_SENDFILE\<rparr>,
                               loop, 200, sent, closed))))))))"

section \<open>Where a path leads\<close>

text \<open>The components of a path, and the directories they lead through from the root of the file system.\<close>

fun comps :: "string \<Rightarrow> string list" where
  "comps [] = [[]]"
| "comps (c # cs) = (if c = CHR ''/'' then [] # comps cs else (case comps cs of [] \<Rightarrow> [[c]] | d # ds \<Rightarrow> (c # d) # ds))"

fun walk :: "string list \<Rightarrow> string list \<Rightarrow> string list" where
  "walk st [] = st"
| "walk st (c # cs) =
     (if c = [] \<or> c = ''.'' then walk st cs
      else if c = ''..'' then walk (butlast st) cs
      else walk (st @ [c]) cs)"

definition resolve :: "string \<Rightarrow> string list" where
  "resolve p = walk [] (comps p)"

definition inside :: "string \<Rightarrow> string \<Rightarrow> bool" where
  "inside root p \<longleftrightarrow> prefix (resolve root) (resolve p)"

lemma comps_ne [simp]: "comps s \<noteq> []"
  by (induction s) (auto split: list.splits)

lemma comps_append_slash: "comps (xs @ CHR ''/'' # ys) = comps xs @ comps ys"
  by (induction xs) (auto split: list.splits)

lemma walk_append: "walk st (xs @ ys) = walk (walk st xs) ys"
  by (induction st xs rule: walk.induct) auto

lemma walk_down: "''..'' \<notin> set cs \<Longrightarrow> prefix st (walk st cs)"
  by (induction st cs rule: walk.induct) (auto dest: append_prefixD)

lemma comps_parts: "prefix (hd (comps s)) s \<and> (\<forall>c \<in> set (tl (comps s)). sublist c s)"
proof (induction s)
  case Nil
  then show ?case by simp
next
  case (Cons x s)
  have "sublist c s" if "c \<in> set (comps s)" for c
    using Cons that by (cases "comps s") auto
  then show ?case using Cons by (cases "comps s") (auto intro: sublist_Cons_right [THEN iffD2])
qed

lemma comps_sublist: "c \<in> set (comps s) \<Longrightarrow> sublist c s"
  using comps_parts [of s] by (cases "comps s") auto

text \<open>A path that starts with a slash and has no two dots in a row stays below any root.\<close>

lemma inside_append:
  assumes "\<not> sublist ''..'' (CHR ''/'' # p)"
  shows "inside root (root @ CHR ''/'' # p)"
proof -
  have "''..'' \<notin> set (comps p)"
    using assms comps_sublist [of "''..''" p] by (auto simp: sublist_Cons_right)
  then show ?thesis by (simp add: inside_def resolve_def comps_append_slash walk_append walk_down)
qed

section \<open>Which files a request can reach\<close>

text \<open>
  The entries of \<^verbatim>\<open>try_files\<close> that the documentation shows: the path of the request, alone or
  followed by a fixed path, and a fixed path.
\<close>

definition plain_path :: "string \<Rightarrow> bool" where
  "plain_path t \<longleftrightarrow> t \<noteq> [] \<and> hd t = CHR ''/'' \<and> CHR ''$'' \<notin> set t \<and> \<not> sublist ''..'' t \<and> length t < 512"

definition safe_template :: "string \<Rightarrow> bool" where
  "safe_template t \<longleftrightarrow> t = ''$uri'' \<or> take 4 t = ''$uri'' \<and> plain_path (drop 4 t) \<or> plain_path t"

definition server_paths_ok :: "np_server_config_t \<Rightarrow> bool" where
  "server_paths_ok cfg \<longleftrightarrow> length (srv_static_root cfg) < 512 \<and> list_all safe_template (srv_try_files cfg)"

lemma expand_uri_plain:
  "CHR ''$'' \<notin> set t \<Longrightarrow> n + length t < 8191 \<Longrightarrow> expand_uri path t (w, n) = Inr (w @ t)"
proof (induction t arbitrary: w n)
  case Nil
  then show ?case by (simp add: expand_uri.simps)
next
  case (Cons c t)
  have "take 4 (c # t) \<noteq> ''$uri''" using Cons.prems(1) by auto
  then show ?case using Cons by (auto simp: expand_uri.simps [of path "c # t"])
qed

lemma expand_uri_uri:
  assumes "CHR ''$'' \<notin> set t" "length path + length t < 8191"
  shows "expand_uri path (''$uri'' @ t) ([], 0) = Inr (path @ t)"
  using expand_uri_plain [OF assms(1), of "length path" path path] assms(2)
  by (subst expand_uri.simps) (simp add: snprintf_at_def)

lemma sublist_two_append:
  assumes "sublist [a, b] (xs @ ys)"
  shows "sublist [a, b] xs \<or> sublist [a, b] ys \<or> xs \<noteq> [] \<and> ys \<noteq> [] \<and> last xs = a \<and> hd ys = b"
proof -
  have "prefix [a, b] ys \<or> suffix [a, b] xs \<or> suffix [a] xs \<and> prefix [b] ys"
    if "[a, b] = u @ v" "suffix u xs" "prefix v ys" for u v
    using that by (auto simp: Cons_eq_append_conv)
  then have "sublist [a, b] xs \<or> sublist [a, b] ys \<or> suffix [a] xs \<and> prefix [b] ys"
    using assms prefix_imp_sublist [of "[a, b]" ys] suffix_imp_sublist [of "[a, b]" xs] unfolding sublist_append by blast
  moreover have "suffix [a] xs \<longleftrightarrow> xs \<noteq> [] \<and> last xs = a" by (cases xs rule: rev_cases) (auto simp: suffix_def)
  moreover have "prefix [b] ys \<longleftrightarrow> ys \<noteq> [] \<and> hd ys = b" by (cases ys) auto
  ultimately show ?thesis by blast
qed

lemma safe_template_expand:
  assumes t: "safe_template t" and p: "path \<noteq> []" "hd path = CHR ''/''" "\<not> sublist ''..'' path" "length path \<le> 4095"
  shows "\<exists>q. expand_uri path t ([], 0) = Inr q \<and> q \<noteq> [] \<and> hd q = CHR ''/'' \<and> \<not> sublist ''..'' q \<and> length q \<le> 4607"
proof -
  consider "t = ''$uri''" | r where "t = ''$uri'' @ r" "plain_path r" | "plain_path t"
    using t append_take_drop_id [of 4 t] unfolding safe_template_def by metis
  then show ?thesis
  proof cases
    case 1
    then show ?thesis using expand_uri_uri [of "[]" path] p by auto
  next
    case 2
    then have "expand_uri path t ([], 0) = Inr (path @ r)"
      using expand_uri_uri [of r path] p(4) by (simp add: plain_path_def)
    moreover have "\<not> sublist ''..'' (path @ r)"
      using 2(2) p(3) by (auto simp: plain_path_def dest: sublist_two_append)
    ultimately show ?thesis using p 2(2) by (auto simp: plain_path_def)
  next
    case 3
    then show ?thesis using expand_uri_plain [of t 0 path "[]"] by (auto simp: plain_path_def)
  qed
qed

lemma inside_root:
  assumes "q \<noteq> []" "hd q = CHR ''/''" "\<not> sublist ''..'' q" "length root < 512" "length q \<le> 4607"
  shows "take 8191 (root @ q) = root @ q" "inside root (root @ q)"
proof -
  show "take 8191 (root @ q) = root @ q" using assms(4,5) by simp
  obtain p where "q = CHR ''/'' # p" using assms(1,2) by (cases q) auto
  with assms(3) show "inside root (root @ q)" using inside_append [of p root] by simp
qed

text \<open>Two file systems that agree below a directory.\<close>

definition same_below :: "string \<Rightarrow> file_env \<Rightarrow> file_env \<Rightarrow> bool" where
  "same_below root env env' \<longleftrightarrow>
     (\<forall>p. inside root p \<longrightarrow> fe_open env p = fe_open env' p \<and> fe_stat env p = fe_stat env' p) \<and>
     fe_write env = fe_write env' \<and> fe_malloc env = fe_malloc env' \<and> fe_epoll env = fe_epoll env'"

lemma same_below_open: "same_below root env env' \<Longrightarrow> inside root p \<Longrightarrow> open_regular env p = open_regular env' p"
  by (simp add: same_below_def open_regular_def Let_def)

lemma try_files_below:
  assumes same: "same_below root env env'" and root: "length root < 512"
    and p: "path \<noteq> []" "hd path = CHR ''/''" "\<not> sublist ''..'' path" "length path \<le> 4095"
    and ts: "list_all safe_template ts"
  shows "try_files env root path ts = try_files env' root path ts"
  using ts
proof (induction ts)
  case Nil
  then show ?case by simp
next
  case (Cons t ts)
  from safe_template_expand [OF _ p, of t] Cons.prems obtain q where
    q: "expand_uri path t ([], 0) = Inr q" "q \<noteq> []" "hd q = CHR ''/''" "\<not> sublist ''..'' q" "length q \<le> 4607" by auto
  note in_root = inside_root [OF q(2-4) root q(5)]
  have IH: "try_files env root path ts = try_files env' root path ts" using Cons by simp
  show ?case
    unfolding try_files.simps q(1) mbind_simps in_root(1) Let_def same_below_open [OF same in_root(2)] IH by (rule refl)
qed

lemma open_default_below:
  assumes same: "same_below root env env'" and root: "length root < 512"
    and p: "path \<noteq> []" "hd path = CHR ''/''" "\<not> sublist ''..'' path" "length path \<le> 4095"
  shows "open_default env root path plen = open_default env' root path plen"
proof -
  have a: "take 8191 (root @ path) = root @ path" "inside root (root @ path)"
    using inside_root [OF p(1-3) root] p(4) by auto
  have "\<not> sublist ''..'' (path @ ''index.html'')"
    using p(3) by (auto dest!: sublist_two_append simp: sublist_Cons_right)
  then have b: "take 8191 (root @ path @ ''index.html'') = root @ path @ ''index.html''" "inside root (root @ path @ ''index.html'')"
    using inside_root [of "path @ ''index.html''" root] p root by auto
  note eqs = a(1) b(1) same_below_open [OF same a(2)] same_below_open [OF same b(2)]
  show ?thesis
    unfolding open_default_def Let_def eqs by (simp only: if_distrib [of "open_regular env"] if_distrib [of "open_regular env'"] eqs)
qed

text \<open>
  C13: No directory traversal: for a request whose path starts with a slash, files outside the
  document root have no influence on what the file server does. Whatever a second file system has
  outside the root, the response, the status, the descriptors and the connection are the same,
  provided both agree on the files below the root and the entries of try_files are of the
  documented forms.
\<close>

theorem file_server_below_root:
  assumes same: "same_below (srv_static_root cfg) env env'" and cfg: "server_paths_ok cfg"
    and path: "req_path req \<noteq> []" "hd (req_path req) = CHR ''/''"
  shows "file_server_handle env self conn loop req cfg = file_server_handle env' self conn loop req cfg"
proof -
  let ?plen = "min (length (req_path req)) 4095"
  let ?path = "cstr (take ?plen (req_path req))"
  obtain cs where cs: "req_path req = CHR ''/'' # cs" using path by (cases "req_path req") auto
  have p: "?path \<noteq> []" "hd ?path = CHR ''/''" by (simp_all add: cs cstr_def)
  have len: "length ?path \<le> 4095" using length_cstr_le [of "take ?plen (req_path req)"] by simp
  have root: "length (srv_static_root cfg) < 512" and ts: "list_all safe_template (srv_try_files cfg)"
    using cfg by (simp_all add: server_paths_ok_def)
  have k: "fe_write env = fe_write env'" "fe_malloc env = fe_malloc env'" "fe_epoll env = fe_epoll env'"
    using same by (simp_all add: same_below_def)
  have "try_files env (srv_static_root cfg) ?path (srv_try_files cfg) = try_files env' (srv_static_root cfg) ?path (srv_try_files cfg)"
    "open_default env (srv_static_root cfg) ?path ?plen = open_default env' (srv_static_root cfg) ?path ?plen"
    if "path_is_safe ?path"
    using try_files_below [OF same root p _ len ts] open_default_below [OF same root p _ len] that
    by (simp_all add: path_is_safe_def np_clib)
  then show ?thesis unfolding file_server_handle_def Let_def k by (cases "path_is_safe ?path") simp_all
qed

text \<open>A path that does not start with a slash can leave the root.\<close>

lemma no_slash_escapes: "\<not> inside ''/srv/www'' (''/srv/www'' @ ''-private/key'')"
  by (simp add: inside_def resolve_def)

definition demo_server :: np_server_config_t where
  "demo_server = server_zero\<lparr>srv_static_root := ''/srv/www'', srv_try_files := [''$uri'', ''$uri/index.html'', ''/404.html'']\<rparr>"

definition demo_file_env :: "bool \<Rightarrow> file_env" where
  "demo_file_env secret =
     \<lparr>fe_open = (\<lambda>p. if p = ''/srv/www/a'' \<or> secret \<and> p = ''/etc/passwd'' then 7 else -1),
      fe_stat = (\<lambda>p. Some \<lparr>st_regular = True, st_mtime = 1, st_size = 5\<rparr>),
      fe_write = (\<lambda>s. Write_n (length s)), fe_malloc = None, fe_epoll = True\<rparr>"

theorem file_server_below_root_witness:
  "file_server_handle (demo_file_env True) 0 (conn_zero \<lparr>a_blocks = [], a_block_size = 0\<rparr>) demo_loop (request_zero\<lparr>req_path := ''/a''\<rparr>) demo_server =
   file_server_handle (demo_file_env False) 0 (conn_zero \<lparr>a_blocks = [], a_block_size = 0\<rparr>) demo_loop (request_zero\<lparr>req_path := ''/a''\<rparr>) demo_server \<and>
   fe_open (demo_file_env True) ''/etc/passwd'' \<noteq> fe_open (demo_file_env False) ''/etc/passwd''"
proof -
  have "\<not> inside ''/srv/www'' ''/etc/passwd''" by (simp add: inside_def resolve_def)
  then have "same_below (srv_static_root demo_server) (demo_file_env True) (demo_file_env False)"
    by (auto simp: same_below_def demo_file_env_def demo_server_def)
  moreover have "server_paths_ok demo_server"
    by (simp add: server_paths_ok_def demo_server_def safe_template_def plain_path_def sublist_Cons_right)
  ultimately show ?thesis
    using file_server_below_root [of demo_server "demo_file_env True" "demo_file_env False" "request_zero\<lparr>req_path := ''/a''\<rparr>"]
    by (simp add: demo_file_env_def)
qed

section \<open>The handler keeps the connection well formed\<close>

definition file_env_ok :: "file_env \<Rightarrow> event_loop_t \<Rightarrow> bool" where
  "file_env_ok env loop \<longleftrightarrow> fresh_handler loop (fe_malloc env) \<and> kernel_write_ok (fe_write env) \<and>
     (\<forall>p st. fe_stat env p = Some st \<longrightarrow> 0 \<le> st_size st \<and> st_size st \<le> LLONG_MAX)"

lemma try_files_total:
  assumes p: "path \<noteq> []" "hd path = CHR ''/''" "\<not> sublist ''..'' path" "length path \<le> 4095" and ts: "list_all safe_template ts"
  shows "\<exists>found closed. try_files env root path ts = Inr (found, closed) \<and>
    (\<forall>r fd st. found = Some (r, fd, st) \<longrightarrow> fe_stat env r = Some st \<and> 0 \<le> fd)"
  using ts
proof (induction ts)
  case Nil
  then show ?case by simp
next
  case (Cons t ts)
  from safe_template_expand [OF _ p, of t] Cons.prems obtain q where q: "expand_uri path t ([], 0) = Inr q" by auto
  from Cons obtain found closed where f: "try_files env root path ts = Inr (found, closed)"
    "\<forall>r fd st. found = Some (r, fd, st) \<longrightarrow> fe_stat env r = Some st \<and> 0 \<le> fd" by auto
  show ?case
    by (auto simp: q f Let_def open_regular_def split: option.splits prod.splits if_splits)
qed

lemma open_default_total:
  "plen \<noteq> 0 \<Longrightarrow> \<exists>found closed. open_default env root path plen = Inr (found, closed) \<and>
    (\<forall>r fd st. found = Some (r, fd, st) \<longrightarrow> fe_stat env r = Some st \<and> 0 \<le> fd)"
  by (auto simp: open_default_def open_regular_def Let_def split: option.splits prod.splits if_splits)

lemma length_file_head:
  assumes "0 \<le> st_size st" "st_size st \<le> LLONG_MAX"
  shows "length (file_head (mime_by_extension ext) st ka) < 512" "0 < length (file_head mime st ka)"
proof -
  have h: "length (hex_nat (unat (w :: u64))) \<le> 16" for w
    using length_nat_base_le [of 16 "unat w" 15] unat_usize_less [of w] by simp
  have "nat (st_size st) < 10 ^ Suc 18" using assms by simp
  from length_dec_nat_le [OF this] have "length (dec_int (st_size st)) \<le> 20" using assms by (simp add: dec_int_def)
  then show "length (file_head (mime_by_extension ext) st ka) < 512"
    using length_mime_by_extension [of ext] h [of "st_mtime st"] h [of "word_of_int (st_size st)"]
    by (simp add: file_head_def etag_from_stat_def)
  show "0 < length (file_head mime st ka)" by (simp add: file_head_def)
qed

lemma write_not_modified:
  assumes "buf_ok b"
  shows "\<exists>b'. response_write_simple b 304 (Some ''Not Modified'') None None ka = Inr b' \<and> buf_ok b' \<and> b_cap b' = b_cap b"
proof -
  have "response_write_simple b 304 (Some ''Not Modified'') None None ka =
      response_write_simple b 304 (Some ''Not Modified'') (Some ''text/plain'') (Some []) ka"
    by (simp add: response_write_simple_def)
  moreover have "length (message_head 304 ''Not Modified'' ''text/plain'' (length ([] :: string)) ka) < 512"
    using length_dec_int [of 304] length_dec_nat_le [of 0 0] by (simp add: message_head_def)
  ultimately show ?thesis using write_simple_ok [OF assms, of "[]" 304 "''Not Modified''" "''text/plain''" ka] by auto
qed

text \<open>Serving a file that was found.\<close>

lemma serve_file_ok:
  assumes ok: "conn_ok conn" "loop_ok loop" "0 \<le> cn_fd conn" "file_env_ok env loop"
    and st: "0 \<le> st_size st" "st_size st \<le> LLONG_MAX"
  shows "\<exists>b loop' sent. mbind (buf_put_fmt 512 (cn_wbuf conn) (file_head (mime_by_extension ext) st ka)) (\<lambda>wbuf.
      mbind (buf_send (fe_write env) wbuf) (\<lambda>(wbuf, _, sent).
      mbind (event_loop_mod loop (cn_fd conn) ev On_client_event self (fe_malloc env) (fe_epoll env)) (\<lambda>(loop, _).
        Inr (f wbuf, loop, 200, sent, closed)))) = Inr (f b, loop', 200, sent, closed) \<and>
    buf_ok b \<and> b_cap b = b_cap (cn_wbuf conn) \<and> loop_ok loop' \<and> el_max_fd loop' = el_max_fd loop"
proof -
  let ?h = "file_head (mime_by_extension ext) st ka"
  note h = length_file_head(1) [OF st, of ext ka]
  have wb: "buf_ok (cn_wbuf conn)" using conn_ok_bufs [OF ok(1)] by blast
  have "buf_put_fmt 512 (cn_wbuf conn) ?h = buf_try_memcpy (cn_wbuf conn) ?h"
    using h length_file_head(2) [OF st] by (intro buf_put_fmt_fits)
  then obtain b1 where b1: "buf_put_fmt 512 (cn_wbuf conn) ?h = Inr b1" "buf_ok b1" "b_cap b1 = b_cap (cn_wbuf conn)"
    using buf_try_memcpy_ok [OF wb, of ?h] h by auto
  obtain b2 n sent where b2: "buf_send (fe_write env) b1 = Inr (b2, n, sent)" "buf_ok b2" "b_cap b2 = b_cap b1"
    using buf_send_ok [OF b1(2), of "fe_write env"] ok(4) by (auto simp: file_env_ok_def)
  obtain loop' s where l: "event_loop_mod loop (cn_fd conn) ev On_client_event self (fe_malloc env) (fe_epoll env) = Inr (loop', s)"
    "loop_ok loop'" "el_max_fd loop' = el_max_fd loop"
    using loop_ctl_put [OF ok(2) _ ok(3), of "fe_malloc env" EPOLL_CTL_MOD ev On_client_event self "fe_epoll env"] ok(4)
    by (auto simp: event_loop_mod_def file_env_ok_def)
  show ?thesis using b1 b2 l by auto
qed

lemma file_server_handle_ok:
  assumes ok: "conn_ok conn" "loop_ok loop" "0 \<le> cn_fd conn" "file_env_ok env loop" and cfg: "server_paths_ok cfg"
    and path: "req_path req \<noteq> []" "hd (req_path req) = CHR ''/''"
  shows "\<exists>conn' loop' status sent closed. file_server_handle env self conn loop req cfg = Inr (conn', loop', status, sent, closed) \<and>
    conn_ok conn' \<and> loop_ok loop' \<and> el_max_fd loop' = el_max_fd loop \<and> cn_fd conn' = cn_fd conn \<and>
    status \<in> {200, 304, 403, 404}"
proof -
  let ?plen = "min (length (req_path req)) 4095"
  let ?path = "cstr (take ?plen (req_path req))"
  let ?ka = "req_keep_alive req"
  obtain cs where cs: "req_path req = CHR ''/'' # cs" using path by (cases "req_path req") auto
  have p: "?path \<noteq> []" "hd ?path = CHR ''/''" by (simp_all add: cs cstr_def)
  have len: "length ?path \<le> 4095" using length_cstr_le [of "take ?plen (req_path req)"] by simp
  have wb: "buf_ok (cn_wbuf conn)" using conn_ok_bufs [OF ok(1)] by blast
  have error: "\<exists>b. response_write_error (cn_wbuf conn) s ?ka = Inr b \<and> conn_ok (conn\<lparr>cn_wbuf := b, cn_state := CONN_WRITING_RESPONSE\<rparr>)"
    if "s \<in> {403, 404}" for s
    using write_error_ok [OF wb, of s ?ka] that conn_ok_wbuf [OF ok(1)] by fastforce
  show ?thesis
  proof (cases "path_is_safe ?path")
    case False
    then show ?thesis using error [of 403] ok(2) by (auto simp: file_server_handle_def Let_def)
  next
    case True
    have "\<exists>found closed. (if srv_try_files cfg \<noteq> [] then try_files env (srv_static_root cfg) ?path (srv_try_files cfg)
        else open_default env (srv_static_root cfg) ?path ?plen) = Inr (found, closed) \<and>
        (\<forall>r fd st. found = Some (r, fd, st) \<longrightarrow> fe_stat env r = Some st \<and> 0 \<le> fd)"
      using try_files_total [OF p _ len, of "srv_try_files cfg" env "srv_static_root cfg"] True cfg path(1)
        open_default_total [of ?plen env "srv_static_root cfg" ?path]
      by (auto simp: path_is_safe_def np_clib server_paths_ok_def)
    then obtain found closed where f: "(if srv_try_files cfg \<noteq> [] then try_files env (srv_static_root cfg) ?path (srv_try_files cfg)
        else open_default env (srv_static_root cfg) ?path ?plen) = Inr (found, closed)"
      "\<forall>r fd st. found = Some (r, fd, st) \<longrightarrow> fe_stat env r = Some st \<and> 0 \<le> fd" by blast
    show ?thesis
    proof (cases found)
      case None
      then show ?thesis using error [of 404] ok(2) True by (auto simp: file_server_handle_def Let_def f(1))
    next
      case (Some x)
      obtain r fd st where x: "x = (r, fd, st)" by (cases x)
      then have st: "0 \<le> st_size st" "st_size st \<le> LLONG_MAX" using f(2) Some ok(4) by (auto simp: file_env_ok_def)
      obtain b where b: "response_write_simple (cn_wbuf conn) 304 (Some ''Not Modified'') None None ?ka = Inr b"
        "conn_ok (conn\<lparr>cn_wbuf := b, cn_state := CONN_WRITING_RESPONSE\<rparr>)"
        using write_not_modified [OF wb, of ?ka] conn_ok_wbuf [OF ok(1)] by blast
      note serve = serve_file_ok [OF ok st, of "file_extension r" ?ka "EV_WRITE OR EV_READ OR EV_HUP OR EV_EDGE" self
          "\<lambda>wbuf. conn\<lparr>cn_wbuf := wbuf, cn_file_fd := fd, cn_file_offset := 0, cn_file_remaining := st_size st, cn_state := CONN_SENDFILE\<rparr>" closed]
      have "conn_ok (conn\<lparr>cn_wbuf := b', cn_file_fd := fd, cn_file_offset := 0, cn_file_remaining := st_size st, cn_state := CONN_SENDFILE\<rparr>)"
        if "buf_ok b'" "b_cap b' = b_cap (cn_wbuf conn)" for b'
        using ok(1) that by (simp add: conn_ok_def buf_sized_def)
      with serve b ok(2) True show ?thesis
        unfolding file_server_handle_def Let_def f(1) Some x by fastforce
    qed
  qed
qed

end
