(* ===== verification/Logging.thy ===== *)
theory Logging
  imports Request "HOL-Library.Signed_Division"
begin

text \<open>
  The error log of \<^verbatim>\<open>src/src/core/log.c\<close> and the access log of
  \<^verbatim>\<open>src/src/features/access_log.c\<close>. The descriptors they keep in static variables are passed; the
  texts of the clock, the process id, \<^verbatim>\<open>strerror\<close> and the formatted message are arguments. The
  results are the bytes given to \<^verbatim>\<open>write\<close>.
\<close>

section \<open>Error log\<close>

datatype log_level_t = LOG_ERROR | LOG_WARN | LOG_INFO | LOG_DEBUG

fun level_no :: "log_level_t \<Rightarrow> int" where
  "level_no LOG_ERROR = 0"
| "level_no LOG_WARN = 1"
| "level_no LOG_INFO = 2"
| "level_no LOG_DEBUG = 3"

fun level_str :: "log_level_t \<Rightarrow> string" where
  "level_str LOG_ERROR = ''ERROR''"
| "level_str LOG_WARN = ''WARN ''"
| "level_str LOG_INFO = ''INFO ''"
| "level_str LOG_DEBUG = ''DEBUG''"

text \<open>The static variables: descriptor and level.\<close>

record log_state =
  lg_fd :: int
  lg_level :: int

abbreviation STDOUT_FILENO :: int where "STDOUT_FILENO \<equiv> 1"
abbreviation STDERR_FILENO :: int where "STDERR_FILENO \<equiv> 2"

definition log_start :: log_state where
  "log_start = \<lparr>lg_fd = STDERR_FILENO, lg_level = level_no LOG_INFO\<rparr>"

text \<open>\<open>fd\<close> is what \<^verbatim>\<open>open\<close> returns.\<close>

definition log_init :: "log_state \<Rightarrow> string option \<Rightarrow> int \<Rightarrow> int \<Rightarrow> log_state" where
  "log_init g path level fd =
     (let g = g\<lparr>lg_level := level\<rparr>
      in case path of
           None \<Rightarrow> g
         | Some p \<Rightarrow> if p = [] then g else if fd < 0 then g else g\<lparr>lg_fd := fd\<rparr>)"

text \<open>The second component is the descriptor closed.\<close>

definition log_close :: "log_state \<Rightarrow> log_state \<times> int option" where
  "log_close g =
     (if lg_fd g \<noteq> STDERR_FILENO then (g\<lparr>lg_fd := STDERR_FILENO\<rparr>, Some (lg_fd g)) else (g, None))"

record log_clock =
  tm_year :: int
  tm_mon :: int
  tm_mday :: int
  tm_hour :: int
  tm_min :: int
  tm_sec :: int
  tv_nsec :: int

text \<open>\<open>%0wd\<close> of a number that is not negative.\<close>

definition dec_pad :: "nat \<Rightarrow> int \<Rightarrow> string" where
  "dec_pad w i = pad_left w (CHR ''0'') (dec_int i)"

definition log_header :: "log_clock \<Rightarrow> log_level_t \<Rightarrow> int \<Rightarrow> string" where
  "log_header t level pid =
     dec_pad 4 (tm_year t + 1900) @ ''-'' @ dec_pad 2 (tm_mon t + 1) @ ''-'' @ dec_pad 2 (tm_mday t) @ ''T'' @
     dec_pad 2 (tm_hour t) @ '':'' @ dec_pad 2 (tm_min t) @ '':'' @ dec_pad 2 (tm_sec t) @ ''.'' @
     dec_pad 3 (tv_nsec t div 1000000) @ ''Z ['' @ level_str level @ ''] ['' @ dec_int pid @ ''] ''"

text \<open>
  The array has 4096 bytes; \<open>body\<close> is the formatted message. The last step stores a NUL at the
  position \<open>total\<close>, which is beyond the array when the message was cut.
\<close>

definition log_vwrite ::
  "log_state \<Rightarrow> log_level_t \<Rightarrow> log_clock \<Rightarrow> int \<Rightarrow> string \<Rightarrow> string option \<Rightarrow> string option mem" where
  "log_vwrite g level t pid body err =
     (if lg_level g < level_no level then Inr None
      else
        mbind (snprintf_all 4096 ([], 0) [log_header t level pid, body]) (\<lambda>wn.
        mbind (case err of
                 Some e \<Rightarrow> if snd wn < 4096 - 64 then snprintf_at 4096 wn ('': '' @ e) else Inr wn
               | None \<Rightarrow> Inr wn) (\<lambda>(w, total).
          let (w, total) = (if total < 4096 - 1 then (w @ LF, total + 1) else (w, total))
          in if 4096 \<le> total then Inl Out_of_bounds
             else Inr (Some w))))"

definition log_write :: "log_state \<Rightarrow> log_level_t \<Rightarrow> log_clock \<Rightarrow> int \<Rightarrow> string \<Rightarrow> string option mem" where
  "log_write g level t pid body = log_vwrite g level t pid body None"

definition log_write_errno ::
  "log_state \<Rightarrow> log_level_t \<Rightarrow> log_clock \<Rightarrow> int \<Rightarrow> string \<Rightarrow> string \<Rightarrow> string option mem" where
  "log_write_errno g level t pid body err = log_vwrite g level t pid body (Some err)"

text \<open>A message that fits is written whole, on a line of its own; a longer one stores outside the array.\<close>

lemma log_write_line:
  assumes "level_no level \<le> lg_level g"
  shows "length (log_header t level pid) + length body < 4095 \<Longrightarrow>
      log_write g level t pid body = Inr (Some (log_header t level pid @ body @ LF))"
    and "4096 \<le> length (log_header t level pid) + length body \<Longrightarrow> log_write g level t pid body = Inl Out_of_bounds"
  using assms by (auto simp: log_write_def log_vwrite_def snprintf_at_def)

lemma log_write_quiet: "lg_level g < level_no level \<Longrightarrow> log_write g level t pid body = Inr None"
  by (simp add: log_write_def log_vwrite_def)

section \<open>Access log\<close>

text \<open>\<open>fd\<close> is what \<^verbatim>\<open>open\<close> returns.\<close>

definition access_log_init :: "string option \<Rightarrow> int \<Rightarrow> int" where
  "access_log_init path fd =
     (case path of None \<Rightarrow> STDOUT_FILENO | Some p \<Rightarrow> if p = [] then STDOUT_FILENO else fd)"

text \<open>The new value of the variable and the descriptor closed.\<close>

definition access_log_close :: "int \<Rightarrow> int \<times> int option" where
  "access_log_close g = (if 0 \<le> g \<and> g \<noteq> STDOUT_FILENO then (-1, Some g) else (g, None))"

record timespec =
  ts_sec :: int
  ts_nsec :: int

text \<open>A slice printed with \<^verbatim>\<open>%.*s\<close> ends at a NUL.\<close>

definition access_line :: "http_request_t \<Rightarrow> int \<Rightarrow> usize \<Rightarrow> string \<Rightarrow> int \<Rightarrow> string" where
  "access_line req status bytes tsbuf latency_us =
     req_remote_ip req @ '' - - ['' @ tsbuf @ ''] \"'' @ http_method_str (req_method req) @ '' '' @
     cstr (req_path req) @ '' HTTP/1.'' @ (if req_version req = HTTP_11 then ''1'' else ''0'') @ ''\" '' @
     dec_int status @ '' '' @ dec_nat (unat bytes) @ '' '' @ dec_int latency_us @ ''us'' @ LF"

text \<open>\<open>tsbuf\<close> is the text of \<^verbatim>\<open>strftime\<close>, \<open>end\<close> the clock after the request.\<close>

definition access_log_write ::
  "int \<Rightarrow> http_request_t \<Rightarrow> int \<Rightarrow> usize \<Rightarrow> timespec \<Rightarrow> timespec \<Rightarrow> string \<Rightarrow> string mem" where
  "access_log_write g req status bytes start stop tsbuf =
     (if g < 0 then Inr []
      else
        (let latency_us = (ts_sec stop - ts_sec start) * 1000000 + (ts_nsec stop - ts_nsec start) sdiv 1000
         in fmt_bytes 1024 (access_line req status bytes tsbuf latency_us)))"

text \<open>A line of which everything but the path has its usual size.\<close>

definition access_args_ok :: "http_request_t \<Rightarrow> int \<Rightarrow> timespec \<Rightarrow> timespec \<Rightarrow> string \<Rightarrow> bool" where
  "access_args_ok req status start stop tsbuf \<longleftrightarrow> length (req_remote_ip req) < 16 \<and> length tsbuf < 32 \<and>
     100 \<le> status \<and> status < 1000 \<and> 0 \<le> ts_nsec start \<and> ts_nsec start < 1000000000 \<and>
     0 \<le> ts_nsec stop \<and> ts_nsec stop < 1000000000 \<and>
     ts_sec start \<le> ts_sec stop \<and> ts_sec stop - ts_sec start < 1000000000"

lemma length_method: "length (http_method_str m) \<le> 7"
  by (cases m) simp_all

lemma length_dec_int_le:
  assumes "\<bar>i\<bar> < 10 ^ Suc k"
  shows "length (dec_int i) \<le> k + 2"
proof -
  have "nat \<bar>i\<bar> < 10 ^ Suc k" using assms by (metis nat_less_iff abs_ge_zero of_nat_numeral of_nat_power)
  from length_dec_nat_le [OF this] show ?thesis by (auto simp: dec_int_def abs_if split: if_splits)
qed

lemma access_line_length:
  assumes "access_args_ok req status start stop tsbuf"
  shows "length (access_line req status bytes tsbuf
      ((ts_sec stop - ts_sec start) * 1000000 + (ts_nsec stop - ts_nsec start) sdiv 1000)) \<le> length (cstr (req_path req)) + 144"
proof -
  let ?l = "(ts_sec stop - ts_sec start) * 1000000 + (ts_nsec stop - ts_nsec start) sdiv 1000"
  have "\<bar>(ts_nsec stop - ts_nsec start) sdiv 1000\<bar> \<le> 1000000"
    using assms by (auto simp: access_args_ok_def signed_divide_int_def abs_mult sgn_if)
  moreover have "0 \<le> (ts_sec stop - ts_sec start) * 1000000" "(ts_sec stop - ts_sec start) * 1000000 \<le> 1000000000 * 1000000"
    using assms by (auto simp: access_args_ok_def)
  ultimately have "\<bar>?l\<bar> < 10 ^ Suc 17" by simp
  from length_dec_int_le [OF this] have 1: "length (dec_int ?l) \<le> 19" by simp
  have 2: "length (dec_int status) \<le> 4" using assms by (intro length_dec_int_le [where k = 2, simplified]) (simp add: access_args_ok_def)
  have 3: "length (dec_nat (unat bytes)) \<le> 20" using length_dec_nat_le [of "unat bytes" 19] unat_usize_less [of bytes] by simp
  show ?thesis using 1 2 3 length_method [of "req_method req"] assms by (simp add: access_line_def access_args_ok_def)
qed

lemma access_log_write_fits:
  assumes "access_args_ok req status start stop tsbuf" "length (req_path req) \<le> 870" "0 \<le> g"
  shows "\<exists>us. access_log_write g req status bytes start stop tsbuf = Inr (access_line req status bytes tsbuf us)"
proof -
  let ?us = "(ts_sec stop - ts_sec start) * 1000000 + (ts_nsec stop - ts_nsec start) sdiv 1000"
  have "length (access_line req status bytes tsbuf ?us) \<le> length (cstr (req_path req)) + 144"
    by (rule access_line_length [OF assms(1)])
  then have "length (access_line req status bytes tsbuf ?us) < 1024"
    using length_cstr_le [of "req_path req"] assms(2) by simp
  then show ?thesis using assms(3) by (auto simp: access_log_write_def fmt_bytes_def)
qed

text \<open>
  The access log writes the whole line of a request whose path has at most 870 bytes, but
  reads beyond its array on the stack, and writes what it finds there, as soon as the path has
  1024 bytes without a NUL; nothing before it limits the path to less than the read buffer.
\<close>

theorem access_log_bounds:
  assumes "0 \<le> g" and ok: "access_args_ok req status start stop tsbuf"
  shows "(length (req_path req) \<le> 870 \<longrightarrow>
      (\<exists>us. access_log_write g req status bytes start stop tsbuf = Inr (access_line req status bytes tsbuf us))) \<and>
    (1024 \<le> length (cstr (req_path req)) \<longrightarrow> access_log_write g req status bytes start stop tsbuf = Inl Out_of_bounds)"
proof (intro conjI impI)
  show "\<exists>us. access_log_write g req status bytes start stop tsbuf = Inr (access_line req status bytes tsbuf us)"
    if "length (req_path req) \<le> 870" by (rule access_log_write_fits [OF ok that assms(1)])
  show "access_log_write g req status bytes start stop tsbuf = Inl Out_of_bounds" if "1024 \<le> length (cstr (req_path req))"
    using assms(1) that by (simp add: access_log_write_def fmt_bytes_def access_line_def)
qed

definition demo_request :: "string \<Rightarrow> http_request_t" where
  "demo_request path = request_zero\<lparr>req_path := path, req_version := HTTP_11, req_remote_ip := ''10.0.0.1''\<rparr>"

theorem access_log_bounds_witness:
  "(\<exists>us. access_log_write 1 (demo_request ''/a'') 200 0 \<lparr>ts_sec = 5, ts_nsec = 0\<rparr> \<lparr>ts_sec = 5, ts_nsec = 9000\<rparr>
      ''01/Jan/2025:00:00:00 +0000'' = Inr (access_line (demo_request ''/a'') 200 0 ''01/Jan/2025:00:00:00 +0000'' us)) \<and>
   access_log_write 1 (demo_request (replicate 1024 (CHR ''a''))) 404 0 \<lparr>ts_sec = 5, ts_nsec = 0\<rparr> \<lparr>ts_sec = 5, ts_nsec = 9000\<rparr>
      ''01/Jan/2025:00:00:00 +0000'' = Inl Out_of_bounds"
proof -
  have "access_args_ok (demo_request p) 200 \<lparr>ts_sec = 5, ts_nsec = 0\<rparr> \<lparr>ts_sec = 5, ts_nsec = 9000\<rparr> ''01/Jan/2025:00:00:00 +0000''"
    "access_args_ok (demo_request p) 404 \<lparr>ts_sec = 5, ts_nsec = 0\<rparr> \<lparr>ts_sec = 5, ts_nsec = 9000\<rparr> ''01/Jan/2025:00:00:00 +0000''"
    for p by (simp_all add: access_args_ok_def demo_request_def request_zero_def)
  moreover have "cstr (replicate 1024 (CHR ''a'')) = replicate 1024 (CHR ''a'')" by (simp add: np_clib)
  ultimately show ?thesis
    using access_log_bounds [of 1 "demo_request ''/a''" 200 _ _ _ 0]
      access_log_bounds [of 1 "demo_request (replicate 1024 (CHR ''a''))" 404 _ _ _ 0]
    by (simp add: demo_request_def)
qed

end
