(* ===== verification/Worker_State.thy ===== *)
theory Worker_State
  imports Socket Module Upstream Rate_Limit Cache Timeout Metrics Static_Files Logging
begin

text \<open>
  The state of a worker process, which the proxy, the dispatcher and the callbacks of
  \<^verbatim>\<open>src/src/proc/worker.c\<close> share: \<^verbatim>\<open>worker_state_t\<close> with the \<^verbatim>\<open>handler_ctx_t\<close> of
  \<^verbatim>\<open>src/src/http/handler.h\<close>, the heap of connections, and the globals of other files that a
  callback changes (the modules, the descriptor of the access log), the files of the cache, and a
  trace of what the process does to its descriptors. The two functions of \<^verbatim>\<open>worker.c\<close> that the
  proxy calls are here, and the invariant of the state that every callback keeps.
\<close>

section \<open>Model\<close>

text \<open>The two arrays have one element for each possible server; \<^verbatim>\<open>NULL\<close> is \<open>None\<close>.\<close>

record handler_ctx_t =
  hc_config :: np_config_t
  hc_upstream_pools :: "upstream_pool option list"
  hc_cache_stores :: "cache_store_t option list"
  hc_rate_limiter :: "rate_limiter option"
  hc_metrics :: "np_metrics option"

text \<open>Bytes written to a descriptor, bytes of a file sent to one, a descriptor closed, a line of the access log.\<close>

datatype effect = Sent int string | Sent_file int int int nat | Closed int | Logged string

text \<open>The member \<^verbatim>\<open>cfg\<close> is the same pointer as \<^verbatim>\<open>hctx.config\<close>.\<close>

record worker_state_t =
  ws_listeners :: "np_socket_t list"
  ws_loop :: event_loop_t
  ws_tw :: timeout_wheel
  ws_timers :: theap
  ws_hctx :: handler_ctx_t
  ws_pool :: conn_pool_t
  ws_conns :: cheap
  ws_running :: int
  ws_active_conns :: int
  ws_now :: int
  ws_modules :: "loaded_module_t list"
  ws_access_fd :: int
  ws_fs :: fs
  ws_trace :: "effect list"

abbreviation ws_config :: "worker_state_t \<Rightarrow> np_config_t" where
  "ws_config ws \<equiv> hc_config (ws_hctx ws)"

text \<open>Following the pointer to a connection, and storing through it.\<close>

definition conn_at :: "worker_state_t \<Rightarrow> nat \<Rightarrow> conn_t mem" where
  "conn_at ws p = (case ws_conns ws p of None \<Rightarrow> Inl Out_of_bounds | Some c \<Rightarrow> Inr c)"

definition set_conn :: "nat \<Rightarrow> conn_t \<Rightarrow> worker_state_t \<Rightarrow> worker_state_t" where
  "set_conn p c ws = ws\<lparr>ws_conns := (ws_conns ws)(p \<mapsto> c)\<rparr>"

definition emit :: "effect list \<Rightarrow> worker_state_t \<Rightarrow> worker_state_t" where
  "emit es ws = ws\<lparr>ws_trace := ws_trace ws @ es\<rparr>"

text \<open>A call of \<^verbatim>\<open>write\<close> that took no bytes leaves no trace.\<close>

definition sent :: "int \<Rightarrow> string \<Rightarrow> effect list" where
  "sent fd s = (if s = [] then [] else [Sent fd s])"

text \<open>
  What \<^verbatim>\<open>malloc\<close> and \<^verbatim>\<open>epoll_ctl\<close> answer to a call that changes the loop: the address depends on
  the handlers in use at that moment.
\<close>

type_synonym handler_alloc = "(nat \<rightharpoonup> ev_handler_t) \<Rightarrow> nat option"
type_synonym ctl_ans = "handler_alloc \<times> bool"

text \<open>\<open>conn_pool_put (ws->pool, conn)\<close>; the booleans are the answers of \<^verbatim>\<open>epoll_ctl\<close>.\<close>

definition ws_pool_put :: "worker_state_t \<Rightarrow> nat \<Rightarrow> bool \<times> bool \<Rightarrow> worker_state_t mem" where
  "ws_pool_put ws p k =
     mbind (conn_pool_put (ws_pool ws) (ws_conns ws) (ws_loop ws) p (fst k) (snd k)) (\<lambda>(pool, h, loop, fds).
       Inr (emit (map Closed fds) (ws\<lparr>ws_pool := pool, ws_conns := h, ws_loop := loop\<rparr>)))"

definition ws_event_mod ::
  "worker_state_t \<Rightarrow> int \<Rightarrow> u32 \<Rightarrow> ev_handler_fn \<Rightarrow> nat \<Rightarrow> ctl_ans \<Rightarrow> worker_state_t mem" where
  "ws_event_mod ws fd events fn p a =
     mbind (event_loop_mod (ws_loop ws) fd events fn p (fst a (el_heap (ws_loop ws))) (snd a)) (\<lambda>(loop, _).
       Inr (ws\<lparr>ws_loop := loop\<rparr>))"

definition worker_conn_close :: "worker_state_t \<Rightarrow> nat \<Rightarrow> bool \<times> bool \<Rightarrow> worker_state_t mem" where
  "worker_conn_close ws p k = ws_pool_put (ws\<lparr>ws_active_conns := ws_active_conns ws - 1\<rparr>) p k"

definition worker_client_event_mod :: "worker_state_t \<Rightarrow> nat \<Rightarrow> u32 \<Rightarrow> ctl_ans \<Rightarrow> worker_state_t mem" where
  "worker_client_event_mod ws p events a =
     mbind (conn_at ws p) (\<lambda>c. ws_event_mod ws (cn_fd c) events On_client_event p a)"

text \<open>The clock and the text of the time for a line of the access log.\<close>

record log_env =
  le_stop :: timespec
  le_tsbuf :: string

definition ws_access_log :: "log_env \<Rightarrow> http_request_t \<Rightarrow> int \<Rightarrow> timespec \<Rightarrow> worker_state_t \<Rightarrow> worker_state_t mem" where
  "ws_access_log le req status start ws =
     mbind (access_log_write (ws_access_fd ws) req status 0 start (le_stop le) (le_tsbuf le)) (\<lambda>line.
       Inr (emit (if line = [] then [] else [Logged line]) ws))"

section \<open>Invariant\<close>

text \<open>The copy of a response that the cache is given later.\<close>

definition cache_copy_ok :: "conn_t \<Rightarrow> bool" where
  "cache_copy_ok c \<longleftrightarrow>
     (case cn_cache_buf c of
        None \<Rightarrow> cn_cache_len c = 0 \<and> cn_cache_cap c = 0
      | Some d \<Rightarrow> length d = unat (cn_cache_cap c) \<and> cn_cache_len c \<le> cn_cache_cap c \<and> unat (cn_cache_cap c) \<le> 2 ^ 62)"

definition cache_copy :: "conn_t \<Rightarrow> string" where
  "cache_copy c = (case cn_cache_buf c of None \<Rightarrow> [] | Some d \<Rightarrow> take (unat (cn_cache_len c)) d)"

lemma cache_copy_ok_cong:
  "cn_cache_buf c' = cn_cache_buf c \<Longrightarrow> cn_cache_len c' = cn_cache_len c \<Longrightarrow> cn_cache_cap c' = cn_cache_cap c \<Longrightarrow>
     cache_copy_ok c' = cache_copy_ok c"
  unfolding cache_copy_ok_def by (simp cong: option.case_cong)

definition conn_wf :: "conn_t \<Rightarrow> bool" where
  "conn_wf c \<longleftrightarrow> conn_ok c \<and> cache_copy_ok c"

text \<open>Only the buffers, the arena and the copy matter.\<close>

lemma conn_wf_simps [simp]:
  "conn_wf (c\<lparr>cn_fd := x0\<rparr>) = conn_wf c" "conn_wf (c\<lparr>cn_upstream_fd := x1\<rparr>) = conn_wf c"
  "conn_wf (c\<lparr>cn_state := x2\<rparr>) = conn_wf c" "conn_wf (c\<lparr>cn_peer := x3\<rparr>) = conn_wf c"
  "conn_wf (c\<lparr>cn_last_active := x4\<rparr>) = conn_wf c" "conn_wf (c\<lparr>cn_file_fd := x5\<rparr>) = conn_wf c"
  "conn_wf (c\<lparr>cn_file_offset := x6\<rparr>) = conn_wf c" "conn_wf (c\<lparr>cn_file_remaining := x7\<rparr>) = conn_wf c"
  "conn_wf (c\<lparr>cn_keep_alive := x8\<rparr>) = conn_wf c" "conn_wf (c\<lparr>cn_tls := x9\<rparr>) = conn_wf c"
  "conn_wf (c\<lparr>cn_proxy_pool := x10\<rparr>) = conn_wf c" "conn_wf (c\<lparr>cn_tls_conn := x11\<rparr>) = conn_wf c"
  "conn_wf (c\<lparr>cn_request := x12\<rparr>) = conn_wf c" "conn_wf (c\<lparr>cn_response := x13\<rparr>) = conn_wf c"
  "conn_wf (c\<lparr>cn_cache_store := x14\<rparr>) = conn_wf c" "conn_wf (c\<lparr>cn_cache_key := x15\<rparr>) = conn_wf c"
  "conn_wf (c\<lparr>cn_proxy_status := x16\<rparr>) = conn_wf c" "conn_wf (c\<lparr>cn_next := x17\<rparr>) = conn_wf c"
  "conn_wf (c\<lparr>cn_prev := x18\<rparr>) = conn_wf c"
  by (simp_all add: conn_wf_def conn_ok_def cache_copy_ok_def cong: option.case_cong)

lemma conn_wf_bufs:
  assumes "conn_wf c" "buf_ok b"
  shows "b_cap b = b_cap (cn_rbuf c) \<Longrightarrow> conn_wf (c\<lparr>cn_rbuf := b\<rparr>)"
    "b_cap b = b_cap (cn_wbuf c) \<Longrightarrow> conn_wf (c\<lparr>cn_wbuf := b\<rparr>)"
    "b_cap b = b_cap (cn_upstream_rbuf c) \<Longrightarrow> conn_wf (c\<lparr>cn_upstream_rbuf := b\<rparr>)"
    "b_cap b = b_cap (cn_upstream_wbuf c) \<Longrightarrow> conn_wf (c\<lparr>cn_upstream_wbuf := b\<rparr>)"
  using assms by (auto simp: conn_wf_def conn_ok_def buf_sized_def cache_copy_ok_def cong: option.case_cong)

lemma conn_wf_buf_ok:
  "conn_wf c \<Longrightarrow> buf_ok (cn_rbuf c)" "conn_wf c \<Longrightarrow> buf_ok (cn_wbuf c)"
  "conn_wf c \<Longrightarrow> buf_ok (cn_upstream_rbuf c)" "conn_wf c \<Longrightarrow> buf_ok (cn_upstream_wbuf c)"
  by (simp_all add: conn_wf_def conn_ok_def buf_sized_def)

definition conns_wf :: "cheap \<Rightarrow> bool" where
  "conns_wf h \<longleftrightarrow> (\<forall>p c. h p = Some c \<longrightarrow> conn_wf c)"

text \<open>
  Connections and event loop are well formed, and there is an element of each array for every
  server of the configuration.
\<close>

definition hctx_ok :: "handler_ctx_t \<Rightarrow> bool" where
  "hctx_ok x \<longleftrightarrow> c_servers (hc_config x) \<noteq> [] \<and>
     length (c_servers (hc_config x)) \<le> length (hc_upstream_pools x) \<and>
     length (c_servers (hc_config x)) \<le> length (hc_cache_stores x)"

definition worker_ok :: "worker_state_t \<Rightarrow> bool" where
  "worker_ok ws \<longleftrightarrow> loop_ok (ws_loop ws) \<and> conns_wf (ws_conns ws) \<and> hctx_ok (ws_hctx ws)"

lemma worker_ok_simps [simp]:
  "worker_ok (emit es ws) = worker_ok ws"
  "worker_ok (ws\<lparr>ws_active_conns := n\<rparr>) = worker_ok ws"
  "worker_ok (ws\<lparr>ws_fs := f\<rparr>) = worker_ok ws"
  by (simp_all add: worker_ok_def emit_def)

lemma conn_at_Inr: "conn_at ws p = Inr c \<longleftrightarrow> ws_conns ws p = Some c"
  by (simp add: conn_at_def split: option.splits)

lemma conn_at_wf: "worker_ok ws \<Longrightarrow> ws_conns ws p = Some c \<Longrightarrow> conn_wf c"
  by (simp add: worker_ok_def conns_wf_def)

lemma set_conn_ok: "worker_ok ws \<Longrightarrow> conn_wf c \<Longrightarrow> worker_ok (set_conn p c ws)"
  by (simp add: worker_ok_def set_conn_def conns_wf_def)

lemma ws_simps [simp]:
  "ws_conns (set_conn p c ws) = (ws_conns ws)(p \<mapsto> c)" "ws_loop (set_conn p c ws) = ws_loop ws"
  "ws_hctx (set_conn p c ws) = ws_hctx ws" "ws_pool (set_conn p c ws) = ws_pool ws"
  "ws_conns (emit es ws) = ws_conns ws" "ws_loop (emit es ws) = ws_loop ws"
  "ws_hctx (emit es ws) = ws_hctx ws" "ws_pool (emit es ws) = ws_pool ws"
  "ws_trace (emit es ws) = ws_trace ws @ es" "ws_trace (set_conn p c ws) = ws_trace ws"
  "ws_fs (emit es ws) = ws_fs ws" "ws_fs (set_conn p c ws) = ws_fs ws"
  "ws_modules (emit es ws) = ws_modules ws" "ws_modules (set_conn p c ws) = ws_modules ws"
  "ws_access_fd (emit es ws) = ws_access_fd ws" "ws_access_fd (set_conn p c ws) = ws_access_fd ws"
  "ws_active_conns (emit es ws) = ws_active_conns ws" "ws_active_conns (set_conn p c ws) = ws_active_conns ws"
  by (simp_all add: set_conn_def emit_def)

text \<open>Results of a sequence of calls, taken apart from the front.\<close>

lemma mbind_InrE:
  assumes "mbind m f = Inr y"
  obtains x where "m = Inr x" "f x = Inr y"
  using assms by (auto simp: mbind_Inr_iff)

text \<open>A buffer after a call that writes to the kernel, for a result that is known.\<close>

lemma buf_send_keeps:
  assumes "buf_send k b = Inr (b', n, s)" "buf_ok b" "kernel_write_ok k"
  shows "buf_ok b'" "b_cap b' = b_cap b" "buf_contents b = s @ buf_contents b'"
  using buf_send_ok [OF assms(2,3)] assms(1) by auto

lemma buf_send_all_keeps:
  assumes "buf_send_all ks b = Inr (b', n, s)" "buf_ok b" "list_all kernel_write_ok ks"
  shows "buf_ok b'" "b_cap b' = b_cap b" "buf_contents b = s @ buf_contents b'"
  using buf_send_all_ok [OF assms(2,3)] assms(1) by auto

lemma buf_recv_all_keeps:
  assumes "buf_recv_all ks b = Inr (b', n, s)" "buf_ok b" "list_all kernel_read_ok ks"
  shows "buf_ok b'" "b_cap b' = b_cap b" "buf_contents b' = buf_contents b @ s"
  using buf_recv_all_ok [OF assms(2,3)] assms(1) by auto

text \<open>Reading bytes that are there and fit, and writing to a client that takes \<open>k\<close> of them and no more.\<close>

lemma buf_recv_data:
  assumes ok: "buf_ok b" and s: "s \<noteq> []" "length (buf_contents b) + length s \<le> unat (b_cap b)"
  obtains b' where "buf_recv (\<lambda>room. Read_data (take room s)) b = Inr (b', int (length s), s)" "buf_ok b'"
    "b_cap b' = b_cap b" "buf_contents b' = buf_contents b @ s"
proof -
  obtain c where c: "buf_compact b = Inr c" "buf_ok c" "buf_contents c = buf_contents b"
      "b_cap c = b_cap b" "buf_room c = unat (b_cap b) - length (buf_contents b)"
    using buf_compact_ok [OF ok] by blast
  have room: "length s \<le> buf_room c" using c(5) s by simp
  then have wr: "buf_writable c \<noteq> 0" using s(1) by (cases s) (simp_all add: buf_writable_0_iff [OF c(2)])
  obtain b' where b': "buf_memcpy c s = Inr b'" "buf_ok b'" "buf_contents b' = buf_contents c @ s" "b_cap b' = b_cap c"
    using buf_memcpy_fits [OF c(2) room] by blast
  have "unat (buf_readable b) \<le> unat (b_cap b)" using ok by (auto simp: np_word buf_ok_def)
  then have "unat (b_cap b - buf_readable b) = unat (b_cap b) - length (buf_contents b)"
    using ok by (simp add: np_word length_buf_contents)
  then have "take (unat (b_cap b - buf_readable b)) s = s" using s(2) by simp
  then have "buf_recv (\<lambda>room. Read_data (take room s)) b = Inr (b', int (length s), s)"
    using c(1) wr b'(1) s(1) by (simp add: buf_recv_def buf_read_fd_def Let_def)
  then show ?thesis using that b' c by simp
qed

definition client_takes :: "nat \<Rightarrow> kernel_write list" where
  "client_takes k = (if k = 0 then [] else [\<lambda>t. Write_n (min k (length t))])"

lemma client_takes_ok: "list_all kernel_write_ok (client_takes k)"
  by (simp add: client_takes_def kernel_write_ok_def)

lemma buf_send_eagain: "buf_ok b \<Longrightarrow> \<exists>n. buf_send (\<lambda>_. Write_eagain) b = Inr (b, n, [])"
  by (auto simp: buf_send_def buf_write_fd_def buf_read_ptr_contents)

lemma buf_send_client_takes:
  assumes ok: "buf_ok b"
  obtains b' n where "buf_send_all (client_takes k) b = Inr (b', n, take k (buf_contents b))" "buf_ok b'" "b_cap b' = b_cap b"
    "buf_contents b' = drop k (buf_contents b)"
proof (cases "k = 0 \<or> buf_contents b = []")
  case True
  from buf_send_eagain [OF ok] obtain n where n: "buf_send (\<lambda>_. Write_eagain) b = Inr (b, n, [])" ..
  have "\<exists>n. buf_send_all (client_takes k) b = Inr (b, n, [])"
    using True n buf_readable_0_iff [OF ok] by (auto simp: client_takes_def buf_send_def buf_write_fd_def)
  then show ?thesis using that [of b] True ok by auto
next
  case False
  let ?n = "min k (length (buf_contents b))"
  have c: "take (unat (buf_readable b)) (drop (unat (b_read_pos b)) (b_data b)) = buf_contents b"
    using ok by (simp add: np_word buf_contents_def buf_ok_def)
  have tk: "take ?n (buf_contents b) = take k (buf_contents b)" "drop ?n (buf_contents b) = drop k (buf_contents b)"
    by (simp_all add: min_def)
  have n: "?n \<le> length (buf_contents b)" "0 < ?n" using False by simp_all
  define b' where "b' = buf_consume b (of_nat ?n)"
  note b' = buf_consume_ok [OF ok n(1), folded b'_def]
  from buf_send_eagain [OF b'(1)] obtain m where m: "buf_send (\<lambda>_. Write_eagain) b' = Inr (b', m, [])" ..
  have "buf_send (\<lambda>t. Write_n (min k (length t))) b = Inr (b', int ?n, take k (buf_contents b))"
    using False n ok buf_readable_0_iff [OF ok]
    by (simp add: buf_send_def c buf_write_fd_def buf_read_ptr_contents b'_def tk)
  then have "buf_send_all (client_takes k) b = Inr (b', m, take k (buf_contents b))"
    using False n(2) m by (simp add: client_takes_def)
  then show ?thesis using that [of b'] b' by (simp add: tk)
qed

lemma write_error_keeps:
  assumes "response_write_error b status ka = Inr b'" "buf_ok b" "INT_MIN \<le> status" "status \<le> INT_MAX"
  shows "buf_ok b'" "b_cap b' = b_cap b"
  using write_error_ok [OF assms(2-4), of ka] assms(1) by auto

section \<open>Changing the loop and closing connections\<close>

text \<open>\<^verbatim>\<open>malloc\<close> returns memory that is not in use.\<close>

definition handler_alloc_ok :: "handler_alloc \<Rightarrow> bool" where
  "handler_alloc_ok f \<longleftrightarrow> (\<forall>h a. f h = Some a \<longrightarrow> h a = None)"

lemma handler_alloc_fresh: "handler_alloc_ok f \<Longrightarrow> fresh_handler loop (f (el_heap loop))"
  by (simp add: handler_alloc_ok_def fresh_handler_def)

lemma ws_event_mod_ok:
  assumes "worker_ok ws" "handler_alloc_ok (fst a)" "0 \<le> fd"
  shows "\<exists>loop. ws_event_mod ws fd events fn p a = Inr (ws\<lparr>ws_loop := loop\<rparr>) \<and> worker_ok (ws\<lparr>ws_loop := loop\<rparr>)"
proof -
  have "loop_ok (ws_loop ws)" using assms(1) by (simp add: worker_ok_def)
  from loop_ctl_put [OF this handler_alloc_fresh [OF assms(2)] assms(3), of EPOLL_CTL_MOD events fn p "snd a"]
  obtain loop st where "event_loop_mod (ws_loop ws) fd events fn p (fst a (el_heap (ws_loop ws))) (snd a) = Inr (loop, st)"
    "loop_ok loop" by (auto simp: event_loop_mod_def)
  then show ?thesis using assms(1) by (auto simp: ws_event_mod_def worker_ok_def)
qed

lemma ws_event_mod_keeps:
  assumes "worker_ok ws" "handler_alloc_ok (fst a)" "ws_event_mod ws fd events fn p a = Inr ws'"
  obtains loop where "ws' = ws\<lparr>ws_loop := loop\<rparr>" "worker_ok (ws\<lparr>ws_loop := loop\<rparr>)"
proof (cases "0 \<le> fd")
  case True
  with ws_event_mod_ok [OF assms(1,2), of fd events fn p] assms(3) that show ?thesis by auto
next
  case False
  have "0 < el_max_fd (ws_loop ws)" using assms(1) by (simp add: worker_ok_def loop_ok_def)
  with False assms(3) show ?thesis by (simp add: ws_event_mod_def event_loop_mod_def loop_ctl_def)
qed

lemma conn_close_frame:
  assumes "conn_close loop c k1 k2 = Inr (loop', c', fds)"
  shows "\<exists>fd ufd ffd. c' = c\<lparr>cn_fd := fd, cn_upstream_fd := ufd, cn_file_fd := ffd, cn_state := CONN_CLOSING\<rparr>"
proof -
  from assms obtain l1 c1 f1 l2 c2 f2 where
    1: "c1 = c \<or> c1 = c\<lparr>cn_fd := -1\<rparr>" and 2: "c2 = c1 \<or> c2 = c1\<lparr>cn_upstream_fd := -1\<rparr>"
    and 3: "c' = c2\<lparr>cn_state := CONN_CLOSING\<rparr> \<or> c' = c2\<lparr>cn_file_fd := -1, cn_state := CONN_CLOSING\<rparr>"
    unfolding conn_close_def by (auto simp: mbind_Inr_iff Let_def split: if_splits prod.splits)
  show ?thesis
    by (rule exI [of _ "cn_fd c'"], rule exI [of _ "cn_upstream_fd c'"], rule exI [of _ "cn_file_fd c'"])
      (use 1 2 3 in auto)
qed

text \<open>Putting a connection back closes its descriptors and keeps the state well formed.\<close>

lemma ws_pool_put_ok:
  assumes ok: "worker_ok ws" and c: "ws_conns ws p = Some c"
  obtains ws' where "ws_pool_put ws p (True, True) = Inr ws'" "worker_ok ws'"
    "ws_trace ws' = ws_trace ws @ map Closed (filter (\<lambda>fd. 0 \<le> fd) [cn_fd c, cn_upstream_fd c, cn_file_fd c])"
    "ws_hctx ws' = ws_hctx ws" "ws_active_conns ws' = ws_active_conns ws"
    "\<And>q. q \<noteq> p \<Longrightarrow> ws_conns ws' q = ws_conns ws q"
    "registered (ws_loop ws') = registered (ws_loop ws) |` (- {cn_fd c, cn_upstream_fd c})"
    "ws_fs ws' = ws_fs ws"
proof -
  have lo: "loop_ok (ws_loop ws)" and wf: "conn_wf c" using ok conn_at_wf [OF ok c] by (simp_all add: worker_ok_def)
  from conn_close_ok [OF lo, of c] wf obtain loop' c' where
    cl: "conn_close (ws_loop ws) c True True = Inr (loop', c', filter (\<lambda>fd. 0 \<le> fd) [cn_fd c, cn_upstream_fd c, cn_file_fd c])"
      "loop_ok loop'" "registered loop' = registered (ws_loop ws) |` (- {cn_fd c, cn_upstream_fd c})" "conn_ok c'"
    unfolding conn_wf_def by blast
  have cc: "cache_copy_ok c'" using conn_close_frame [OF cl(1)] wf cache_copy_ok_cong [of c' c] by (auto simp: conn_wf_def)
  let ?c = "(conn_init_bufs (c'\<lparr>cn_arena := arena_reset (cn_arena c')\<rparr>))\<lparr>cn_next := cp_free_head (ws_pool ws)\<rparr>"
  have wf': "conn_wf ?c"
    using conn_init_bufs_ok [OF cl(4)] cc cache_copy_ok_cong [of ?c c'] by (simp add: conn_wf_def conn_ok_def conn_init_bufs_def)
  show ?thesis
  proof (cases "cp_max_free (ws_pool ws) \<le> cp_free_count (ws_pool ws)")
    case True
    show ?thesis
      by (rule that [of "emit (map Closed (filter (\<lambda>fd. 0 \<le> fd) [cn_fd c, cn_upstream_fd c, cn_file_fd c]))
          (ws\<lparr>ws_conns := (ws_conns ws)(p := None), ws_loop := loop'\<rparr>)"])
        (use True ok cl c in \<open>auto simp: ws_pool_put_def conn_pool_put_def worker_ok_def conns_wf_def emit_def\<close>)
  next
    case False
    show ?thesis
      by (rule that [of "emit (map Closed (filter (\<lambda>fd. 0 \<le> fd) [cn_fd c, cn_upstream_fd c, cn_file_fd c]))
          (ws\<lparr>ws_pool := (ws_pool ws)\<lparr>cp_free_head := Some p, cp_free_count := cp_free_count (ws_pool ws) + 1\<rparr>,
             ws_conns := (ws_conns ws)(p \<mapsto> ?c), ws_loop := loop'\<rparr>)"])
        (use False ok cl c wf' in \<open>auto simp: ws_pool_put_def conn_pool_put_def worker_ok_def conns_wf_def emit_def\<close>)
  qed
qed

lemma ws_pool_put_keeps:
  assumes "worker_ok ws" "ws_pool_put ws p (True, True) = Inr ws'"
  shows "worker_ok ws'"
proof (cases "ws_conns ws p")
  case None
  then show ?thesis using assms(2) by (simp add: ws_pool_put_def conn_pool_put_def)
next
  case (Some c)
  from ws_pool_put_ok [OF assms(1) this] assms(2) show ?thesis by auto
qed

lemma worker_conn_close_keeps: "worker_ok ws \<Longrightarrow> worker_conn_close ws p (True, True) = Inr ws' \<Longrightarrow> worker_ok ws'"
  unfolding worker_conn_close_def by (rule ws_pool_put_keeps [of "ws\<lparr>ws_active_conns := ws_active_conns ws - 1\<rparr>"]) simp_all

lemma client_event_mod_keeps:
  "worker_ok ws \<Longrightarrow> handler_alloc_ok (fst a) \<Longrightarrow> worker_client_event_mod ws p ev a = Inr ws' \<Longrightarrow> worker_ok ws'"
  unfolding worker_client_event_mod_def by (auto elim!: mbind_InrE elim: ws_event_mod_keeps)

lemma access_log_keeps: "ws_access_log le req st start ws = Inr ws' \<Longrightarrow> \<exists>es. ws' = emit es ws"
  by (auto simp: ws_access_log_def elim!: mbind_InrE)

section \<open>A worker to run the definitions on\<close>

definition demo_buf :: "usize \<Rightarrow> np_buf_t" where
  "demo_buf n = \<lparr>b_data = replicate (unat n) (CHR 0x00), b_cap = n, b_read_pos = 0, b_write_pos = 0\<rparr>"

definition demo_arena :: arena_t where
  "demo_arena = the (arena_create NP_ARENA_SIZE True (Some 4096))"

definition demo_conn :: "int \<Rightarrow> conn_t" where
  "demo_conn fd = (conn_zero demo_arena)\<lparr>cn_fd := fd, cn_upstream_fd := -1, cn_file_fd := -1,
     cn_rbuf := demo_buf NP_READ_BUF_SIZE, cn_wbuf := demo_buf NP_WRITE_BUF_SIZE,
     cn_upstream_rbuf := demo_buf NP_READ_BUF_SIZE, cn_upstream_wbuf := demo_buf NP_WRITE_BUF_SIZE\<rparr>"

lemma demo_buf_ok: "buf_ok (demo_buf n)" "b_cap (demo_buf n) = n" "buf_contents (demo_buf n) = []" "buf_room (demo_buf n) = unat n"
  by (simp_all add: demo_buf_def buf_ok_def buf_contents_def buf_room_def)

lemma demo_conn_ok: "conn_ok (demo_conn fd)" "conn_wf (demo_conn fd)"
proof -
  have "a_blocks demo_arena \<noteq> []" by (simp add: demo_arena_def arena_create_def block_create_def)
  then show "conn_ok (demo_conn fd)" by (simp add: demo_conn_def conn_ok_def buf_sized_def demo_buf_ok conn_zero_def)
  then show "conn_wf (demo_conn fd)" by (simp add: conn_wf_def cache_copy_ok_def demo_conn_def conn_zero_def)
qed

text \<open>A worker with one connection, at address 0, and one pool with one backend.\<close>

definition demo_upstream :: upstream_pool where
  "demo_upstream = \<lparr>up_backends = [\<lparr>ub_host = ''127.0.0.1'', ub_port = 9000, ub_active_conns = 1, ub_total_requests = 0,
     ub_error_count = 0, ub_healthy = True, ub_idle_fds = []\<rparr>], up_rr_index = 0, up_mode = BALANCE_ROUND_ROBIN, up_keepalive_conns = 16\<rparr>"

definition demo_worker :: "np_config_t \<Rightarrow> conn_t \<Rightarrow> worker_state_t" where
  "demo_worker cfg conn = \<lparr>ws_listeners = [], ws_loop = demo_loop,
     ws_tw = \<lparr>tw_buckets = replicate 512 None, tw_nbuckets = 512, tw_resolution = 1, tw_current = 0\<rparr>, ws_timers = Map.empty,
     ws_hctx = \<lparr>hc_config = cfg, hc_upstream_pools = replicate 16 (Some demo_upstream), hc_cache_stores = replicate 16 None,
       hc_rate_limiter = None, hc_metrics = None\<rparr>,
     ws_pool = demo_pool, ws_conns = [0 \<mapsto> conn], ws_running = 1, ws_active_conns = 1, ws_now = 0, ws_modules = [], ws_access_fd = 1,
     ws_fs = Map.empty, ws_trace = []\<rparr>"

lemma demo_worker_ok: "conn_wf conn \<Longrightarrow> c_servers cfg \<noteq> [] \<Longrightarrow> length (c_servers cfg) \<le> 16 \<Longrightarrow> worker_ok (demo_worker cfg conn)"
  by (simp add: worker_ok_def demo_worker_def conns_wf_def hctx_ok_def demo_loop_ok)

text \<open>An allocator with one address.\<close>

definition demo_alloc :: "nat \<Rightarrow> handler_alloc" where
  "demo_alloc a h = (if h a = None then Some a else None)"

lemma demo_alloc_ok: "handler_alloc_ok (demo_alloc a)"
  by (simp add: handler_alloc_ok_def demo_alloc_def)

definition demo_log_env :: log_env where
  "demo_log_env = \<lparr>le_stop = \<lparr>ts_sec = 5, ts_nsec = 9000\<rparr>, le_tsbuf = ''01/Jan/2025:00:00:00 +0000''\<rparr>"

end
