(* ===== verification/Proxy_Conn.thy ===== *)
theory Proxy_Conn
  imports Worker_State
begin

text \<open>
  The reverse proxy of \<^verbatim>\<open>src/src/proxy/proxy_conn.c\<close>: building the request for the backend, the
  callback that relays the backend's answer to the client and copies it for the cache, and the
  function that picks a backend and connects to it. Each function takes the state of the worker
  and the address of the connection; the answers of the kernel are in a record per function.

  The theorems say what the backend is sent, and when the text for it leaves the array on the
  stack. The relay and the callbacks are followed further in the theories that build on this one.
\<close>

section \<open>Model\<close>

definition send_error :: "conn_t \<Rightarrow> int \<Rightarrow> conn_t mem" where
  "send_error conn status =
     mbind (response_write_error (cn_wbuf conn) status False) (\<lambda>b.
       Inr (conn\<lparr>cn_wbuf := b, cn_state := CONN_WRITING_RESPONSE\<rparr>))"

text \<open>The texts of the calls of \<^verbatim>\<open>snprintf\<close>; a slice printed with \<^verbatim>\<open>%.*s\<close> ends at a NUL.\<close>

definition slice_text :: "string option \<Rightarrow> string" where
  "slice_text s = (case s of None \<Rightarrow> [] | Some t \<Rightarrow> cstr t)"

definition proxy_head :: "http_request_t \<Rightarrow> string" where
  "proxy_head req =
     http_method_str (req_method req) @ '' '' @ cstr (req_path req) @ '' HTTP/1.1'' @ CRLF @
     ''Host: '' @ slice_text (request_header req ''Host'') @ CRLF @
     ''X-Real-IP: '' @ req_remote_ip req @ CRLF @
     ''X-Forwarded-For: '' @ req_remote_ip req @ CRLF @
     ''Connection: '' @ (if req_upgrade req then ''Upgrade'' else ''keep-alive'') @ CRLF"

definition forwarded :: "http_header_t \<Rightarrow> bool" where
  "forwarded h \<longleftrightarrow> \<not> (str_ieq (hdr_name h) ''Host'' \<or> str_ieq (hdr_name h) ''Connection'')"

definition header_text :: "http_header_t \<Rightarrow> string" where
  "header_text h = cstr (hdr_name h) @ '': '' @ cstr (hdr_value h) @ CRLF"

definition proxy_texts :: "http_request_t \<Rightarrow> string list" where
  "proxy_texts req = proxy_head req # map header_text (filter forwarded (req_headers req)) @ [CRLF]"

text \<open>\<open>n\<close> bytes of the array that holds \<open>w\<close> and a NUL.\<close>

definition array_bytes :: "nat \<Rightarrow> string \<times> nat \<Rightarrow> string mem" where
  "array_bytes sz wn =
     (case wn of (w, n) \<Rightarrow>
        if n \<le> length w then Inr (take n w)
        else if n = sz \<and> length w + 1 = sz then Inr (w @ [CHR 0x00])
        else Inl Out_of_bounds)"

definition build_proxy_request :: "conn_t \<Rightarrow> http_request_t \<Rightarrow> conn_t mem" where
  "build_proxy_request conn req =
     mbind (snprintf_all NP_MAX_HEADER_LEN ([], 0) (proxy_texts req)) (\<lambda>(w, n).
     mbind (if of_nat n \<le> buf_writable (cn_upstream_wbuf conn)
            then mbind (array_bytes NP_MAX_HEADER_LEN (w, n)) (buf_memcpy (cn_upstream_wbuf conn))
            else Inr (cn_upstream_wbuf conn)) (\<lambda>b.
     mbind (if 0 < length (req_body req) then buf_try_memcpy b (req_body req) else Inr b) (\<lambda>b.
       Inr (conn\<lparr>cn_upstream_wbuf := b\<rparr>))))"

text \<open>
  \<^verbatim>\<open>atoi\<close> of bytes that no NUL ends: it reads up to the first byte after the digits, which must be
  in the block.
\<close>

definition atoi_mem :: "string \<Rightarrow> int mem" where
  "atoi_mem s =
     (let s1 = dropWhile isspace s;
          s2 = (case s1 of c # r \<Rightarrow> if c = CHR ''-'' \<or> c = CHR ''+'' then r else s1 | [] \<Rightarrow> [])
      in if dropWhile isdigit s2 = [] then Inl Out_of_bounds else Inr (atoi s))"

definition note_status :: "conn_t \<Rightarrow> conn_t mem" where
  "note_status conn =
     (if cn_proxy_status conn \<noteq> 0 then Inr conn
      else mbind (buf_read_ptr (cn_upstream_rbuf conn)) (\<lambda>p.
        if 12 \<le> length p \<and> take 4 p = ''HTTP'' then
          (case memchr (CHR '' '') p of
             None \<Rightarrow> Inr conn
           | Some sp \<Rightarrow>
               if sp + 4 \<le> length p then
                 mbind (atoi_mem (drop (unat (b_read_pos (cn_upstream_rbuf conn)) + sp + 1) (b_data (cn_upstream_rbuf conn))))
                   (\<lambda>n. Inr (conn\<lparr>cn_proxy_status := n\<rparr>))
               else Inr conn)
        else Inr conn))"

text \<open>\<open>mk\<close> is \<^verbatim>\<open>realloc\<close>: a block of the size asked for, of which the old bytes are kept.\<close>

definition grow_copy :: "(usize \<Rightarrow> string option) \<Rightarrow> usize \<Rightarrow> conn_t \<Rightarrow> conn_t" where
  "grow_copy mk needed conn =
     (if cn_cache_cap conn < needed then
        (let new_cap = (if needed * 2 < 8192 then 8192 else needed * 2);
             old = (case cn_cache_buf conn of None \<Rightarrow> [] | Some d \<Rightarrow> d)
         in case mk new_cap of
              None \<Rightarrow> conn
            | Some d \<Rightarrow> conn\<lparr>cn_cache_buf := Some (take (length d) old @ drop (length old) d), cn_cache_cap := new_cap\<rparr>)
      else conn)"

definition copy_for_cache :: "(usize \<Rightarrow> string option) \<Rightarrow> conn_t \<Rightarrow> conn_t mem" where
  "copy_for_cache mk conn =
     mbind (buf_read_ptr (cn_upstream_rbuf conn)) (\<lambda>p.
       let readable = of_nat (length p) in
       if cn_cache_store conn = None \<or> readable = 0 then Inr conn
       else
         (let conn = grow_copy mk (cn_cache_len conn + readable) conn
          in case cn_cache_buf conn of
               None \<Rightarrow> Inr conn
             | Some d \<Rightarrow>
                 if cn_cache_len conn + readable \<le> cn_cache_cap conn then
                   mbind (memcpy_at d (unat (cn_cache_len conn)) p) (\<lambda>d.
                     Inr (conn\<lparr>cn_cache_buf := Some d, cn_cache_len := cn_cache_len conn + readable\<rparr>))
                 else Inr conn))"

text \<open>
  One turn of the loop that reads from the backend: the answer to the read, the memory for the
  copy, the answers to the writes to the client.
\<close>

record relay_io =
  ri_read :: kernel_read
  ri_realloc :: "usize \<Rightarrow> string option"
  ri_writes :: "kernel_write list"

text \<open>The loop, with the last \<open>n\<close>, what was read and what the client was sent.\<close>

fun relay_loop :: "relay_io list \<Rightarrow> conn_t \<Rightarrow> (conn_t \<times> int \<times> string \<times> string) mem" where
  "relay_loop [] conn =
     mbind (buf_recv (\<lambda>_. Read_eagain) (cn_upstream_rbuf conn)) (\<lambda>(b, n, _).
       Inr (conn\<lparr>cn_upstream_rbuf := b\<rparr>, n, [], []))"
| "relay_loop (io # ios) conn =
     mbind (buf_recv (ri_read io) (cn_upstream_rbuf conn)) (\<lambda>(b, n, got).
       if 0 < n then
         mbind (note_status (conn\<lparr>cn_upstream_rbuf := b\<rparr>)) (\<lambda>conn.
         mbind (copy_for_cache (ri_realloc io) conn) (\<lambda>conn.
         mbind (buf_send_all (ri_writes io) (cn_upstream_rbuf conn)) (\<lambda>(b, _, out).
         mbind (relay_loop ios (conn\<lparr>cn_upstream_rbuf := b\<rparr>)) (\<lambda>(conn, n, got', out').
           Inr (conn, n, got @ got', out @ out')))))
       else Inr (conn\<lparr>cn_upstream_rbuf := b\<rparr>, n, got, []))"

text \<open>
  The answers to the other calls of \<^verbatim>\<open>proxy_on_upstream_event\<close>: the write to the backend, that of
  the error page, the changes of the loop, the file operations of \<^verbatim>\<open>cache_insert\<close> with the time and
  the padding of its header, and the clock of the log.
\<close>

record upstream_env =
  ue_flush :: kernel_write
  ue_error :: kernel_write
  ue_mod :: ctl_ans
  ue_relay :: "relay_io list"
  ue_client_mod :: ctl_ans
  ue_del :: bool
  ue_insert :: insert_io
  ue_pad :: string
  ue_time :: int
  ue_clock :: timespec
  ue_log :: log_env
  ue_put :: "bool \<times> bool"

text \<open>The branch for \<^verbatim>\<open>EV_WRITE\<close>; the boolean says whether the function has returned.\<close>

definition upstream_writable :: "upstream_env \<Rightarrow> int \<Rightarrow> nat \<Rightarrow> worker_state_t \<Rightarrow> (worker_state_t \<times> bool) mem" where
  "upstream_writable env fd p ws =
     mbind (conn_at ws p) (\<lambda>conn.
     mbind (buf_send (ue_flush env) (cn_upstream_wbuf conn)) (\<lambda>(b, n, out).
       let conn = conn\<lparr>cn_upstream_wbuf := b\<rparr>;
           ws = emit (sent fd out) (set_conn p conn ws)
       in if n < 0 \<and> n \<noteq> np_code NP_ERR_AGAIN then
            mbind (send_error conn 502) (\<lambda>conn.
            mbind (buf_send (ue_error env) (cn_wbuf conn)) (\<lambda>(b, _, out).
            mbind (worker_conn_close (emit (sent (cn_fd conn) out) (set_conn p (conn\<lparr>cn_wbuf := b\<rparr>) ws)) p (ue_put env)) (\<lambda>ws.
              Inr (ws, True))))
          else if buf_readable (cn_upstream_wbuf conn) = 0 then
            mbind (ws_event_mod ws fd (EV_READ OR EV_HUP OR EV_EDGE) Proxy_on_upstream_event p (ue_mod env)) (\<lambda>ws.
              Inr (ws, False))
          else Inr (ws, False)))"

text \<open>The block that hands the copy of the response to the cache.\<close>

definition store_copy :: "upstream_env \<Rightarrow> conn_t \<Rightarrow> worker_state_t \<Rightarrow> (conn_t \<times> worker_state_t) mem" where
  "store_copy env conn ws =
     (case (cn_cache_store conn, cn_cache_buf conn) of
        (Some i, Some d) \<Rightarrow>
          if 0 < cn_cache_len conn then
            (case hc_cache_stores (ws_hctx ws) ! i of
               None \<Rightarrow> Inl Out_of_bounds
             | Some store \<Rightarrow>
                 if length d < unat (cn_cache_len conn) then Inl Out_of_bounds
                 else
                   (let f = fst (cache_insert store (cn_cache_key conn) 200 (take (unat (cn_cache_len conn)) d) [] 10
                          (ue_pad env) (ws_fs ws) (ue_time env) (ue_insert env))
                    in Inr (conn\<lparr>cn_cache_buf := None, cn_cache_len := 0, cn_cache_cap := 0\<rparr>, ws\<lparr>ws_fs := f\<rparr>)))
          else Inr (conn, ws)
      | _ \<Rightarrow> Inr (conn, ws))"

text \<open>\<open>upstream_put_connection (pool, be, fd)\<close> on the pool the connection points to.\<close>

definition ws_put_upstream :: "conn_t \<Rightarrow> nat \<Rightarrow> int \<Rightarrow> worker_state_t \<Rightarrow> worker_state_t mem" where
  "ws_put_upstream conn be fd ws =
     (case cn_proxy_pool conn of
        None \<Rightarrow> Inl Out_of_bounds
      | Some i \<Rightarrow>
          (case hc_upstream_pools (ws_hctx ws) ! i of
             None \<Rightarrow> Inl Out_of_bounds
           | Some pool \<Rightarrow>
               (let (pool, closed) = upstream_put_connection pool (Some be) fd
                in Inr (emit (case closed of None \<Rightarrow> [] | Some x \<Rightarrow> [Closed x])
                     (ws\<lparr>ws_hctx := (ws_hctx ws)\<lparr>hc_upstream_pools := (hc_upstream_pools (ws_hctx ws))[i := Some pool]\<rparr>\<rparr>)))))"

text \<open>The end of the connection: with \<open>eof\<close> and a backend its descriptor goes back to the pool.\<close>

definition upstream_release_fd :: "upstream_env \<Rightarrow> int \<Rightarrow> nat \<Rightarrow> bool \<Rightarrow> conn_t \<Rightarrow> worker_state_t \<Rightarrow> worker_state_t mem" where
  "upstream_release_fd env fd p eof conn ws =
     (case (if eof then cn_tls_conn conn else None) of
        Some be \<Rightarrow>
          mbind (case cn_request conn of
                   None \<Rightarrow> Inr ws
                 | Some req \<Rightarrow> ws_access_log (ue_log env) req (cn_proxy_status conn) (ue_clock env) ws) (\<lambda>ws.
          mbind (ws_put_upstream conn be fd ws) (\<lambda>ws.
            worker_conn_close (set_conn p conn ws) p (ue_put env)))
      | None \<Rightarrow> worker_conn_close (emit [Closed fd] (set_conn p conn ws)) p (ue_put env))"

definition upstream_finished :: "upstream_env \<Rightarrow> int \<Rightarrow> nat \<Rightarrow> int \<Rightarrow> worker_state_t \<Rightarrow> worker_state_t mem" where
  "upstream_finished env fd p n ws =
     mbind (event_loop_del (ws_loop ws) fd (ue_del env)) (\<lambda>(loop, _).
     mbind (conn_at ws p) (\<lambda>conn.
       let conn = conn\<lparr>cn_upstream_fd := -1\<rparr>;
           ws = ws\<lparr>ws_loop := loop\<rparr>;
           eof = (n = np_code NP_ERR_CLOSED \<and> cn_state conn \<noteq> CONN_TUNNEL)
       in mbind (if eof then store_copy env conn ws else Inr (conn, ws)) (\<lambda>(conn, ws).
            upstream_release_fd env fd p eof conn ws)))"

definition upstream_readable :: "upstream_env \<Rightarrow> int \<Rightarrow> nat \<Rightarrow> worker_state_t \<Rightarrow> worker_state_t mem" where
  "upstream_readable env fd p ws =
     mbind (conn_at ws p) (\<lambda>conn.
     mbind (relay_loop (ue_relay env) conn) (\<lambda>(conn, n, _, out).
       let ws = emit (sent (cn_fd conn) out) (set_conn p conn ws)
       in mbind (if 0 < buf_readable (cn_upstream_rbuf conn)
                 then worker_client_event_mod ws p (EV_WRITE OR EV_READ OR EV_HUP OR EV_EDGE) (ue_client_mod env)
                 else Inr ws) (\<lambda>ws.
          if n = np_code NP_ERR_CLOSED \<or> n = np_code NP_ERR then upstream_finished env fd p n ws else Inr ws)))"

definition proxy_on_upstream_event ::
  "upstream_env \<Rightarrow> int \<Rightarrow> u32 \<Rightarrow> nat \<Rightarrow> worker_state_t \<Rightarrow> worker_state_t mem" where
  "proxy_on_upstream_event env fd events p ws =
     mbind (if events AND EV_WRITE \<noteq> 0 then upstream_writable env fd p ws else Inr (ws, False)) (\<lambda>(ws, returned).
       if \<not> returned \<and> events AND EV_READ \<noteq> 0 then upstream_readable env fd p ws else Inr ws)"

text \<open>The answers to \<^verbatim>\<open>socket\<close> and \<^verbatim>\<open>connect\<close>, and to the registration of the new descriptor.\<close>

record proxy_env =
  pe_socket :: int
  pe_connect :: "u32 \<times> u16 \<Rightarrow> connect_result"
  pe_add :: ctl_ans

text \<open>\<open>pi\<close> is the index of the pool; the metrics are those of the context.\<close>

definition set_upstream_pool :: "nat \<Rightarrow> upstream_pool \<Rightarrow> worker_state_t \<Rightarrow> worker_state_t" where
  "set_upstream_pool pi pool ws =
     ws\<lparr>ws_hctx := (ws_hctx ws)\<lparr>hc_upstream_pools := (hc_upstream_pools (ws_hctx ws))[pi := Some pool]\<rparr>\<rparr>"

definition upstream_error :: "int \<Rightarrow> nat \<Rightarrow> conn_t \<Rightarrow> http_request_t \<Rightarrow> worker_state_t \<Rightarrow> worker_state_t mem" where
  "upstream_error status p conn req ws =
     mbind (response_write_error (cn_wbuf conn) status (req_keep_alive req)) (\<lambda>b.
       Inr (set_conn p (conn\<lparr>cn_wbuf := b, cn_state := CONN_WRITING_RESPONSE\<rparr>)
         (ws\<lparr>ws_hctx := (ws_hctx ws)\<lparr>hc_metrics := metrics_inc_upstream_errors (hc_metrics (ws_hctx ws))\<rparr>\<rparr>)))"

definition proxy_handle ::
  "proxy_env \<Rightarrow> nat \<Rightarrow> nat \<Rightarrow> upstream_pool \<Rightarrow> http_request_t \<Rightarrow> worker_state_t \<Rightarrow> worker_state_t mem" where
  "proxy_handle env p pi pool req ws =
     mbind (conn_at ws p) (\<lambda>conn.
       let conn = conn\<lparr>cn_proxy_pool := Some pi\<rparr>;
           (pool, be) = upstream_select pool
       in case be of
            None \<Rightarrow> upstream_error 503 p conn req (set_upstream_pool pi pool ws)
          | Some i \<Rightarrow>
              (let b = up_backends pool ! i;
                   (st, c, closed) = socket_connect_nonblock (ub_host b) (ub_port b) (pe_socket env) (pe_connect env);
                   idle = (0 < length (ub_idle_fds b));
                   (pool, ufd) = upstream_get_connection pool i c;
                   ws = emit (if idle then [] else map Closed closed) ws
               in case ufd of
                    None \<Rightarrow>
                      upstream_error 502 p conn req (set_upstream_pool pi (upstream_release pool (Some i) True) ws)
                  | Some u \<Rightarrow>
                      (let conn = fst (conn_set_upstream (conn\<lparr>cn_tls_conn := Some i\<rparr>) u)
                       in mbind (build_proxy_request conn req) (\<lambda>conn.
                            let conn = conn\<lparr>cn_state := if req_upgrade req then CONN_TUNNEL else CONN_PROXYING\<rparr>;
                                ws = set_conn p conn (set_upstream_pool pi pool ws)
                            in mbind (event_loop_add (ws_loop ws) u (EV_WRITE OR EV_READ OR EV_HUP OR EV_EDGE)
                                 Proxy_on_upstream_event p (fst (pe_add env) (el_heap (ws_loop ws))) (snd (pe_add env))) (\<lambda>(loop, _).
                                 Inr (ws\<lparr>ws_loop := loop\<rparr>))))))"

section \<open>The request for the backend\<close>

lemma snprintf_all_result:
  assumes "snprintf_all sz (w, n) ss = Inr (w', n')" "length w \<le> min n (sz - 1)"
  shows "n' = n + length (concat ss) \<and> length w' \<le> min n' (sz - 1)"
  using assms
proof (induction ss arbitrary: w n)
  case (Cons s ss)
  then have "n \<le> sz" and 1: "snprintf_all sz (w @ take (sz - 1 - n) s, n + length s) ss = Inr (w', n')"
    by (auto simp: snprintf_at_def split: if_splits)
  then have "length (w @ take (sz - 1 - n) s) \<le> min (n + length s) (sz - 1)"
    using Cons.prems(2) by auto
  from Cons.IH [OF 1 this] show ?case by simp
qed simp

lemma snprintf_all_no_div: "snprintf_all sz wn ss \<noteq> Inl Divide_by_zero"
proof (induction ss arbitrary: wn)
  case (Cons s ss)
  then show ?case by (cases wn) (simp add: snprintf_at_def)
qed simp

text \<open>The lines that the proxy writes itself, as headers.\<close>

definition proxy_headers :: "http_request_t \<Rightarrow> http_header_t list" where
  "proxy_headers req =
     [\<lparr>hdr_name = ''Host'', hdr_value = slice_text (request_header req ''Host'')\<rparr>,
      \<lparr>hdr_name = ''X-Real-IP'', hdr_value = req_remote_ip req\<rparr>,
      \<lparr>hdr_name = ''X-Forwarded-For'', hdr_value = req_remote_ip req\<rparr>,
      \<lparr>hdr_name = ''Connection'', hdr_value = if req_upgrade req then ''Upgrade'' else ''keep-alive''\<rparr>]"

definition sent_headers :: "http_request_t \<Rightarrow> http_header_t list" where
  "sent_headers req = proxy_headers req @ filter forwarded (req_headers req)"

definition header_no_nul :: "http_header_t \<Rightarrow> bool" where
  "header_no_nul h \<longleftrightarrow> CHR 0x00 \<notin> set (hdr_name h) \<and> CHR 0x00 \<notin> set (hdr_value h)"

lemma header_text_render: "header_no_nul h \<Longrightarrow> header_text h = render_header h"
  by (simp add: header_no_nul_def header_text_def render_header_def cstr_ident)

lemma proxy_texts_render:
  assumes "CHR 0x00 \<notin> set (req_path req)" "list_all header_no_nul (req_headers req)"
  shows "concat (proxy_texts req) = render_line (req_method req) (req_path req) HTTP_11 @ render_headers (sent_headers req) @ CRLF"
proof -
  have eq: "map header_text (filter forwarded (req_headers req)) = map render_header (filter forwarded (req_headers req))"
    using assms(2) by (auto simp: list_all_iff header_text_render)
  show ?thesis
    by (simp add: proxy_texts_def eq proxy_head_def sent_headers_def proxy_headers_def render_headers_def
        render_header_def [of "http_header_t.make _ _"] http_header_t.make_def)
      (simp add: render_header_def render_line_def version_str_def cstr_ident [OF assms(1)])
qed

lemma build_proxy_request_fits:
  assumes ok: "conn_ok conn" and len: "length (concat (proxy_texts req)) < NP_MAX_HEADER_LEN"
    and room: "length (concat (proxy_texts req)) + length (req_body req) \<le> buf_room (cn_upstream_wbuf conn)"
  shows "\<exists>b. build_proxy_request conn req = Inr (conn\<lparr>cn_upstream_wbuf := b\<rparr>) \<and> conn_ok (conn\<lparr>cn_upstream_wbuf := b\<rparr>) \<and>
     buf_contents b = buf_contents (cn_upstream_wbuf conn) @ concat (proxy_texts req) @ req_body req"
proof -
  let ?s = "concat (proxy_texts req)" and ?u = "cn_upstream_wbuf conn"
  have u: "buf_ok ?u" "b_cap ?u = NP_WRITE_BUF_SIZE" using ok by (simp_all add: conn_ok_def buf_sized_def)
  have fmt: "snprintf_all NP_MAX_HEADER_LEN ([], 0) (proxy_texts req) = Inr (?s, length ?s)"
    using len by (subst snprintf_all_fits) simp_all
  have big: "buf_room ?u < 2 ^ 64" by (simp add: buf_room_def u(2))
  have wr: "(of_nat (length ?s) :: usize) \<le> buf_writable ?u"
    using room by (intro of_nat_le_usize) (simp add: unat_buf_writable [OF u(1)])
  obtain b1 where b1: "buf_memcpy ?u ?s = Inr b1" "buf_ok b1" "buf_contents b1 = buf_contents ?u @ ?s"
    "buf_room b1 = buf_room ?u - length ?s" "b_cap b1 = b_cap ?u"
    using buf_memcpy_fits [OF u(1), of ?s] room by auto
  have "length (req_body req) < 2 ^ 64" using room big by linarith
  note body = buf_try_memcpy_eq [OF b1(2) this]
  have "length (req_body req) \<le> buf_room b1" using room b1(4) by simp
  from buf_memcpy_fits [OF b1(2) this] obtain b2 where b2: "buf_memcpy b1 (req_body req) = Inr b2" "buf_ok b2" "buf_contents b2 = buf_contents b1 @ req_body req"
    "b_cap b2 = b_cap b1" by blast
  let ?b = "if 0 < length (req_body req) then b2 else b1"
  have "build_proxy_request conn req = Inr (conn\<lparr>cn_upstream_wbuf := ?b\<rparr>)"
    using fmt wr b1(1,4) b2(1) body room by (simp add: build_proxy_request_def array_bytes_def)
  then show ?thesis
    using ok u b1 b2 by (intro exI [of _ ?b]) (auto simp: conn_ok_def buf_sized_def)
qed

text \<open>The array on the stack is overrun when the text is longer and would fit the buffer.\<close>

lemma build_proxy_request_overflow:
  assumes "buf_ok (cn_upstream_wbuf conn)" "NP_MAX_HEADER_LEN < length (concat (proxy_texts req))"
    "length (concat (proxy_texts req)) \<le> buf_room (cn_upstream_wbuf conn)"
  shows "build_proxy_request conn req = Inl Out_of_bounds"
proof (cases "snprintf_all NP_MAX_HEADER_LEN ([], 0) (proxy_texts req)")
  case (Inl e)
  then show ?thesis
    using snprintf_all_no_div [of NP_MAX_HEADER_LEN "([], 0)" "proxy_texts req"]
    by (cases e) (simp_all add: build_proxy_request_def)
next
  case (Inr wn)
  obtain w n where wn: "wn = (w, n)" by (cases wn)
  have n: "n = length (concat (proxy_texts req))" "length w \<le> NP_MAX_HEADER_LEN - 1"
    using snprintf_all_result [OF Inr [unfolded wn]] by simp_all
  have "(of_nat n :: usize) \<le> buf_writable (cn_upstream_wbuf conn)"
    using assms(1,3) n(1) by (intro of_nat_le_usize) (simp add: unat_buf_writable)
  then show ?thesis using Inr wn n assms(2) by (auto simp: build_proxy_request_def array_bytes_def)
qed

text \<open>The headers that say where the body ends are passed on as they are.\<close>

lemma named_sent:
  assumes "n = ''Content-Length'' \<or> n = ''Transfer-Encoding''"
  shows "named n (sent_headers req) = named n (req_headers req)"
proof -
  have "str_ieq (hdr_name h) n \<Longrightarrow> forwarded h" for h
    using assms by (auto simp: forwarded_def dest!: str_ieq_length)
  then have "filter (\<lambda>h. str_ieq (hdr_name h) n) (filter forwarded (req_headers req)) = filter (\<lambda>h. str_ieq (hdr_name h) n) (req_headers req)"
    by (auto intro: filter_cong)
  moreover have "filter (\<lambda>h. str_ieq (hdr_name h) n) (proxy_headers req) = []"
    using assms by (auto simp: proxy_headers_def dest!: str_ieq_length)
  ultimately show ?thesis by (simp add: named_def sent_headers_def)
qed

lemma content_length_sent: "content_length_of v (sent_headers req) = content_length_of v (req_headers req)"
  by (simp add: content_length_of_def is_chunked_def named_sent)

lemma str_trim_no_space:
  assumes "\<forall>c \<in> set s. \<not> isspace c"
  shows "str_trim s = s"
proof -
  have "dropWhile isspace t = t" if "\<forall>c \<in> set t. \<not> isspace c" for t using that by (cases t) auto
  from this [of s] this [of "rev s"] assms show ?thesis by (simp add: str_trim_def str_trim_left_eq str_trim_right_eq)
qed

lemma inet_ntop_chars: "c \<in> set (inet_ntop a) \<Longrightarrow> isdigit c \<or> c = CHR ''.''"
proof -
  have "c \<in> set (dec_nat n) \<Longrightarrow> isdigit c" for n using dec_nat_digits [of n] by (simp add: list_all_iff)
  then show "c \<in> set (inet_ntop a) \<Longrightarrow> isdigit c \<or> c = CHR ''.''" by (auto simp: inet_ntop_def)
qed

lemma inet_ntop_wf: "CHR 0x0D \<notin> set (inet_ntop a)" "str_trim (inet_ntop a) = inet_ntop a"
proof -
  show "CHR 0x0D \<notin> set (inet_ntop a)" using inet_ntop_chars [of "CHR 0x0D" a] by (auto simp: isdigit_def)
  have "\<not> isspace c" if "c \<in> set (inet_ntop a)" for c
    using inet_ntop_chars [OF that] isdigit_not_space by (auto simp: isspace_def)
  then show "str_trim (inet_ntop a) = inet_ntop a" by (intro str_trim_no_space) simp
qed

lemma header_loop_mem: "header_loop hs n = Some v \<Longrightarrow> \<exists>h \<in> set hs. v = hdr_value h"
  by (induction hs) (auto split: if_splits)

lemma sent_headers_wf:
  assumes "list_all wf_header (req_headers req)" "list_all header_no_nul (req_headers req)" "req_remote_ip req = inet_ntop a"
  shows "list_all wf_header (sent_headers req)"
proof -
  have host: "CHR 0x0D \<notin> set (slice_text (request_header req ''Host''))"
    "str_trim (slice_text (request_header req ''Host'')) = slice_text (request_header req ''Host'')"
  proof -
    have "CHR 0x0D \<notin> set (slice_text (request_header req ''Host'')) \<and>
        str_trim (slice_text (request_header req ''Host'')) = slice_text (request_header req ''Host'')"
    proof (cases "request_header req ''Host''")
      case None
      then show ?thesis by (simp add: slice_text_def str_trim_no_space)
    next
      case (Some v)
      then obtain h where "h \<in> set (req_headers req)" "v = hdr_value h"
        by (auto simp: request_header_def dest: header_loop_mem)
      then show ?thesis
        using assms(1,2) by (auto simp: Some slice_text_def list_all_iff wf_header_def header_no_nul_def cstr_ident)
    qed
    then show "CHR 0x0D \<notin> set (slice_text (request_header req ''Host''))"
      "str_trim (slice_text (request_header req ''Host'')) = slice_text (request_header req ''Host'')" by auto
  qed
  have "str_trim t = t" if "t \<in> {''Host'', ''X-Real-IP'', ''X-Forwarded-For'', ''Connection'', ''Upgrade'', ''keep-alive''}" for t
    using that by (intro str_trim_no_space) (auto simp: isspace_def)
  then show ?thesis
    using assms host inet_ntop_wf [of a] by (auto simp: sent_headers_def proxy_headers_def wf_header_def list_all_iff)
qed

text \<open>
  C4: A well-formed request that fits the array of 8192 bytes reaches the backend intact: what is
  appended for the backend, followed by anything, is parsed back (by the parser of this server) as
  one complete request with the same method, path and body, whose headers are the proxy's own
  followed by the client's, of which only Host and Connection are replaced; the parse ends exactly
  where the message does, so no request can be smuggled behind it.
\<close>

theorem proxy_request_roundtrip:
  assumes "conn_ok conn" and uri: "wf_uri (req_path req)" "CHR 0x00 \<notin> set (req_path req)"
    and hs: "list_all wf_header (req_headers req)" "list_all header_no_nul (req_headers req)"
      "length (req_headers req) \<le> 60" and ip: "req_remote_ip req = inet_ntop a"
    and len: "length (concat (proxy_texts req)) < NP_MAX_HEADER_LEN"
      "length (concat (proxy_texts req)) + length (req_body req) \<le> buf_room (cn_upstream_wbuf conn)"
    and body: "length (req_body req) = nat (content_length_of HTTP_11 (req_headers req))"
  shows "\<exists>b msg s. build_proxy_request conn req = Inr (conn\<lparr>cn_upstream_wbuf := b\<rparr>) \<and>
     buf_contents b = buf_contents (cn_upstream_wbuf conn) @ msg \<and>
     http_parse_request http_parse_state_init (msg @ rest) = (PARSE_DONE, s) \<and>
     parsed_as s (req_method req) (req_path req) HTTP_11 (sent_headers req) \<and>
     drop (ps_body_offset s) msg = req_body req \<and> ps_parsed_bytes s = length msg"
proof -
  let ?h = "render_line (req_method req) (req_path req) HTTP_11 @ render_headers (sent_headers req) @ CRLF"
  have n: "length (sent_headers req) \<le> NP_MAX_HEADERS"
    using hs(3) le_trans [OF length_filter_le hs(3), of forwarded] by (simp add: sent_headers_def proxy_headers_def)
  have bl: "length (req_body req) = nat (content_length_of HTTP_11 (sent_headers req))"
    using body by (simp add: content_length_sent)
  obtain s where s: "http_parse_request http_parse_state_init (?h @ req_body req @ rest) = (PARSE_DONE, s)"
    "parsed_as s (req_method req) (req_path req) HTTP_11 (sent_headers req)"
    "ps_body_offset s = length ?h" "ps_parsed_bytes s = length ?h + length (req_body req)"
    by (rule parse_wire [OF uri(1) _ sent_headers_wf [OF hs(1,2) ip] n bl]) auto
  obtain b where b: "build_proxy_request conn req = Inr (conn\<lparr>cn_upstream_wbuf := b\<rparr>)"
    "buf_contents b = buf_contents (cn_upstream_wbuf conn) @ concat (proxy_texts req) @ req_body req"
    using build_proxy_request_fits [OF assms(1) len] by blast
  have t: "concat (proxy_texts req) = ?h" by (rule proxy_texts_render [OF uri(2) hs(2)])
  show ?thesis
    by (rule exI [of _ b], rule exI [of _ "?h @ req_body req"], rule exI [of _ s]) (use b s t in simp)
qed

definition demo_post :: http_request_t where
  "demo_post = request_zero\<lparr>req_method := HTTP_METHOD_POST, req_path := ''/x'', req_version := HTTP_11, req_headers := example_headers,
     req_body := ''hi'', req_remote_ip := inet_ntop 0x0A000001\<rparr>"

theorem proxy_request_roundtrip_witness:
  "\<exists>b msg s. build_proxy_request (demo_conn 5) demo_post = Inr ((demo_conn 5)\<lparr>cn_upstream_wbuf := b\<rparr>) \<and> buf_contents b = msg \<and>
     http_parse_request http_parse_state_init (msg @ ''GET'') = (PARSE_DONE, s) \<and> ps_method s = HTTP_METHOD_POST \<and>
     drop (ps_body_offset s) msg = ''hi'' \<and> ps_parsed_bytes s = length msg"
proof -
  have fw: "filter forwarded example_headers = [\<lparr>hdr_name = ''content-length'', hdr_value = ''2''\<rparr>]"
    by (simp add: forwarded_def str_ieq_def)
  have "request_header demo_post ''Host'' = Some ''a''" by (simp add: request_header_def demo_post_def)
  then have t: "length (concat (proxy_texts demo_post)) < 1024"
    using length_inet_ntop [of "0x0A000001"]
    by (simp add: proxy_texts_def proxy_head_def fw header_text_def slice_text_def cstr_def demo_post_def)
  have up: "cn_upstream_wbuf (demo_conn 5) = demo_buf NP_WRITE_BUF_SIZE" by (simp add: demo_conn_def)
  have b: "length (req_body demo_post) = 2" by (simp add: demo_post_def)
  have "\<exists>b msg s. build_proxy_request (demo_conn 5) demo_post = Inr ((demo_conn 5)\<lparr>cn_upstream_wbuf := b\<rparr>) \<and>
     buf_contents b = buf_contents (cn_upstream_wbuf (demo_conn 5)) @ msg \<and>
     http_parse_request http_parse_state_init (msg @ ''GET'') = (PARSE_DONE, s) \<and>
     parsed_as s (req_method demo_post) (req_path demo_post) HTTP_11 (sent_headers demo_post) \<and>
     drop (ps_body_offset s) msg = req_body demo_post \<and> ps_parsed_bytes s = length msg"
  proof (rule proxy_request_roundtrip [where a = "0x0A000001"])
    show "length (concat (proxy_texts demo_post)) + length (req_body demo_post) \<le> buf_room (cn_upstream_wbuf (demo_conn 5))"
      using t by (simp add: up demo_buf_ok b)
    show "length (req_body demo_post) = nat (content_length_of HTTP_11 (req_headers demo_post))"
      by (simp add: parser_eval demo_post_def)
  qed (use t in \<open>simp_all add: demo_conn_ok demo_post_def parser_eval header_no_nul_def\<close>)
  then show ?thesis by (auto simp: up demo_buf_ok demo_post_def parsed_as_def)
qed

text \<open>
  A request whose head is longer than the array of 8192 bytes on the stack makes the proxy
  access memory outside it, whatever its headers are, as long as the text would fit the buffer of
  131072 bytes; the read buffer lets a client send a head of 65536 bytes.
\<close>

theorem proxy_request_overflow:
  assumes "conn_ok conn" "buf_contents (cn_upstream_wbuf conn) = []" "b_read_pos (cn_upstream_wbuf conn) = 0"
    and "NP_MAX_HEADER_LEN < length (concat (proxy_texts req))" "length (concat (proxy_texts req)) \<le> 131072"
  shows "build_proxy_request conn req = Inl Out_of_bounds"
proof (rule build_proxy_request_overflow [OF _ assms(4)])
  show ok: "buf_ok (cn_upstream_wbuf conn)" using assms(1) by (simp add: conn_ok_def buf_sized_def)
  have "unat (b_write_pos (cn_upstream_wbuf conn)) = 0" using assms(2,3) length_buf_contents [OF ok] by simp
  then show "length (concat (proxy_texts req)) \<le> buf_room (cn_upstream_wbuf conn)"
    using assms(1,5) by (simp add: buf_room_def conn_ok_def buf_sized_def)
qed

theorem proxy_request_overflow_witness:
  "build_proxy_request (demo_conn 5) (request_zero\<lparr>req_path := replicate 9000 (CHR ''a'')\<rparr>) = Inl Out_of_bounds"
proof (rule proxy_request_overflow)
  have c: "cstr (replicate 9000 (CHR ''a'')) = replicate 9000 (CHR ''a'')" by (simp add: np_clib)
  show "8192 < length (concat (proxy_texts (request_zero\<lparr>req_path := replicate 9000 (CHR ''a'')\<rparr>)))"
    "length (concat (proxy_texts (request_zero\<lparr>req_path := replicate 9000 (CHR ''a'')\<rparr>))) \<le> 131072"
    by (simp_all add: proxy_texts_def proxy_head_def c slice_text_def request_header_def request_zero_def)
qed (simp_all add: demo_conn_ok, simp_all add: demo_conn_def demo_buf_ok, simp add: demo_buf_def)

end
