(* ===== verification/Proxy_Relay.thy ===== *)
theory Proxy_Relay
  imports Proxy_Conn
begin

text \<open>
  The loop of \<^verbatim>\<open>proxy_on_upstream_event\<close> that relays the answer of a backend to the client. It is
  shown to be a queue of bytes, and the copy it makes for the cache is compared with a reference
  function of what is read and what the client takes.
\<close>

section \<open>The relay\<close>

text \<open>The members of a connection that the relay may change.\<close>

definition relay_rest :: "conn_t \<Rightarrow> conn_t" where
  "relay_rest c = c\<lparr>cn_upstream_rbuf := buf_zero, cn_proxy_status := 0, cn_cache_buf := None, cn_cache_len := 0, cn_cache_cap := 0\<rparr>"

lemma relay_rest_fields:
  assumes "relay_rest c' = relay_rest c"
  shows "cn_fd c' = cn_fd c" "cn_upstream_fd c' = cn_upstream_fd c" "cn_file_fd c' = cn_file_fd c" "cn_state c' = cn_state c"
    "cn_cache_store c' = cn_cache_store c" "cn_cache_key c' = cn_cache_key c" "cn_tls_conn c' = cn_tls_conn c"
    "cn_proxy_pool c' = cn_proxy_pool c" "cn_request c' = cn_request c" "cn_rbuf c' = cn_rbuf c" "cn_wbuf c' = cn_wbuf c"
    "cn_upstream_wbuf c' = cn_upstream_wbuf c" "cn_arena c' = cn_arena c" "cn_keep_alive c' = cn_keep_alive c"
  using assms by (cases c; cases c'; simp add: relay_rest_def)+

lemma relay_rest_simps [simp]:
  "relay_rest (c\<lparr>cn_upstream_rbuf := b\<rparr>) = relay_rest c" "relay_rest (c\<lparr>cn_proxy_status := n\<rparr>) = relay_rest c"
  "relay_rest (c\<lparr>cn_cache_buf := d\<rparr>) = relay_rest c" "relay_rest (c\<lparr>cn_cache_len := l\<rparr>) = relay_rest c"
  "relay_rest (c\<lparr>cn_cache_cap := l\<rparr>) = relay_rest c"
  by (simp_all add: relay_rest_def)

lemma note_status_frame:
  assumes "note_status conn = Inr conn'"
  shows "\<exists>n. conn' = conn\<lparr>cn_proxy_status := n\<rparr>"
proof -
  have "conn' = conn \<or> (\<exists>n. conn' = conn\<lparr>cn_proxy_status := n\<rparr>)"
    using assms by (auto simp: note_status_def mbind_Inr_iff split: if_splits option.splits)
  moreover have "conn = conn\<lparr>cn_proxy_status := cn_proxy_status conn\<rparr>" by simp
  ultimately show ?thesis by blast
qed

text \<open>A block of memory has the size asked for, which is less than the address space.\<close>

definition realloc_ok :: "(usize \<Rightarrow> string option) \<Rightarrow> bool" where
  "realloc_ok mk \<longleftrightarrow> (\<forall>n d. mk n = Some d \<longrightarrow> length d = unat n \<and> unat n \<le> 2 ^ 62)"

text \<open>There is memory for every size up to \<open>n\<close>.\<close>

definition realloc_serves :: "(usize \<Rightarrow> string option) \<Rightarrow> nat \<Rightarrow> bool" where
  "realloc_serves mk n \<longleftrightarrow> (\<forall>m. unat m \<le> n \<longrightarrow> mk m \<noteq> None)"

lemma conn_ok_cache [simp]:
  "conn_ok (c\<lparr>cn_cache_buf := d\<rparr>) = conn_ok c" "conn_ok (c\<lparr>cn_cache_len := n\<rparr>) = conn_ok c"
  "conn_ok (c\<lparr>cn_cache_cap := n\<rparr>) = conn_ok c" "conn_ok (c\<lparr>cn_proxy_status := st\<rparr>) = conn_ok c"
  by (simp_all add: conn_ok_def)

text \<open>Making room keeps the copy; when there is memory the block is large enough.\<close>

lemma grow_copy_ok:
  assumes cc: "cache_copy_ok conn" and mk: "realloc_ok mk" and n: "unat needed \<le> 2 ^ 62 + 65536" "cn_cache_len conn \<le> needed" "0 < needed"
  shows "cache_copy_ok (grow_copy mk needed conn)" "cache_copy (grow_copy mk needed conn) = cache_copy conn"
    "relay_rest (grow_copy mk needed conn) = relay_rest conn" "cn_upstream_rbuf (grow_copy mk needed conn) = cn_upstream_rbuf conn"
    "cn_proxy_status (grow_copy mk needed conn) = cn_proxy_status conn" "conn_ok (grow_copy mk needed conn) = conn_ok conn"
    "cn_cache_len (grow_copy mk needed conn) = cn_cache_len conn"
    "realloc_serves mk (max 8192 (2 * unat needed)) \<Longrightarrow>
       needed \<le> cn_cache_cap (grow_copy mk needed conn) \<and> cn_cache_buf (grow_copy mk needed conn) \<noteq> None"
proof -
  define new :: usize where "new = (if needed * 2 < 8192 then 8192 else needed * 2)"
  define old where "old = (case cn_cache_buf conn of None \<Rightarrow> [] | Some d \<Rightarrow> d)"
  have "unat (needed * 2) = 2 * unat needed" using n(1) unat_mult_lem [of needed 2] by simp
  then have new: "unat new = max 8192 (2 * unat needed)" by (auto simp: new_def word_less_nat_alt)
  have old: "length old = unat (cn_cache_cap conn)" "unat (cn_cache_len conn) \<le> unat (cn_cache_cap conn)"
    "cache_copy conn = take (unat (cn_cache_len conn)) old" "cn_cache_buf conn = None \<Longrightarrow> cn_cache_cap conn = 0"
    using cc by (auto simp: cache_copy_ok_def old_def cache_copy_def word_le_nat_alt split: option.splits)
  let ?g = "grow_copy mk needed conn"
  have g: "?g = (if cn_cache_cap conn < needed then (case mk new of None \<Rightarrow> conn
      | Some d \<Rightarrow> conn\<lparr>cn_cache_buf := Some (take (length d) old @ drop (length old) d), cn_cache_cap := new\<rparr>) else conn)"
    unfolding grow_copy_def new_def old_def Let_def by (rule refl)
  show "relay_rest ?g = relay_rest conn" "cn_upstream_rbuf ?g = cn_upstream_rbuf conn" "cn_proxy_status ?g = cn_proxy_status conn"
    "conn_ok ?g = conn_ok conn" "cn_cache_len ?g = cn_cache_len conn"
    by (simp_all add: g split: option.splits)
  have grown: "cache_copy_ok ?g \<and> cache_copy ?g = cache_copy conn \<and> needed \<le> cn_cache_cap ?g \<and> cn_cache_buf ?g \<noteq> None"
    if "cn_cache_cap conn < needed" "mk new = Some d" for d
  proof -
    have d: "length d = unat new" "unat new \<le> 2 ^ 62" using mk that(2) by (auto simp: realloc_ok_def)
    have "length old \<le> length d" "needed \<le> new" using that(1) d new old(1) by (simp_all add: word_less_nat_alt word_le_nat_alt)
    moreover have "cn_cache_len conn \<le> new" using n(2) \<open>needed \<le> new\<close> by simp
    ultimately show ?thesis
      using that d old by (simp add: g cache_copy_ok_def cache_copy_def)
  qed
  show "cache_copy_ok ?g" "cache_copy ?g = cache_copy conn"
    using grown cc by (cases "cn_cache_cap conn < needed"; cases "mk new"; simp add: g)+
  show "needed \<le> cn_cache_cap ?g \<and> cn_cache_buf ?g \<noteq> None" if "realloc_serves mk (max 8192 (2 * unat needed))"
  proof (cases "cn_cache_cap conn < needed")
    case True
    moreover have "mk new \<noteq> None" using that new by (simp add: realloc_serves_def)
    ultimately show ?thesis using grown by auto
  next
    case False
    with old(4) n(3) show ?thesis by (cases "cn_cache_buf conn") (simp_all add: g)
  qed
qed

text \<open>One copy: all that is readable is appended, unless there is no memory or no cache.\<close>

lemma copy_for_cache_ok:
  assumes wf: "conn_wf conn" and mk: "realloc_ok mk"
  obtains conn' where "copy_for_cache mk conn = Inr conn'" "conn_wf conn'" "relay_rest conn' = relay_rest conn"
    "cn_upstream_rbuf conn' = cn_upstream_rbuf conn" "cn_proxy_status conn' = cn_proxy_status conn"
    "cache_copy conn' = cache_copy conn \<or> cache_copy conn' = cache_copy conn @ buf_contents (cn_upstream_rbuf conn)"
    "cn_cache_store conn \<noteq> None \<longrightarrow>
       realloc_serves mk (max 8192 (2 * length (cache_copy conn @ buf_contents (cn_upstream_rbuf conn)))) \<longrightarrow>
       cache_copy conn' = cache_copy conn @ buf_contents (cn_upstream_rbuf conn)"
proof -
  define b where "b = buf_contents (cn_upstream_rbuf conn)"
  define l where "l = cn_cache_len conn"
  have ok: "conn_ok conn" and cc: "cache_copy_ok conn" using wf by (simp_all add: conn_wf_def)
  then have ub: "buf_ok (cn_upstream_rbuf conn)" "b_cap (cn_upstream_rbuf conn) = NP_READ_BUF_SIZE"
    by (simp_all add: conn_ok_def buf_sized_def)
  have lb: "length b \<le> 65536" using buf_room_contents_le [OF ub(1)] by (simp add: b_def ub(2))
  have ll: "unat l \<le> 2 ^ 62" "length (cache_copy conn) = unat l"
    using cc by (auto simp: cache_copy_ok_def cache_copy_def l_def word_le_nat_alt split: option.splits)
  have rp: "buf_read_ptr (cn_upstream_rbuf conn) = Inr b" using buf_read_ptr_contents [OF ub(1)] by (simp add: b_def)
  have un: "unat (of_nat (length b) :: usize) = length b" using lb by (simp add: unat_of_nat_np)
  then have b0: "(of_nat (length b) :: usize) = 0 \<longleftrightarrow> b = []" by (metis length_0_conv unat_eq_zero)
  have unl: "unat (l + of_nat (length b)) = unat l + length b" using ll lb un by (simp add: unat_add_np)
  show ?thesis
  proof (cases "cn_cache_store conn = None \<or> b = []")
    case True
    then have "copy_for_cache mk conn = Inr conn" using rp b0 by (auto simp: copy_for_cache_def)
    then show ?thesis using that [of conn] wf True by (auto simp: b_def)
  next
    case False
    define g where "g = grow_copy mk (l + of_nat (length b)) conn"
    have pre: "unat (l + of_nat (length b)) \<le> 2 ^ 62 + 65536" "cn_cache_len conn \<le> l + of_nat (length b)" "0 < l + of_nat (length b)"
      using ll lb unl False by (simp_all add: word_le_nat_alt l_def word_less_nat_alt)
    note gr = grow_copy_ok [OF cc mk pre, folded g_def]
    have eq: "copy_for_cache mk conn = (case cn_cache_buf g of None \<Rightarrow> Inr g
        | Some d \<Rightarrow> if l + of_nat (length b) \<le> cn_cache_cap g
            then mbind (memcpy_at d (unat l) b) (\<lambda>d. Inr (g\<lparr>cn_cache_buf := Some d, cn_cache_len := l + of_nat (length b)\<rparr>)) else Inr g)"
      unfolding copy_for_cache_def rp mbind_simps Let_def l_def [symmetric] g_def [symmetric] gr(7) [folded l_def]
      using False b0 by (simp only: if_False simp_thms)
    show ?thesis
    proof (cases "\<exists>d. cn_cache_buf g = Some d \<and> l + of_nat (length b) \<le> cn_cache_cap g")
      case True
      then obtain d where d: "cn_cache_buf g = Some d" "l + of_nat (length b) \<le> cn_cache_cap g" by blast
      have dl: "length d = unat (cn_cache_cap g)" "unat (cn_cache_cap g) \<le> 2 ^ 62" "cache_copy g = take (unat l) d"
        using gr(1,7) d(1) by (simp_all add: cache_copy_ok_def cache_copy_def l_def)
      have le: "unat l + length b \<le> length d" using d(2) unl dl(1) by (simp add: word_le_nat_alt)
      let ?d = "take (unat l) d @ b @ drop (unat l + length b) d"
      let ?c = "g\<lparr>cn_cache_buf := Some ?d, cn_cache_len := l + of_nat (length b)\<rparr>"
      have "memcpy_at d (unat l) b = Inr ?d" using le by (simp add: memcpy_at_def)
      then have 1: "copy_for_cache mk conn = Inr ?c" using d by (simp add: eq)
      have 2: "conn_wf ?c" using ok gr(6) d(2) dl le by (simp add: conn_wf_def cache_copy_ok_def)
      have 3: "cache_copy ?c = cache_copy conn @ b" using gr(2) dl(3) le unl by (simp add: cache_copy_def)
      show ?thesis using that [OF 1 2] gr(3,4,5) 3 by (simp add: b_def)
    next
      case False
      then have 1: "copy_for_cache mk conn = Inr g" by (auto simp: eq split: option.splits)
      have 2: "conn_wf g" using ok gr(1,6) by (simp add: conn_wf_def)
      have no: "\<not> realloc_serves mk (max 8192 (2 * length (cache_copy conn @ b)))"
        using gr(8) False unl ll(2) by auto
      show ?thesis by (rule that [OF 1 2 gr(3,4,5)]) (use gr(2) no in \<open>simp_all add: b_def\<close>)
    qed
  qed
qed

text \<open>What the kernel and \<^verbatim>\<open>realloc\<close> promise for one turn.\<close>

definition relay_io_ok :: "relay_io \<Rightarrow> bool" where
  "relay_io_ok io \<longleftrightarrow> kernel_read_ok (ri_read io) \<and> realloc_ok (ri_realloc io) \<and> list_all kernel_write_ok (ri_writes io)"

lemma cache_copy_simps [simp]:
  "cache_copy (c\<lparr>cn_upstream_rbuf := b\<rparr>) = cache_copy c" "cache_copy (c\<lparr>cn_proxy_status := n\<rparr>) = cache_copy c"
  by (simp_all add: cache_copy_def cong: option.case_cong)

text \<open>
  One turn that has read something: the bytes are appended to the queue, a first part of it goes
  to the client, and the copy for the cache is extended by the whole queue or not at all.
\<close>

lemma relay_turn:
  assumes wf: "conn_wf conn" and io: "relay_io_ok io"
    and rd: "buf_recv (ri_read io) (cn_upstream_rbuf conn) = Inr (b, n, got)"
    and st: "note_status (conn\<lparr>cn_upstream_rbuf := b\<rparr>) = Inr c1"
  obtains c2 b2 k out where "copy_for_cache (ri_realloc io) c1 = Inr c2"
    "buf_send_all (ri_writes io) (cn_upstream_rbuf c2) = Inr (b2, k, out)"
    "conn_wf (c2\<lparr>cn_upstream_rbuf := b2\<rparr>)" "relay_rest c2 = relay_rest conn"
    "buf_contents (cn_upstream_rbuf conn) @ got = out @ buf_contents b2"
    "cn_proxy_status conn \<noteq> 0 \<longrightarrow> cn_proxy_status c2 \<noteq> 0"
    "cn_cache_store conn \<noteq> None \<longrightarrow>
      realloc_serves (ri_realloc io) (max 8192 (2 * length (cache_copy conn @ buf_contents (cn_upstream_rbuf conn) @ got))) \<longrightarrow>
      cache_copy c2 = cache_copy conn @ buf_contents (cn_upstream_rbuf conn) @ got"
    "buf_ok (cn_upstream_rbuf c2)" "buf_contents (cn_upstream_rbuf c2) = buf_contents (cn_upstream_rbuf conn) @ got"
proof -
  let ?u = "cn_upstream_rbuf conn"
  have k: "kernel_read_ok (ri_read io)" "realloc_ok (ri_realloc io)" "list_all kernel_write_ok (ri_writes io)"
    using io by (simp_all add: relay_io_ok_def)
  have u: "buf_ok ?u" using wf by (simp add: conn_wf_def conn_ok_def buf_sized_def)
  from buf_recv_ok [OF u k(1)] rd have b: "buf_ok b" "b_cap b = b_cap ?u" "buf_contents b = buf_contents ?u @ got" by auto
  obtain m where c1: "c1 = conn\<lparr>cn_upstream_rbuf := b, cn_proxy_status := m\<rparr>" using note_status_frame [OF st] by auto
  have m: "cn_proxy_status c1 = cn_proxy_status conn" if "cn_proxy_status conn \<noteq> 0"
  proof -
    have "conn\<lparr>cn_upstream_rbuf := b\<rparr> = c1" using st that by (simp add: note_status_def)
    then show ?thesis by (rule subst) simp
  qed
  have wf1: "conn_wf c1" by (simp add: c1 conn_wf_bufs(3) wf b)
  obtain c2 where c2: "copy_for_cache (ri_realloc io) c1 = Inr c2" "conn_wf c2" "relay_rest c2 = relay_rest c1"
    "cn_upstream_rbuf c2 = cn_upstream_rbuf c1" "cn_proxy_status c2 = cn_proxy_status c1"
    "cn_cache_store c1 \<noteq> None \<longrightarrow>
       realloc_serves (ri_realloc io) (max 8192 (2 * length (cache_copy c1 @ buf_contents (cn_upstream_rbuf c1)))) \<longrightarrow>
       cache_copy c2 = cache_copy c1 @ buf_contents (cn_upstream_rbuf c1)"
    by (rule copy_for_cache_ok [OF wf1 k(2)]) (rule that)
  have u2: "cn_upstream_rbuf c2 = b" by (simp add: c2(4) c1)
  obtain b2 k2 out where s: "buf_send_all (ri_writes io) b = Inr (b2, k2, out)" "buf_ok b2" "b_cap b2 = b_cap b"
    "buf_contents b = out @ buf_contents b2"
    using buf_send_all_ok [OF b(1) k(3)] by blast
  show ?thesis
  proof (rule that [OF c2(1)])
    show "buf_send_all (ri_writes io) (cn_upstream_rbuf c2) = Inr (b2, k2, out)" using s u2 by simp
    show "conn_wf (c2\<lparr>cn_upstream_rbuf := b2\<rparr>)" using c2(2) s u2 by (intro conn_wf_bufs(3)) simp_all
    show "relay_rest c2 = relay_rest conn" using c2(3) by (simp add: c1)
    show "buf_contents ?u @ got = out @ buf_contents b2" using b(3) s(4) by simp
    show "cn_proxy_status conn \<noteq> 0 \<longrightarrow> cn_proxy_status c2 \<noteq> 0" using c2(5) m by simp
    show "cn_cache_store conn \<noteq> None \<longrightarrow>
      realloc_serves (ri_realloc io) (max 8192 (2 * length (cache_copy conn @ buf_contents ?u @ got))) \<longrightarrow>
      cache_copy c2 = cache_copy conn @ buf_contents ?u @ got"
      using c2(6) b(3) by (simp add: c1)
    show "buf_ok (cn_upstream_rbuf c2)" "buf_contents (cn_upstream_rbuf c2) = buf_contents ?u @ got" using b u2 by simp_all
  qed
qed

lemma buf_recv_contents:
  assumes "buf_ok b" "kernel_read_ok k"
  obtains b' n s where "buf_recv k b = Inr (b', n, s)" "buf_ok b'" "b_cap b' = b_cap b" "buf_contents b' = buf_contents b @ s"
    "n \<le> 0 \<longrightarrow> s = []"
  using buf_recv_ok [OF assms] by blast

lemma note_status_total:
  assumes "buf_ok (cn_upstream_rbuf conn)"
  shows "(\<exists>c. note_status conn = Inr c) \<or> cn_proxy_status conn = 0 \<and> note_status conn = Inl Out_of_bounds"
  using buf_read_ptr_contents [OF assms] by (auto simp: note_status_def atoi_mem_def Let_def split: option.splits)

text \<open>The loop is a queue; only the scan for the status can leave the block.\<close>

lemma relay_loop_ok:
  assumes "conn_wf conn" "list_all relay_io_ok ios"
  shows "(\<exists>conn' n got out. relay_loop ios conn = Inr (conn', n, got, out) \<and> conn_wf conn' \<and>
      relay_rest conn' = relay_rest conn \<and>
      buf_contents (cn_upstream_rbuf conn) @ got = out @ buf_contents (cn_upstream_rbuf conn')) \<or>
    cn_proxy_status conn = 0 \<and> relay_loop ios conn = Inl Out_of_bounds"
  using assms
proof (induction ios arbitrary: conn)
  case Nil
  have u: "buf_ok (cn_upstream_rbuf conn)" using Nil(1) by (simp add: conn_wf_def conn_ok_def buf_sized_def)
  obtain b n s where b: "buf_recv (\<lambda>_. Read_eagain) (cn_upstream_rbuf conn) = Inr (b, n, s)" "buf_ok b"
    "b_cap b = b_cap (cn_upstream_rbuf conn)" "buf_contents b = buf_contents (cn_upstream_rbuf conn) @ s" "n \<le> 0 \<longrightarrow> s = []"
    by (rule buf_recv_contents [OF u, of "\<lambda>_. Read_eagain"]) (auto simp: kernel_read_ok_def)
  have "s = []" using b(1) by (auto simp: buf_recv_def mbind_Inr_iff)
  then show ?case using b conn_wf_bufs(3) [OF Nil(1) b(2,3)] by simp
next
  case (Cons io ios)
  let ?u = "cn_upstream_rbuf conn"
  have u: "buf_ok ?u" using Cons.prems(1) by (simp add: conn_wf_def conn_ok_def buf_sized_def)
  have io: "relay_io_ok io" and k: "kernel_read_ok (ri_read io)" using Cons.prems(2) by (simp_all add: relay_io_ok_def)
  obtain b n s where b: "buf_recv (ri_read io) ?u = Inr (b, n, s)" "buf_ok b"
    "b_cap b = b_cap ?u" "buf_contents b = buf_contents ?u @ s" "n \<le> 0 \<longrightarrow> s = []"
    by (rule buf_recv_contents [OF u k])
  note wfb = conn_wf_bufs(3) [OF Cons.prems(1) b(2,3)]
  show ?case
  proof (cases "0 < n")
    case False
    then show ?thesis using b wfb by simp
  next
    case True
    note ns = note_status_total [of "conn\<lparr>cn_upstream_rbuf := b\<rparr>"]
    show ?thesis
    proof (cases "note_status (conn\<lparr>cn_upstream_rbuf := b\<rparr>)")
      case (Inl e)
      then show ?thesis using ns b(1,2) True by auto
    next
      case (Inr c1)
      obtain c2 b2 k2 out where t: "copy_for_cache (ri_realloc io) c1 = Inr c2"
        "buf_send_all (ri_writes io) (cn_upstream_rbuf c2) = Inr (b2, k2, out)"
        "conn_wf (c2\<lparr>cn_upstream_rbuf := b2\<rparr>)" "relay_rest c2 = relay_rest conn"
        "buf_contents ?u @ s = out @ buf_contents b2" "cn_proxy_status conn \<noteq> 0 \<longrightarrow> cn_proxy_status c2 \<noteq> 0"
        by (rule relay_turn [OF Cons.prems(1) io b(1) Inr]) (rule that)
      have eq: "relay_loop (io # ios) conn =
          mbind (relay_loop ios (c2\<lparr>cn_upstream_rbuf := b2\<rparr>)) (\<lambda>(conn, n, got', out'). Inr (conn, n, s @ got', out @ out'))"
        using b(1) True Inr t(1,2) by simp
      have "list_all relay_io_ok ios" using Cons.prems(2) by simp
      from Cons.IH [OF t(3) this] show ?thesis
      proof (elim disjE exE conjE)
        fix conn' n' got' out'
        assume *: "relay_loop ios (c2\<lparr>cn_upstream_rbuf := b2\<rparr>) = Inr (conn', n', got', out')" "conn_wf conn'"
          "relay_rest conn' = relay_rest (c2\<lparr>cn_upstream_rbuf := b2\<rparr>)"
          "buf_contents (cn_upstream_rbuf (c2\<lparr>cn_upstream_rbuf := b2\<rparr>)) @ got' = out' @ buf_contents (cn_upstream_rbuf conn')"
        have "buf_contents ?u @ s @ got' = (out @ buf_contents b2) @ got'" by (simp flip: t(5))
        also have "\<dots> = (out @ out') @ buf_contents (cn_upstream_rbuf conn')" using *(4) by simp
        finally show ?thesis unfolding eq using *(1-3) t(4) by simp
      next
        assume "cn_proxy_status (c2\<lparr>cn_upstream_rbuf := b2\<rparr>) = 0" "relay_loop ios (c2\<lparr>cn_upstream_rbuf := b2\<rparr>) = Inl Out_of_bounds"
        then show ?thesis unfolding eq using t(6) by auto
      qed
    qed
  qed
qed

text \<open>
  C10: The relay is a queue of bytes: whatever the kernel answers, what the client was sent
  followed by what is still buffered is what was buffered before followed by what the backend
  sent, and no other member of the connection changes but the status and the copy for the cache.
  The only way to fail is the scan for the status of a first answer, which has no NUL to stop it
  and can run off the end of the block.
\<close>

theorem relay_fifo:
  assumes "conn_wf conn" "list_all relay_io_ok ios"
  shows "(\<exists>conn' n got out. relay_loop ios conn = Inr (conn', n, got, out) \<and> conn_wf conn' \<and>
      relay_rest conn' = relay_rest conn \<and>
      buf_contents (cn_upstream_rbuf conn) @ got = out @ buf_contents (cn_upstream_rbuf conn')) \<or>
    cn_proxy_status conn = 0 \<and> relay_loop ios conn = Inl Out_of_bounds"
  by (rule relay_loop_ok [OF assms])

text \<open>A turn in which the backend has \<open>s\<close> to say and the client takes \<open>k\<close> bytes.\<close>

definition turn_io :: "(usize \<Rightarrow> string option) \<Rightarrow> string \<times> nat \<Rightarrow> relay_io" where
  "turn_io mk t = \<lparr>ri_read = \<lambda>room. Read_data (take room (fst t)), ri_realloc = mk, ri_writes = client_takes (snd t)\<rparr>"

lemma turn_io_ok: "realloc_ok mk \<Longrightarrow> relay_io_ok (turn_io mk t)"
  by (simp add: relay_io_ok_def turn_io_def kernel_read_ok_def client_takes_ok)

definition demo_realloc :: "usize \<Rightarrow> string option" where
  "demo_realloc n = (if unat n \<le> 2 ^ 20 then Some (replicate (unat n) (CHR 0x00)) else None)"

lemma demo_realloc_ok: "realloc_ok demo_realloc" "n \<le> 2 ^ 20 \<Longrightarrow> realloc_serves demo_realloc n"
  by (auto simp: realloc_ok_def realloc_serves_def demo_realloc_def split: if_splits)

theorem relay_fifo_witness:
  "\<exists>conn' n got out. relay_loop [turn_io demo_realloc (''abc'', 2)] ((demo_conn 5)\<lparr>cn_proxy_status := 200\<rparr>) = Inr (conn', n, got, out) \<and>
     got = out @ buf_contents (cn_upstream_rbuf conn')"
proof -
  have "conn_wf ((demo_conn 5)\<lparr>cn_proxy_status := 200\<rparr>)" by (simp add: demo_conn_ok)
  from relay_fifo [OF this, of "[turn_io demo_realloc (''abc'', 2)]"] show ?thesis
    by (simp add: turn_io_ok demo_realloc_ok del: relay_loop.simps) (auto simp: demo_conn_def demo_buf_ok simp del: relay_loop.simps)
qed

section \<open>The copy for the cache\<close>

text \<open>
  What the cache is given, as a function of what each turn reads and how much the client takes: every turn copies the whole
  queue \<open>q\<close> again.
\<close>

fun copied :: "string \<Rightarrow> (string \<times> nat) list \<Rightarrow> string" where
  "copied q [] = []"
| "copied q ((s, k) # turns) = q @ s @ copied (drop k (q @ s)) turns"

text \<open>Every turn has something to read that fits the buffer.\<close>

fun turns_fit :: "string \<Rightarrow> (string \<times> nat) list \<Rightarrow> bool" where
  "turns_fit q [] = True"
| "turns_fit q ((s, k) # turns) = (s \<noteq> [] \<and> length q + length s \<le> 65536 \<and> turns_fit (drop k (q @ s)) turns)"

lemma realloc_serves_mono: "realloc_serves mk n \<Longrightarrow> m \<le> n \<Longrightarrow> realloc_serves mk m"
  by (auto simp: realloc_serves_def)

lemma relay_copies:
  assumes "conn_wf conn" "cn_cache_store conn \<noteq> None" "cn_proxy_status conn \<noteq> 0" "realloc_ok mk"
    "turns_fit (buf_contents (cn_upstream_rbuf conn)) turns"
    "realloc_serves mk (max 8192 (2 * length (cache_copy conn @ copied (buf_contents (cn_upstream_rbuf conn)) turns)))"
  shows "\<exists>conn' n out. relay_loop (map (turn_io mk) turns) conn = Inr (conn', n, concat (map fst turns), out) \<and>
     cache_copy conn' = cache_copy conn @ copied (buf_contents (cn_upstream_rbuf conn)) turns"
  using assms
proof (induction turns arbitrary: conn)
  case Nil
  have u: "buf_ok (cn_upstream_rbuf conn)" using Nil(1) by (simp add: conn_wf_buf_ok)
  obtain b n s where "buf_recv (\<lambda>_. Read_eagain) (cn_upstream_rbuf conn) = Inr (b, n, s)"
    by (rule buf_recv_contents [OF u, of "\<lambda>_. Read_eagain"]) (auto simp: kernel_read_ok_def)
  then show ?case by auto
next
  case (Cons t turns)
  obtain s k where t: "t = (s, k)" by (cases t)
  let ?q = "buf_contents (cn_upstream_rbuf conn)"
  have u: "buf_ok (cn_upstream_rbuf conn)" "b_cap (cn_upstream_rbuf conn) = NP_READ_BUF_SIZE"
    using Cons.prems(1) by (simp_all add: conn_wf_def conn_ok_def buf_sized_def)
  have s: "s \<noteq> []" "length ?q + length s \<le> unat (b_cap (cn_upstream_rbuf conn))" "turns_fit (drop k (?q @ s)) turns"
    using Cons.prems(5) by (simp_all add: t u(2))
  obtain b where b: "buf_recv (ri_read (turn_io mk t)) (cn_upstream_rbuf conn) = Inr (b, int (length s), s)"
    by (rule buf_recv_data [OF u(1) s(1,2)]) (simp add: turn_io_def t)
  have st: "note_status (conn\<lparr>cn_upstream_rbuf := b\<rparr>) = Inr (conn\<lparr>cn_upstream_rbuf := b\<rparr>)"
    using Cons.prems(3) by (simp add: note_status_def)
  obtain c2 b2 k2 out where t2: "copy_for_cache (ri_realloc (turn_io mk t)) (conn\<lparr>cn_upstream_rbuf := b\<rparr>) = Inr c2"
    "buf_send_all (ri_writes (turn_io mk t)) (cn_upstream_rbuf c2) = Inr (b2, k2, out)"
    "conn_wf (c2\<lparr>cn_upstream_rbuf := b2\<rparr>)" "relay_rest c2 = relay_rest conn"
    "?q @ s = out @ buf_contents b2" "cn_proxy_status conn \<noteq> 0 \<longrightarrow> cn_proxy_status c2 \<noteq> 0"
    "cn_cache_store conn \<noteq> None \<longrightarrow> realloc_serves (ri_realloc (turn_io mk t)) (max 8192 (2 * length (cache_copy conn @ ?q @ s))) \<longrightarrow>
      cache_copy c2 = cache_copy conn @ ?q @ s"
    "buf_ok (cn_upstream_rbuf c2)" "buf_contents (cn_upstream_rbuf c2) = ?q @ s"
    by (rule relay_turn [OF Cons.prems(1) turn_io_ok [OF Cons.prems(4)] b st]) (rule that)
  obtain b3 n3 where "buf_send_all (client_takes k) (cn_upstream_rbuf c2) = Inr (b3, n3, take k (?q @ s))" "buf_contents b3 = drop k (?q @ s)"
    using buf_send_client_takes [OF t2(8), of k] by (simp only: t2(9)) blast
  then have q2: "buf_contents b2 = drop k (?q @ s)" using t2(2) by (simp add: turn_io_def t)
  have cp: "cache_copy c2 = cache_copy conn @ ?q @ s"
    using t2(7) Cons.prems(2) realloc_serves_mono [OF Cons.prems(6)] by (simp add: turn_io_def t)
  define c3 where "c3 = c2\<lparr>cn_upstream_rbuf := b2\<rparr>"
  have c3: "buf_contents (cn_upstream_rbuf c3) = drop k (?q @ s)" "cache_copy c3 = cache_copy conn @ ?q @ s"
    "cn_cache_store c3 \<noteq> None" "cn_proxy_status c3 \<noteq> 0"
    using q2 cp relay_rest_fields(5) [OF t2(4)] Cons.prems(2,3) t2(6) by (simp_all add: c3_def)
  have "\<exists>conn' n out. relay_loop (map (turn_io mk) turns) c3 = Inr (conn', n, concat (map fst turns), out) \<and>
     cache_copy conn' = cache_copy c3 @ copied (buf_contents (cn_upstream_rbuf c3)) turns"
  proof (rule Cons.IH [OF _ c3(3,4) Cons.prems(4)])
    show "conn_wf c3" using t2(3) by (simp add: c3_def)
    show "turns_fit (buf_contents (cn_upstream_rbuf c3)) turns" using s(3) by (simp only: c3)
    show "realloc_serves mk (max 8192 (2 * length (cache_copy c3 @ copied (buf_contents (cn_upstream_rbuf c3)) turns)))"
      using Cons.prems(6) by (simp add: c3 t)
  qed
  moreover have "relay_loop (map (turn_io mk) (t # turns)) conn =
      mbind (relay_loop (map (turn_io mk) turns) c3) (\<lambda>(conn, n, got', out'). Inr (conn, n, s @ got', out @ out'))"
    using b st t2(1,2) s(1) by (simp add: c3_def)
  ultimately show ?case using c3(1,2) by (auto simp: t)
qed

text \<open>The copy is the response when the client takes every turn whole.\<close>

lemma copied_fast: "list_all (\<lambda>(s, k). length s \<le> k) turns \<Longrightarrow> copied [] turns = concat (map fst turns)"
  by (induction turns) auto

text \<open>
  C32: What the cache will be given of a response is the reference function \<open>copied\<close> of what the
  backend sends in each turn and what the client takes. For a client that takes everything at
  once it is the response. For one that does not it repeats what was still buffered, so that the
  entry in the cache is not the response and later clients are served the repetition.
\<close>

theorem relay_cache_copy:
  assumes "conn_wf conn" "cn_cache_store conn \<noteq> None" "cn_proxy_status conn \<noteq> 0" "realloc_ok mk"
    "buf_contents (cn_upstream_rbuf conn) = []" "turns_fit [] turns"
    "realloc_serves mk (max 8192 (2 * length (cache_copy conn @ copied [] turns)))"
  shows "\<exists>conn' n out. relay_loop (map (turn_io mk) turns) conn = Inr (conn', n, concat (map fst turns), out) \<and>
     cache_copy conn' = cache_copy conn @ copied [] turns \<and>
     (list_all (\<lambda>(s, k). length s \<le> k) turns \<longrightarrow> cache_copy conn' = cache_copy conn @ concat (map fst turns))"
  using relay_copies [OF assms(1-4), of turns] assms(5-7) copied_fast [of turns] by auto

theorem relay_cache_copy_witness:
  "\<exists>conn' n out. relay_loop (map (turn_io demo_realloc) [(''HTTP/1.1 '', 0), (''200 OK'', 64)])
      ((demo_conn 5)\<lparr>cn_proxy_status := 200, cn_cache_store := Some 0\<rparr>) = Inr (conn', n, ''HTTP/1.1 200 OK'', out) \<and>
     cache_copy conn' = ''HTTP/1.1 HTTP/1.1 200 OK''"
proof -
  let ?c = "(demo_conn 5)\<lparr>cn_proxy_status := 200, cn_cache_store := Some 0\<rparr>"
  have "cache_copy ?c = []" by (simp add: cache_copy_def demo_conn_def conn_zero_def)
  moreover have "buf_contents (cn_upstream_rbuf ?c) = []" by (simp add: demo_conn_def demo_buf_ok)
  ultimately show ?thesis
    using relay_cache_copy [of ?c demo_realloc "[(''HTTP/1.1 '', 0), (''200 OK'', 64)]"]
    by (simp add: demo_conn_ok demo_realloc_ok del: relay_loop.simps)
qed

end
