(* ===== verification/Proxy_Events.thy ===== *)
theory Proxy_Events
  imports Proxy_Relay
begin

text \<open>
  The callback and the entry point of the proxy on the whole state of the worker: both keep it
  well formed, and the end of an answer is followed to the last effect.
\<close>

section \<open>The state stays well formed\<close>

definition upstream_env_ok :: "upstream_env \<Rightarrow> bool" where
  "upstream_env_ok env \<longleftrightarrow> kernel_write_ok (ue_flush env) \<and> kernel_write_ok (ue_error env) \<and>
     handler_alloc_ok (fst (ue_mod env)) \<and> handler_alloc_ok (fst (ue_client_mod env)) \<and>
     list_all relay_io_ok (ue_relay env) \<and> ue_del env \<and> ue_put env = (True, True)"

lemma write_error_wf:
  assumes "response_write_error (cn_wbuf c) status ka = Inr b" "conn_wf c" "0 \<le> status" "status < 1000"
  shows "conn_wf (c\<lparr>cn_wbuf := b\<rparr>)"
  by (intro conn_wf_bufs(2) write_error_keeps [OF assms(1)] conn_wf_buf_ok assms(2)) (use assms(3,4) in simp_all)

lemma send_error_keeps: "send_error conn 502 = Inr conn' \<Longrightarrow> conn_wf conn \<Longrightarrow> conn_wf conn' \<and> cn_fd conn' = cn_fd conn"
  unfolding send_error_def by (elim mbind_InrE) (use write_error_wf [of conn 502 False] in auto)

lemma upstream_writable_keeps:
  assumes ok: "worker_ok ws" and env: "upstream_env_ok env" and r: "upstream_writable env fd p ws = Inr (ws', ret)"
  shows "worker_ok ws'"
proof -
  have e: "kernel_write_ok (ue_flush env)" "kernel_write_ok (ue_error env)" "handler_alloc_ok (fst (ue_mod env))"
    "ue_put env = (True, True)" using env by (simp_all add: upstream_env_ok_def)
  from r obtain conn b n out where c: "ws_conns ws p = Some conn" "buf_send (ue_flush env) (cn_upstream_wbuf conn) = Inr (b, n, out)"
    unfolding upstream_writable_def by (auto elim!: mbind_InrE simp: conn_at_Inr)
  define c1 where "c1 = conn\<lparr>cn_upstream_wbuf := b\<rparr>"
  define w1 where "w1 = emit (sent fd out) (set_conn p c1 ws)"
  note wf = conn_at_wf [OF ok c(1)]
  have wf1: "conn_wf c1"
    unfolding c1_def by (intro conn_wf_bufs(4) wf buf_send_keeps [OF c(2) conn_wf_buf_ok(4) [OF wf] e(1)])
  have ok1: "worker_ok w1" unfolding w1_def using set_conn_ok [OF ok wf1] by simp
  have eq: "upstream_writable env fd p ws =
      (if n < 0 \<and> n \<noteq> np_code NP_ERR_AGAIN then
         mbind (send_error c1 502) (\<lambda>conn. mbind (buf_send (ue_error env) (cn_wbuf conn)) (\<lambda>(b, _, out).
           mbind (worker_conn_close (emit (sent (cn_fd conn) out) (set_conn p (conn\<lparr>cn_wbuf := b\<rparr>) w1)) p (ue_put env)) (\<lambda>ws. Inr (ws, True))))
       else if buf_readable (cn_upstream_wbuf c1) = 0 then
         mbind (ws_event_mod w1 fd (EV_READ OR EV_HUP OR EV_EDGE) Proxy_on_upstream_event p (ue_mod env)) (\<lambda>ws. Inr (ws, False))
       else Inr (w1, False))"
    unfolding upstream_writable_def conn_at_def c(1) option.case mbind_simps c(2) prod.case Let_def c1_def [symmetric] w1_def [symmetric] ..
  show ?thesis
  proof (cases "n < 0 \<and> n \<noteq> np_code NP_ERR_AGAIN")
    case True
    with r obtain c2 b2 k2 o2 where 2: "send_error c1 502 = Inr c2" "buf_send (ue_error env) (cn_wbuf c2) = Inr (b2, k2, o2)"
      "worker_conn_close (emit (sent (cn_fd c2) o2) (set_conn p (c2\<lparr>cn_wbuf := b2\<rparr>) w1)) p (True, True) = Inr ws'"
      unfolding eq e(4) by (auto elim!: mbind_InrE)
    have wf2: "conn_wf c2" using send_error_keeps [OF 2(1) wf1] by simp
    then have "conn_wf (c2\<lparr>cn_wbuf := b2\<rparr>)"
      by (intro conn_wf_bufs(2) buf_send_keeps [OF 2(2) conn_wf_buf_ok(2) e(2)])
    from set_conn_ok [OF ok1 this] show ?thesis by (intro worker_conn_close_keeps [OF _ 2(3)]) simp
  next
    case False
    then show ?thesis
      using r ok1 e(3) unfolding eq by (auto split: if_splits elim!: mbind_InrE elim: ws_event_mod_keeps)
  qed
qed

lemma store_copy_keeps:
  "store_copy env conn ws = Inr (conn', ws') \<Longrightarrow> conn_wf conn \<Longrightarrow> worker_ok ws \<Longrightarrow> conn_wf conn' \<and> worker_ok ws'"
  by (auto simp: store_copy_def Let_def conn_wf_def conn_ok_def cache_copy_ok_def split: option.splits if_splits)

lemma put_upstream_keeps: "ws_put_upstream conn be fd ws = Inr ws' \<Longrightarrow> worker_ok ws \<Longrightarrow> worker_ok ws'"
  by (auto simp: ws_put_upstream_def worker_ok_def hctx_ok_def emit_def split: option.splits prod.splits)

lemma loop_del_keeps:
  assumes "loop_ok loop" "event_loop_del loop fd True = Inr (loop', st)"
  shows "loop_ok loop'"
proof (cases "0 \<le> fd")
  case True
  from evl.del_ok [OF assms(1) this] assms(2) show ?thesis by auto
next
  case False
  then show ?thesis using assms by (simp add: event_loop_del_def loop_ok_def)
qed

lemma worker_ok_loop: "worker_ok ws \<Longrightarrow> loop_ok loop \<Longrightarrow> worker_ok (ws\<lparr>ws_loop := loop\<rparr>)"
  by (simp add: worker_ok_def)

lemma upstream_release_fd_keeps:
  assumes ok: "worker_ok ws" "conn_wf conn" and env: "upstream_env_ok env" and r: "upstream_release_fd env fd p eof conn ws = Inr ws'"
  shows "worker_ok ws'"
proof -
  have e: "ue_put env = (True, True)" using env by (simp add: upstream_env_ok_def)
  show ?thesis
  proof (cases "if eof then cn_tls_conn conn else None")
    case None
    with r e set_conn_ok [OF ok, of p] show ?thesis
      using worker_conn_close_keeps [of "emit [Closed fd] (set_conn p conn ws)"] by (simp add: upstream_release_fd_def)
  next
    case (Some be)
    with r e obtain w3 w4 where 4: "(case cn_request conn of None \<Rightarrow> Inr ws
        | Some req \<Rightarrow> ws_access_log (ue_log env) req (cn_proxy_status conn) (ue_clock env) ws) = Inr w3"
      "ws_put_upstream conn be fd w3 = Inr w4" "worker_conn_close (set_conn p conn w4) p (True, True) = Inr ws'"
      by (simp only: upstream_release_fd_def option.case) (elim mbind_InrE, blast)
    have "worker_ok w3" using 4(1) ok by (auto split: option.splits dest: access_log_keeps)
    then have "worker_ok (set_conn p conn w4)" by (intro set_conn_ok ok put_upstream_keeps [OF 4(2)])
    then show ?thesis by (rule worker_conn_close_keeps [OF _ 4(3)])
  qed
qed

lemma upstream_finished_keeps:
  assumes ok: "worker_ok ws" and env: "upstream_env_ok env" and r: "upstream_finished env fd p n ws = Inr ws'"
  shows "worker_ok ws'"
proof -
  have e: "ue_del env = True" using env by (simp add: upstream_env_ok_def)
  from r obtain loop st conn where 1: "event_loop_del (ws_loop ws) fd True = Inr (loop, st)" "ws_conns ws p = Some conn"
    unfolding upstream_finished_def e(1) by (elim mbind_InrE) (auto elim!: mbind_InrE simp: conn_at_Inr)
  define c1 where "c1 = conn\<lparr>cn_upstream_fd := -1\<rparr>"
  define w1 where "w1 = ws\<lparr>ws_loop := loop\<rparr>"
  define eof where "eof \<longleftrightarrow> n = np_code NP_ERR_CLOSED \<and> cn_state c1 \<noteq> CONN_TUNNEL"
  have "loop_ok loop" using loop_del_keeps [OF _ 1(1)] ok by (simp add: worker_ok_def)
  then have ok1: "worker_ok w1" and wf1: "conn_wf c1"
    using ok conn_at_wf [OF ok 1(2)] by (simp_all add: w1_def c1_def worker_ok_loop)
  have "upstream_finished env fd p n ws = mbind (if eof then store_copy env c1 w1 else Inr (c1, w1)) (\<lambda>(conn, ws).
      upstream_release_fd env fd p eof conn ws)"
    unfolding upstream_finished_def e 1(1) conn_at_def 1(2) option.case mbind_simps prod.case Let_def eof_def c1_def w1_def ..
  with r obtain c2 w2 where 2: "(if eof then store_copy env c1 w1 else Inr (c1, w1)) = Inr (c2, w2)"
    and 3: "upstream_release_fd env fd p eof c2 w2 = Inr ws'" by (auto elim!: mbind_InrE)
  have "worker_ok w2" "conn_wf c2"
    using 2 store_copy_keeps [of env c1 w1 c2 w2] ok1 wf1 by (auto split: if_splits)
  then show ?thesis by (rule upstream_release_fd_keeps [OF _ _ env 3])
qed

lemma upstream_readable_keeps:
  assumes ok: "worker_ok ws" and env: "upstream_env_ok env" and r: "upstream_readable env fd p ws = Inr ws'"
  shows "worker_ok ws'"
proof -
  have e: "list_all relay_io_ok (ue_relay env)" "handler_alloc_ok (fst (ue_client_mod env))"
    using env by (simp_all add: upstream_env_ok_def)
  from r obtain conn c1 n got out where 1: "ws_conns ws p = Some conn" "relay_loop (ue_relay env) conn = Inr (c1, n, got, out)"
    unfolding upstream_readable_def by (auto elim!: mbind_InrE simp: conn_at_Inr)
  have "conn_wf c1" using relay_loop_ok [OF conn_at_wf [OF ok 1(1)] e(1)] 1(2) by auto
  then have ok1: "worker_ok (emit (sent (cn_fd c1) out) (set_conn p c1 ws))" using set_conn_ok [OF ok] by simp
  from r 1 obtain w2 where 2: "(if 0 < buf_readable (cn_upstream_rbuf c1)
      then worker_client_event_mod (emit (sent (cn_fd c1) out) (set_conn p c1 ws)) p (EV_WRITE OR EV_READ OR EV_HUP OR EV_EDGE) (ue_client_mod env)
      else Inr (emit (sent (cn_fd c1) out) (set_conn p c1 ws))) = Inr w2"
    and 3: "(if n = np_code NP_ERR_CLOSED \<or> n = np_code NP_ERR then upstream_finished env fd p n w2 else Inr w2) = Inr ws'"
    unfolding upstream_readable_def conn_at_def by (simp only: option.case mbind_simps prod.case Let_def) (elim mbind_InrE, blast)
  have "worker_ok w2" using 2 client_event_mod_keeps [OF ok1 e(2)] ok1 by (auto split: if_splits)
  then show ?thesis using 3 upstream_finished_keeps [OF _ env] by (auto split: if_splits)
qed

lemma upstream_event_keeps:
  assumes "worker_ok ws" "upstream_env_ok env" "proxy_on_upstream_event env fd events p ws = Inr ws'"
  shows "worker_ok ws'"
proof -
  from assms(3) obtain w r where 1: "(if events AND EV_WRITE \<noteq> 0 then upstream_writable env fd p ws else Inr (ws, False)) = Inr (w, r)"
    and 2: "(if \<not> r \<and> events AND EV_READ \<noteq> 0 then upstream_readable env fd p w else Inr w) = Inr ws'"
    unfolding proxy_on_upstream_event_def by (auto elim!: mbind_InrE)
  have "worker_ok w" using 1 upstream_writable_keeps [OF assms(1,2)] assms(1) by (auto split: if_splits)
  then show ?thesis using 2 upstream_readable_keeps [OF _ assms(2)] by (auto split: if_splits)
qed

lemma buf_memcpy_keeps:
  assumes "buf_memcpy b s = Inr b'" "buf_ok b"
  shows "buf_ok b'" "b_cap b' = b_cap b"
proof -
  have "length s \<le> buf_room b" using assms buf_memcpy_overflow [of b s] by fastforce
  from buf_memcpy_fits [OF assms(2) this] assms(1) show "buf_ok b'" "b_cap b' = b_cap b" by auto
qed

lemma buf_try_memcpy_keeps:
  "buf_try_memcpy b s = Inr b' \<Longrightarrow> buf_ok b \<Longrightarrow> buf_ok b' \<and> b_cap b' = b_cap b"
  by (auto simp: buf_try_memcpy_def split: if_splits dest: buf_memcpy_keeps)

lemma build_proxy_request_keeps:
  assumes "build_proxy_request conn req = Inr conn'" "conn_wf conn"
  obtains b where "conn' = conn\<lparr>cn_upstream_wbuf := b\<rparr>" "conn_wf conn'"
proof -
  let ?u = "cn_upstream_wbuf conn"
  have u: "buf_ok ?u" using assms(2) by (simp add: conn_wf_buf_ok)
  from assms(1) obtain w n b1 b2 where
    1: "(if of_nat n \<le> buf_writable ?u then mbind (array_bytes NP_MAX_HEADER_LEN (w, n)) (buf_memcpy ?u) else Inr ?u) = Inr b1"
    and 2: "(if 0 < length (req_body req) then buf_try_memcpy b1 (req_body req) else Inr b1) = Inr b2"
    and 3: "conn' = conn\<lparr>cn_upstream_wbuf := b2\<rparr>"
    unfolding build_proxy_request_def by (elim mbind_InrE) (auto elim!: mbind_InrE)
  have b1: "buf_ok b1" "b_cap b1 = b_cap ?u" using 1 u by (auto split: if_splits elim!: mbind_InrE dest: buf_memcpy_keeps)
  then have "buf_ok b2" "b_cap b2 = b_cap ?u" using 2 by (auto split: if_splits dest: buf_try_memcpy_keeps)
  then show ?thesis using that [of b2] 3 conn_wf_bufs(4) [OF assms(2)] by simp
qed

lemma set_upstream_pool_ok [simp]: "worker_ok (set_upstream_pool i pool ws) = worker_ok ws"
  by (simp add: worker_ok_def hctx_ok_def set_upstream_pool_def)

lemma upstream_error_keeps:
  assumes "upstream_error status p conn req ws = Inr ws'" "worker_ok ws" "conn_wf conn" "0 \<le> status" "status < 1000"
  shows "worker_ok ws'"
proof -
  from assms(1) obtain b where b: "response_write_error (cn_wbuf conn) status (req_keep_alive req) = Inr b"
    "ws' = set_conn p (conn\<lparr>cn_wbuf := b, cn_state := CONN_WRITING_RESPONSE\<rparr>)
       (ws\<lparr>ws_hctx := (ws_hctx ws)\<lparr>hc_metrics := metrics_inc_upstream_errors (hc_metrics (ws_hctx ws))\<rparr>\<rparr>)"
    unfolding upstream_error_def by (auto elim!: mbind_InrE)
  show ?thesis
    unfolding b(2) by (rule set_conn_ok)
      (use assms(2) write_error_wf [OF b(1) assms(3-5)] in \<open>simp_all add: worker_ok_def hctx_ok_def\<close>)
qed

lemma loop_add_keeps:
  assumes "loop_ok loop" "handler_alloc_ok f" "event_loop_add loop fd ev fn p (f (el_heap loop)) k = Inr (loop', st)"
  shows "loop_ok loop'"
proof (cases "0 \<le> fd")
  case True
  from loop_ctl_put [OF assms(1) handler_alloc_fresh [OF assms(2)] True, of EPOLL_CTL_ADD ev fn p k] assms(3)
  show ?thesis unfolding event_loop_add_def by auto
next
  case False
  then show ?thesis using assms(1,3) by (simp add: event_loop_add_def loop_ctl_def loop_ok_def)
qed

lemma proxy_handle_keeps:
  assumes ok: "worker_ok ws" and env: "handler_alloc_ok (fst (pe_add env))" and r: "proxy_handle env p pi pool req ws = Inr ws'"
  shows "worker_ok ws'"
proof -
  from r obtain conn where c: "ws_conns ws p = Some conn" unfolding proxy_handle_def by (auto elim!: mbind_InrE simp: conn_at_Inr)
  note wf = conn_at_wf [OF ok c]
  obtain pool1 be where sel: "upstream_select pool = (pool1, be)" by fastforce
  show ?thesis
  proof (cases be)
    case None
    then have "upstream_error 503 p (conn\<lparr>cn_proxy_pool := Some pi\<rparr>) req (set_upstream_pool pi pool1 ws) = Inr ws'"
      using r c sel by (simp add: proxy_handle_def conn_at_def)
    then show ?thesis by (rule upstream_error_keeps) (use ok wf in simp_all)
  next
    case (Some i)
    obtain st k closed where so: "socket_connect_nonblock (ub_host (up_backends pool1 ! i)) (ub_port (up_backends pool1 ! i))
        (pe_socket env) (pe_connect env) = (st, k, closed)" by (metis prod_cases3)
    obtain pool2 ufd where get: "upstream_get_connection pool1 i k = (pool2, ufd)" by fastforce
    define w1 where "w1 = emit (if 0 < length (ub_idle_fds (up_backends pool1 ! i)) then [] else map Closed closed) ws"
    have w1: "worker_ok w1" "ws_loop w1 = ws_loop ws" using ok by (simp_all add: w1_def)
    show ?thesis
    proof (cases ufd)
      case None
      then have "upstream_error 502 p (conn\<lparr>cn_proxy_pool := Some pi\<rparr>) req
          (set_upstream_pool pi (upstream_release pool2 (Some i) True) w1) = Inr ws'"
        using r c sel Some so get by (simp add: proxy_handle_def conn_at_def w1_def Let_def)
      then show ?thesis by (rule upstream_error_keeps) (use w1 wf in simp_all)
    next
      case u: (Some u)
      define c1 where "c1 = conn\<lparr>cn_proxy_pool := Some pi, cn_tls_conn := Some i, cn_upstream_fd := u\<rparr>"
      have "conn_wf c1" using wf by (simp add: c1_def)
      obtain c2 loop st2 where 2: "build_proxy_request c1 req = Inr c2"
        "event_loop_add (ws_loop ws) u (EV_WRITE OR EV_READ OR EV_HUP OR EV_EDGE) Proxy_on_upstream_event p
           (fst (pe_add env) (el_heap (ws_loop ws))) (snd (pe_add env)) = Inr (loop, st2)"
        "ws' = (set_conn p (c2\<lparr>cn_state := if req_upgrade req then CONN_TUNNEL else CONN_PROXYING\<rparr>) (set_upstream_pool pi pool2 w1))
           \<lparr>ws_loop := loop\<rparr>"
        using r c sel Some so get u
        by (auto simp: proxy_handle_def conn_at_def w1_def c1_def conn_set_upstream_def set_upstream_pool_def Let_def elim!: mbind_InrE)
      obtain b where "conn_wf c2" by (rule build_proxy_request_keeps [OF 2(1) \<open>conn_wf c1\<close>]) (rule that)
      moreover have "loop_ok (ws_loop ws)" using ok by (simp add: worker_ok_def)
      ultimately show ?thesis
        unfolding 2(3) by (intro worker_ok_loop set_conn_ok loop_add_keeps [OF _ env 2(2)]) (use w1 in simp_all)
    qed
  qed
qed

section \<open>The end of a response\<close>

lemma store_copy_total:
  assumes "cache_copy_ok conn" "\<And>i. cn_cache_store conn = Some i \<Longrightarrow> hc_cache_stores (ws_hctx ws) ! i \<noteq> None"
  shows "\<exists>d l k f. store_copy env conn ws = Inr (conn\<lparr>cn_cache_buf := d, cn_cache_len := l, cn_cache_cap := k\<rparr>, ws\<lparr>ws_fs := f\<rparr>)"
proof -
  have same: "Inr (conn, ws) = Inr (conn\<lparr>cn_cache_buf := cn_cache_buf conn, cn_cache_len := cn_cache_len conn, cn_cache_cap := cn_cache_cap conn\<rparr>,
      ws\<lparr>ws_fs := ws_fs ws\<rparr>)" by simp
  show ?thesis
  proof (cases "(\<exists>i. cn_cache_store conn = Some i) \<and> (\<exists>d. cn_cache_buf conn = Some d) \<and> 0 < cn_cache_len conn")
    case True
    then obtain i d store where "cn_cache_store conn = Some i" "cn_cache_buf conn = Some d" "0 < cn_cache_len conn"
      "hc_cache_stores (ws_hctx ws) ! i = Some store" using assms(2) by blast
    moreover have "\<not> length d < unat (cn_cache_len conn)"
      using assms(1) calculation(2) by (simp add: cache_copy_ok_def word_le_nat_alt)
    ultimately show ?thesis by (simp add: store_copy_def Let_def) blast
  next
    case False
    then have "store_copy env conn ws = Inr (conn, ws)" by (auto simp: store_copy_def split: option.splits)
    then show ?thesis using same by metis
  qed
qed

lemma put_upstream_idle:
  assumes "cn_proxy_pool conn = Some j" "hc_upstream_pools (ws_hctx ws) ! j = Some pool" "j < length (hc_upstream_pools (ws_hctx ws))"
    "i < length (up_backends pool)" "int (length (ub_idle_fds (up_backends pool ! i))) < up_keepalive_conns pool"
    "length (ub_idle_fds (up_backends pool ! i)) < 64"
  obtains ws' pool' where "ws_put_upstream conn i fd ws = Inr ws'" "ws_trace ws' = ws_trace ws" "ws_conns ws' = ws_conns ws"
    "ws_loop ws' = ws_loop ws" "hc_upstream_pools (ws_hctx ws') ! j = Some pool'" "snd (upstream_get_connection pool' i None) = Some fd"
proof -
  let ?f = "ub_idle_fds (up_backends pool ! i)"
  let ?pool = "upd_backend i (\<lambda>b. b\<lparr>ub_idle_fds := ?f @ [fd]\<rparr>) pool"
  let ?ws = "emit [] (ws\<lparr>ws_hctx := (ws_hctx ws)\<lparr>hc_upstream_pools := (hc_upstream_pools (ws_hctx ws))[j := Some ?pool]\<rparr>\<rparr>)"
  show ?thesis
    by (rule that [of ?ws ?pool])
      (use assms in \<open>simp_all add: ws_put_upstream_def upstream_put_connection_def upstream_get_connection_def upd_backend_def emit_def\<close>)
qed

text \<open>A connection that waits for the answer of backend \<open>i\<close> of pool \<open>j\<close>, whose list of idle connections has room.\<close>

definition awaits_backend :: "worker_state_t \<Rightarrow> conn_t \<Rightarrow> nat \<Rightarrow> nat \<Rightarrow> upstream_pool \<Rightarrow> bool" where
  "awaits_backend ws conn j i pool \<longleftrightarrow> cn_state conn = CONN_PROXYING \<and> 0 \<le> cn_fd conn \<and> cn_file_fd conn < 0 \<and>
     cn_proxy_pool conn = Some j \<and> cn_tls_conn conn = Some i \<and>
     j < length (hc_upstream_pools (ws_hctx ws)) \<and> hc_upstream_pools (ws_hctx ws) ! j = Some pool \<and>
     i < length (up_backends pool) \<and> int (length (ub_idle_fds (up_backends pool ! i))) < up_keepalive_conns pool \<and>
     length (ub_idle_fds (up_backends pool ! i)) < 64 \<and>
     (\<forall>k. cn_cache_store conn = Some k \<longrightarrow> hc_cache_stores (ws_hctx ws) ! k \<noteq> None)"

lemma release_fd_eof:
  assumes ok: "worker_ok ws" and wf: "conn_wf conn" and put: "ue_put env = (True, True)" and aw: "awaits_backend ws conn j i pool"
    and ufd: "cn_upstream_fd conn < 0" and req: "cn_request conn = Some req" "0 \<le> ws_access_fd ws" "length (req_path req) \<le> 870"
      "access_args_ok req (cn_proxy_status conn) (ue_clock env) (le_stop (ue_log env)) (le_tsbuf (ue_log env))"
  obtains ws' pool' line where "upstream_release_fd env fd p True conn ws = Inr ws'" "worker_ok ws'"
    "ws_trace ws' = ws_trace ws @ [Logged line, Closed (cn_fd conn)]"
    "hc_upstream_pools (ws_hctx ws') ! j = Some pool'" "snd (upstream_get_connection pool' i None) = Some fd"
proof -
  note a = aw [unfolded awaits_backend_def]
  obtain us where us: "access_log_write (ws_access_fd ws) req (cn_proxy_status conn) 0 (ue_clock env) (le_stop (ue_log env)) (le_tsbuf (ue_log env)) =
      Inr (access_line req (cn_proxy_status conn) 0 (le_tsbuf (ue_log env)) us)"
    using access_log_write_fits [OF req(4,3,2)] by blast
  define line where "line = access_line req (cn_proxy_status conn) 0 (le_tsbuf (ue_log env)) us"
  have "line \<noteq> []" by (simp add: line_def access_line_def)
  then have log: "ws_access_log (ue_log env) req (cn_proxy_status conn) (ue_clock env) ws = Inr (emit [Logged line] ws)"
    using us by (simp add: ws_access_log_def line_def)
  have hc: "ws_hctx (emit [Logged line] ws) = ws_hctx ws" by simp
  obtain w4 pool' where 4: "ws_put_upstream conn i fd (emit [Logged line] ws) = Inr w4" "ws_trace w4 = ws_trace (emit [Logged line] ws)"
    "hc_upstream_pools (ws_hctx w4) ! j = Some pool'" "snd (upstream_get_connection pool' i None) = Some fd"
    by (rule put_upstream_idle [of conn j "emit [Logged line] ws" pool i fd]) (use a hc in auto)
  have "worker_ok (set_conn p conn w4)" by (intro set_conn_ok wf put_upstream_keeps [OF 4(1)]) (use ok in simp)
  then have w5: "worker_ok ((set_conn p conn w4)\<lparr>ws_active_conns := ws_active_conns (set_conn p conn w4) - 1\<rparr>)" by simp
  obtain ws' where 6: "worker_conn_close (set_conn p conn w4) p (True, True) = Inr ws'" "worker_ok ws'"
    "ws_trace ws' = ws_trace w4 @ map Closed (filter (\<lambda>fd. 0 \<le> fd) [cn_fd conn, cn_upstream_fd conn, cn_file_fd conn])"
    "ws_hctx ws' = ws_hctx w4"
    unfolding worker_conn_close_def by (rule ws_pool_put_ok [OF w5, of p conn]) (simp_all add: that)
  have "upstream_release_fd env fd p True conn ws = Inr ws'"
    using a req(1) log 4(1) 6(1) put by (simp add: upstream_release_fd_def)
  then show ?thesis using that 6 4 a ufd by auto
qed

lemma finished_eof:
  assumes ok: "worker_ok ws" and env: "upstream_env_ok env" and c: "ws_conns ws p = Some conn" and aw: "awaits_backend ws conn j i pool"
    and fd: "0 \<le> fd" and req: "cn_request conn = Some req" "0 \<le> ws_access_fd ws" "length (req_path req) \<le> 870"
      "access_args_ok req (cn_proxy_status conn) (ue_clock env) (le_stop (ue_log env)) (le_tsbuf (ue_log env))"
  obtains ws' pool' line where "upstream_finished env fd p (np_code NP_ERR_CLOSED) ws = Inr ws'" "worker_ok ws'"
    "ws_trace ws' = ws_trace ws @ [Logged line, Closed (cn_fd conn)]"
    "hc_upstream_pools (ws_hctx ws') ! j = Some pool'" "snd (upstream_get_connection pool' i None) = Some fd"
proof -
  have e: "ue_del env = True" "ue_put env = (True, True)" using env by (simp_all add: upstream_env_ok_def)
  have "loop_ok (ws_loop ws)" using ok by (simp add: worker_ok_def)
  from evl.del_ok [OF this fd] obtain loop st where l: "event_loop_del (ws_loop ws) fd True = Inr (loop, st)" "loop_ok loop" by blast
  define c1 where "c1 = conn\<lparr>cn_upstream_fd := -1\<rparr>"
  define w1 where "w1 = ws\<lparr>ws_loop := loop\<rparr>"
  have w1: "worker_ok w1" "conn_wf c1" using ok l(2) conn_at_wf [OF ok c] by (simp_all add: w1_def c1_def worker_ok_loop)
  note a = aw [unfolded awaits_backend_def]
  obtain d l' k f where sc: "store_copy env c1 w1 = Inr (c1\<lparr>cn_cache_buf := d, cn_cache_len := l', cn_cache_cap := k\<rparr>, w1\<lparr>ws_fs := f\<rparr>)"
    using store_copy_total [of c1 w1 env] w1(2) a by (auto simp: conn_wf_def c1_def w1_def)
  define c2 where "c2 = c1\<lparr>cn_cache_buf := d, cn_cache_len := l', cn_cache_cap := k\<rparr>"
  have wf2: "conn_wf c2" using store_copy_keeps [OF sc w1(2,1)] by (simp add: c2_def)
  have aw2: "awaits_backend (w1\<lparr>ws_fs := f\<rparr>) c2 j i pool" using a by (simp add: awaits_backend_def c2_def c1_def w1_def)
  have w1f: "worker_ok (w1\<lparr>ws_fs := f\<rparr>)" using w1(1) by simp
  obtain ws' pool' line where r: "upstream_release_fd env fd p True c2 (w1\<lparr>ws_fs := f\<rparr>) = Inr ws'" "worker_ok ws'"
    "ws_trace ws' = ws_trace (w1\<lparr>ws_fs := f\<rparr>) @ [Logged line, Closed (cn_fd c2)]"
    "hc_upstream_pools (ws_hctx ws') ! j = Some pool'" "snd (upstream_get_connection pool' i None) = Some fd"
    by (rule release_fd_eof [OF w1f wf2 e(2) aw2, where fd = fd and p = p and req = req])
      (use req that in \<open>simp_all add: c2_def c1_def w1_def\<close>)
  have "upstream_finished env fd p (np_code NP_ERR_CLOSED) ws = Inr ws'"
    using r(1) a sc unfolding upstream_finished_def e l(1) conn_at_def c option.case mbind_simps prod.case Let_def
    by (simp flip: c1_def w1_def c2_def) (simp add: c1_def)
  then show ?thesis using that r by (simp add: w1_def c2_def c1_def)
qed

text \<open>
  C34: When the backend closes its connection while the client is behind, the client gets exactly
  what it had taken by then (\<open>out\<close>), its descriptor is closed, and the bytes of the answer that were
  still buffered are dropped. The descriptor that the backend has closed is put among the idle
  connections and is the one the next request to this backend is sent on.
\<close>

theorem upstream_eof:
  assumes ok: "worker_ok ws" and env: "upstream_env_ok env" and c: "ws_conns ws p = Some conn" and aw: "awaits_backend ws conn j i pool"
    and fd: "0 \<le> fd" and relay: "relay_loop (ue_relay env) conn = Inr (c1, np_code NP_ERR_CLOSED, got, out)"
    and req: "cn_request conn = Some req" "0 \<le> ws_access_fd ws" "length (req_path req) \<le> 870"
      "access_args_ok req (cn_proxy_status c1) (ue_clock env) (le_stop (ue_log env)) (le_tsbuf (ue_log env))"
  shows "\<exists>ws' pool' line. proxy_on_upstream_event env fd EV_READ p ws = Inr ws' \<and>
     ws_trace ws' = ws_trace ws @ sent (cn_fd conn) out @ [Logged line, Closed (cn_fd conn)] \<and>
     buf_contents (cn_upstream_rbuf conn) @ got = out @ buf_contents (cn_upstream_rbuf c1) \<and>
     hc_upstream_pools (ws_hctx ws') ! j = Some pool' \<and> snd (upstream_get_connection pool' i None) = Some fd"
proof -
  have e: "list_all relay_io_ok (ue_relay env)" "handler_alloc_ok (fst (ue_client_mod env))" using env by (simp_all add: upstream_env_ok_def)
  have rl: "conn_wf c1" "relay_rest c1 = relay_rest conn" "buf_contents (cn_upstream_rbuf conn) @ got = out @ buf_contents (cn_upstream_rbuf c1)"
    using relay_loop_ok [OF conn_at_wf [OF ok c] e(1)] relay by auto
  note f = relay_rest_fields [OF rl(2)]
  define w1 where "w1 = emit (sent (cn_fd conn) out) (set_conn p c1 ws)"
  have w1: "worker_ok w1" "ws_conns w1 p = Some c1" using set_conn_ok [OF ok rl(1)] by (simp_all add: w1_def)
  have "0 \<le> cn_fd c1" using aw f(1) by (simp add: awaits_backend_def)
  from ws_event_mod_ok [OF w1(1) e(2) this, of "EV_WRITE OR EV_READ OR EV_HUP OR EV_EDGE" On_client_event p]
  obtain loop where l: "worker_client_event_mod w1 p (EV_WRITE OR EV_READ OR EV_HUP OR EV_EDGE) (ue_client_mod env) = Inr (w1\<lparr>ws_loop := loop\<rparr>)"
    "worker_ok (w1\<lparr>ws_loop := loop\<rparr>)" by (auto simp: worker_client_event_mod_def conn_at_def w1(2))
  define w2 where "w2 = (if 0 < buf_readable (cn_upstream_rbuf c1) then w1\<lparr>ws_loop := loop\<rparr> else w1)"
  have w2: "worker_ok w2" "ws_conns w2 p = Some c1" "ws_hctx w2 = ws_hctx ws" "ws_access_fd w2 = ws_access_fd ws"
    "ws_trace w2 = ws_trace ws @ sent (cn_fd conn) out"
    using w1 l(2) by (simp_all add: w2_def w1_def)
  have aw2: "awaits_backend w2 c1 j i pool" using aw f w2(3) by (simp add: awaits_backend_def)
  obtain ws' pool' line where r: "upstream_finished env fd p (np_code NP_ERR_CLOSED) w2 = Inr ws'"
    "ws_trace ws' = ws_trace w2 @ [Logged line, Closed (cn_fd c1)]"
    "hc_upstream_pools (ws_hctx ws') ! j = Some pool'" "snd (upstream_get_connection pool' i None) = Some fd"
    by (rule finished_eof [OF w2(1) env w2(2) aw2 fd, where req = req]) (use req f w2(4) that in simp_all)
  have "proxy_on_upstream_event env fd EV_READ p ws = Inr ws'"
    using r(1) l(1) by (cases "0 < buf_readable (cn_upstream_rbuf c1)")
      (simp_all add: proxy_on_upstream_event_def upstream_readable_def conn_at_def c relay f(1) w2_def flip: w1_def)
  then show ?thesis using r rl(3) f(1) w2(5) by auto
qed

definition demo_upstream_env :: upstream_env where
  "demo_upstream_env = \<lparr>ue_flush = \<lambda>t. Write_n (length t), ue_error = \<lambda>t. Write_n (length t), ue_mod = (demo_alloc 9, True),
     ue_relay = [\<lparr>ri_read = \<lambda>_. Read_data [], ri_realloc = demo_realloc, ri_writes = []\<rparr>], ue_client_mod = (demo_alloc 9, True), ue_del = True,
     ue_insert = \<lparr>in_open = True, in_write_hdr = True, in_write_headers = True, in_write_body = True, in_rename = True\<rparr>,
     ue_pad = replicate 4 (CHR 0x00), ue_time = 0, ue_clock = \<lparr>ts_sec = 5, ts_nsec = 0\<rparr>, ue_log = demo_log_env, ue_put = (True, True)\<rparr>"

lemma demo_upstream_env_ok: "upstream_env_ok demo_upstream_env"
  by (simp add: upstream_env_ok_def demo_upstream_env_def kernel_write_ok_def demo_alloc_ok relay_io_ok_def kernel_read_ok_def demo_realloc_ok)

text \<open>A connection with four bytes of the answer still to be sent.\<close>

definition demo_behind :: conn_t where
  "demo_behind = (demo_conn 5)\<lparr>
     cn_upstream_rbuf := \<lparr>b_data = ''rest'' @ replicate 65532 (CHR 0x00), b_cap = 65536, b_read_pos = 0, b_write_pos = 4\<rparr>,
     cn_state := CONN_PROXYING, cn_upstream_fd := 7, cn_proxy_pool := Some 0, cn_tls_conn := Some 0,
     cn_proxy_status := 200, cn_request := Some (demo_request ''/a'')\<rparr>"

theorem upstream_eof_witness:
  "\<exists>ws' pool' line. proxy_on_upstream_event demo_upstream_env 7 EV_READ 0 (demo_worker config_defaults demo_behind) = Inr ws' \<and>
     ws_trace ws' = [Logged line, Closed 5] \<and> buf_contents (cn_upstream_rbuf demo_behind) = ''rest'' \<and>
     hc_upstream_pools (ws_hctx ws') ! 0 = Some pool' \<and> snd (upstream_get_connection pool' 0 None) = Some 7"
proof -
  let ?ws = "demo_worker config_defaults demo_behind"
  have wf: "conn_wf demo_behind"
    unfolding demo_behind_def conn_wf_simps
    by (rule conn_wf_bufs(3) [OF demo_conn_ok(2)]) (simp_all add: buf_ok_def demo_conn_def demo_buf_ok)
  have ok: "worker_ok ?ws" by (rule demo_worker_ok [OF wf]) (simp_all add: config_defaults_def)
  have rest: "buf_contents (cn_upstream_rbuf demo_behind) = ''rest''" by (simp add: demo_behind_def buf_contents_def)
  have relay: "relay_loop (ue_relay demo_upstream_env) demo_behind = Inr (demo_behind, np_code NP_ERR_CLOSED, [], [])"
    by (simp add: demo_upstream_env_def demo_behind_def buf_recv_def buf_read_fd_def buf_compact_def buf_readable_def buf_writable_def)
  have aw: "awaits_backend ?ws demo_behind 0 0 demo_upstream"
    by (simp add: awaits_backend_def demo_worker_def demo_upstream_def demo_behind_def demo_conn_def conn_zero_def)
  have log: "access_args_ok (demo_request ''/a'') (cn_proxy_status demo_behind) (ue_clock demo_upstream_env)
      (le_stop (ue_log demo_upstream_env)) (le_tsbuf (ue_log demo_upstream_env))"
    by (simp add: access_args_ok_def demo_request_def request_zero_def demo_behind_def demo_upstream_env_def demo_log_env_def)
  show ?thesis
    using upstream_eof [OF ok demo_upstream_env_ok _ aw _ relay _ _ _ log, of 0 7] rest
    by (simp add: demo_worker_def demo_behind_def demo_request_def sent_def demo_conn_def)
qed

end
