(* ===== verification/Handler.thy ===== *)
theory Handler
  imports Proxy_Events
begin

text \<open>
  The dispatcher of \<^verbatim>\<open>src/src/http/handler.c\<close>: the choice of the server block by the Host header,
  the modules, the rewriting of paths, the rate limit, and the routes in the order of the code. The
  request is the object the connection points to, so what the dispatcher changes of it is stored
  with the connection. The regular expressions of the C library are an argument.

  The theorems say which server is chosen, what a rewritten path is, what a request that is
  refused can reach, and that every route keeps the state of the worker well formed.
\<close>

section \<open>Model\<close>

definition path_matches :: "string \<Rightarrow> string \<Rightarrow> bool" where
  "path_matches path pre = str_starts_with path pre"

text \<open>The choice of the server: the name in the Host header without the port, the first server by default.\<close>

fun vhost_loop :: "np_server_config_t list \<Rightarrow> string \<Rightarrow> nat \<Rightarrow> nat option" where
  "vhost_loop [] host i = None"
| "vhost_loop (s # ss) host i =
     (if srv_server_name s \<noteq> [] \<and> srv_server_name s = host then Some i else vhost_loop ss host (i + 1))"

definition host_name :: "string \<Rightarrow> string" where
  "host_name host =
     (let buf = cstr (take 255 host)
      in case strchr (CHR '':'') buf of None \<Rightarrow> buf | Some colon \<Rightarrow> take colon buf)"

definition select_server :: "np_config_t \<Rightarrow> http_request_t \<Rightarrow> nat" where
  "select_server cfg req =
     (case request_header req ''Host'' of
        None \<Rightarrow> 0
      | Some host \<Rightarrow> (case vhost_loop (c_servers cfg) (host_name host) 0 of None \<Rightarrow> 0 | Some i \<Rightarrow> i))"

text \<open>
  The loop that builds the new path in an array of 1024 bytes: \<open>pb\<close> is the old path in the array
  \<^verbatim>\<open>path_buf\<close>, \<open>ms\<close> the ten matches as pairs of offsets, \<open>dst\<close> the new path so far.
\<close>

definition match_text :: "string \<Rightarrow> int \<times> int \<Rightarrow> string \<Rightarrow> string mem" where
  "match_text pb m dst =
     (if fst m = -1 then Inr dst
      else
        (let len = snd m - fst m
         in if len > 0 \<and> int (length dst) + len < 1023 then
              (if fst m < 0 \<or> int (length pb) < fst m + len then Inl Out_of_bounds
               else Inr (dst @ take (nat len) (drop (nat (fst m)) pb)))
            else Inr dst))"

fun rewrite_loop :: "string \<Rightarrow> (int \<times> int) list \<Rightarrow> string \<Rightarrow> string \<Rightarrow> string mem" where
  "rewrite_loop pb ms [] dst = Inr dst"
| "rewrite_loop pb ms [c] dst = (if 1023 \<le> length dst then Inr dst else Inr (dst @ [c]))"
| "rewrite_loop pb ms (c # d # src) dst =
     (if 1023 \<le> length dst then Inr dst
      else if c = CHR ''$'' \<and> isdigit d
      then mbind (match_text pb (ms ! (of_char d - 48)) dst) (rewrite_loop pb ms src)
      else rewrite_loop pb ms (d # src) (dst @ [c]))"

text \<open>\<open>regexec\<close> gives the matches of a pattern in a text, \<open>m\<close> is the block \<^verbatim>\<open>malloc\<close> gives the arena.\<close>

type_synonym regexec = "string \<Rightarrow> string \<Rightarrow> (int \<times> int) list option"

fun rewrite_rules ::
  "regexec \<Rightarrow> usize option \<Rightarrow> conn_t \<Rightarrow> http_request_t \<Rightarrow> rewrite_rule_t list \<Rightarrow> (conn_t \<times> http_request_t) mem" where
  "rewrite_rules regexec m conn req [] = Inr (conn, req)"
| "rewrite_rules regexec m conn req (rule # rules) =
     (let pb = take 1023 (req_path req)
      in case regexec (rw_pattern rule) (cstr pb) of
           None \<Rightarrow> rewrite_rules regexec m conn req rules
         | Some ms \<Rightarrow>
             mbind (rewrite_loop pb ms (rw_replacement rule) []) (\<lambda>w.
               let new_path = cstr w;
                   (a, ptr) = arena_alloc (cn_arena conn) (of_nat (length new_path) + 1) m
               in Inr (conn\<lparr>cn_arena := a\<rparr>, case ptr of None \<Rightarrow> req | Some _ \<Rightarrow> req\<lparr>req_path := new_path\<rparr>)))"

text \<open>
  What the calls answer: the clocks, the regular expressions, memory for the arena, the time for
  the rate limiter and the cache, \<^verbatim>\<open>%f\<close>, the file operations of the cache, the calls of the proxy and
  of the file server, and memory for a handler of the loop.
\<close>

record handler_env =
  he_start :: timespec
  he_log :: log_env
  he_regexec :: regexec
  he_arena :: "usize option"
  he_rate_time :: int
  he_cache_time :: int
  he_fmt_f :: "u64 \<Rightarrow> string"
  he_lookup :: lookup_io
  he_proxy :: proxy_env
  he_file :: file_env
  he_alloc :: handler_alloc

text \<open>The answers that count: an error page, a line in the log.\<close>

definition respond_error ::
  "handler_env \<Rightarrow> int \<Rightarrow> nat \<Rightarrow> conn_t \<Rightarrow> http_request_t \<Rightarrow> worker_state_t \<Rightarrow> worker_state_t mem" where
  "respond_error env status p conn req ws =
     mbind (response_write_error (cn_wbuf conn) status (req_keep_alive req)) (\<lambda>b.
       let ws = ws\<lparr>ws_hctx := (ws_hctx ws)\<lparr>hc_metrics := metrics_inc_requests (hc_metrics (ws_hctx ws)) status\<rparr>\<rparr>
       in mbind (ws_access_log (he_log env) req status (he_start env) ws) (\<lambda>ws.
            Inr (set_conn p (conn\<lparr>cn_wbuf := b, cn_state := CONN_WRITING_RESPONSE\<rparr>) ws)))"

definition check_rate :: "int \<Rightarrow> http_request_t \<Rightarrow> worker_state_t \<Rightarrow> worker_state_t \<times> bool" where
  "check_rate now req ws =
     (case hc_rate_limiter (ws_hctx ws) of
        None \<Rightarrow> (ws, True)
      | Some rl \<Rightarrow>
          (let (rl, st) = rate_limit_check rl (req_remote_ip req) now
           in (ws\<lparr>ws_hctx := (ws_hctx ws)\<lparr>hc_rate_limiter := Some rl\<rparr>\<rparr>, st = NP_OK)))"

text \<open>The look into the cache: the entry that answers the request, if there is one.\<close>

definition look_up ::
  "handler_env \<Rightarrow> nat \<Rightarrow> np_server_config_t \<Rightarrow> http_request_t \<Rightarrow> worker_state_t \<Rightarrow> worker_state_t \<times> cache_entry_t option" where
  "look_up env i server req ws =
     (case hc_cache_stores (ws_hctx ws) ! i of
        None \<Rightarrow> (ws, None)
      | Some store \<Rightarrow>
          if cc_enabled (srv_cache server) \<and> req_method req = HTTP_METHOD_GET then
            (case cache_lookup store (cache_key_from_request req 1024) (ws_fs ws) (he_cache_time env) (he_lookup env) of
               (f, st, e) \<Rightarrow>
                 (ws\<lparr>ws_fs := f\<rparr>,
                  case e of None \<Rightarrow> None | Some x \<Rightarrow> if st = NP_OK \<and> ce_data x \<noteq> [] then Some x else None))
          else (ws, None))"

definition serve_entry ::
  "handler_env \<Rightarrow> nat \<Rightarrow> cache_entry_t \<Rightarrow> conn_t \<Rightarrow> http_request_t \<Rightarrow> worker_state_t \<Rightarrow> worker_state_t mem" where
  "serve_entry env p e conn req ws =
     mbind (buf_try_memcpy (cn_wbuf conn) (ce_data e)) (\<lambda>b.
       ws_access_log (he_log env) req (ch_status (ce_hdr e)) (he_start env)
         (set_conn p (conn\<lparr>cn_wbuf := b, cn_state := CONN_WRITING_RESPONSE\<rparr>) ws))"

definition serve_static ::
  "handler_env \<Rightarrow> nat \<Rightarrow> np_server_config_t \<Rightarrow> conn_t \<Rightarrow> http_request_t \<Rightarrow> worker_state_t \<Rightarrow> worker_state_t mem" where
  "serve_static env p server conn req ws =
     mbind (file_server_handle ((he_file env)\<lparr>fe_malloc := he_alloc env (el_heap (ws_loop ws))\<rparr>) p conn (ws_loop ws) req server)
       (\<lambda>(conn, loop, status, out, closed).
          ws_access_log (he_log env) req status (he_start env)
            (emit (map Closed closed @ sent (cn_fd conn) out) (set_conn p conn (ws\<lparr>ws_loop := loop\<rparr>))))"

definition note_cache_key :: "nat \<Rightarrow> np_server_config_t \<Rightarrow> http_request_t \<Rightarrow> worker_state_t \<Rightarrow> conn_t \<Rightarrow> conn_t" where
  "note_cache_key i server req ws conn =
     (if cc_enabled (srv_cache server) \<and> hc_cache_stores (ws_hctx ws) ! i \<noteq> None
      then conn\<lparr>cn_cache_store := Some i, cn_cache_key := strncpy 255 (cache_key_from_request req 1024)\<rparr>
      else conn)"

text \<open>The routes, from the rate limit on.\<close>

definition handler_route ::
  "handler_env \<Rightarrow> nat \<Rightarrow> nat \<Rightarrow> np_server_config_t \<Rightarrow> conn_t \<Rightarrow> http_request_t \<Rightarrow> worker_state_t \<Rightarrow> worker_state_t mem" where
  "handler_route env p i server conn req ws =
     (let (ws, allowed) = check_rate (he_rate_time env) req ws
      in if \<not> allowed then respond_error env 429 p conn req ws
         else if hc_metrics (ws_hctx ws) \<noteq> None \<and> path_matches (req_path req) (c_metrics_path (ws_config ws)) then
           mbind (metrics_handle (he_fmt_f env) (the (hc_metrics (ws_hctx ws))) conn req) (\<lambda>conn.
             ws_access_log (he_log env) req 200 (he_start env) (set_conn p conn ws))
         else if path_matches (req_path req) ''/healthz'' then
           mbind (health_handle conn req) (\<lambda>conn.
             ws_access_log (he_log env) req 200 (he_start env) (set_conn p conn ws))
         else
           (case look_up env i server req ws of
              (ws, Some e) \<Rightarrow> serve_entry env p e conn req ws
            | (ws, None) \<Rightarrow>
                if px_enabled (srv_proxy server) \<and> hc_upstream_pools (ws_hctx ws) ! i \<noteq> None then
                  proxy_handle (he_proxy env) p i (the (hc_upstream_pools (ws_hctx ws) ! i)) req
                    (set_conn p (note_cache_key i server req ws conn) ws)
                else if srv_static_root server \<noteq> [] then serve_static env p server conn req ws
                else respond_error env 404 p conn req ws))"

definition handler_dispatch :: "handler_env \<Rightarrow> nat \<Rightarrow> http_request_t \<Rightarrow> worker_state_t \<Rightarrow> worker_state_t mem" where
  "handler_dispatch env p req ws =
     mbind (conn_at ws p) (\<lambda>conn.
       let cfg = ws_config ws;
           req = req\<lparr>req_remote_ip := inet_ntop (fst (cn_peer conn))\<rparr>;
           i = select_server cfg req;
           server = c_servers cfg ! i;
           (conn, req, rc) = module_run_request_handlers (ws_modules ws) (conn\<lparr>cn_request := Some req\<rparr>) req cfg
       in if rc = NP_MODULE_HANDLED then
            ws_access_log (he_log env) req 200 (he_start env) (set_conn p (conn\<lparr>cn_request := Some req\<rparr>) ws)
          else
            mbind (rewrite_rules (he_regexec env) (he_arena env) conn req (srv_rewrite server)) (\<lambda>(conn, req).
              handler_route env p i server (conn\<lparr>cn_request := Some req\<rparr>) req ws))"

section \<open>The server\<close>

text \<open>The servers whose name is the host, in the order of the configuration.\<close>

definition named_servers :: "np_config_t \<Rightarrow> string \<Rightarrow> nat list" where
  "named_servers cfg host =
     filter (\<lambda>i. srv_server_name (c_servers cfg ! i) \<noteq> [] \<and> srv_server_name (c_servers cfg ! i) = host) [0..<length (c_servers cfg)]"

lemma vhost_loop_filter:
  "vhost_loop ss host k =
     (case filter (\<lambda>i. srv_server_name (ss ! i) \<noteq> [] \<and> srv_server_name (ss ! i) = host) [0..<length ss] of
        [] \<Rightarrow> None | i # _ \<Rightarrow> Some (k + i))"
proof (induction ss arbitrary: k)
  case (Cons s ss)
  have up: "[0..<length (s # ss)] = 0 # map Suc [0..<length ss]" by (simp add: upt_conv_Cons map_Suc_upt del: upt_Suc)
  show ?case
    using Cons.IH [of "k + 1"] unfolding up by (auto simp: filter_map comp_def split: list.splits)
qed simp

lemma select_server_host:
  "request_header req ''Host'' = Some host \<Longrightarrow>
     select_server cfg req = (case named_servers cfg (host_name host) of [] \<Rightarrow> 0 | i # _ \<Rightarrow> i)"
  unfolding select_server_def named_servers_def by (simp add: vhost_loop_filter split: list.splits)

lemma select_server_bound: "c_servers cfg \<noteq> [] \<Longrightarrow> select_server cfg req < length (c_servers cfg)"
proof (cases "request_header req ''Host''")
  case (Some host)
  assume "c_servers cfg \<noteq> []"
  moreover have "i < length (c_servers cfg)" if "i \<in> set (named_servers cfg h)" for i h
    using that by (simp add: named_servers_def)
  ultimately show ?thesis unfolding select_server_host [OF Some]
    by (cases "named_servers cfg (host_name host)") (simp_all, metis list.set_intros(1))
qed (simp add: select_server_def)

section \<open>Rewriting\<close>

text \<open>What \<^verbatim>\<open>regexec\<close> promises: ten matches, each unset or within the text.\<close>

definition matches_ok :: "string \<Rightarrow> (int \<times> int) list \<Rightarrow> bool" where
  "matches_ok s ms \<longleftrightarrow> length ms = 10 \<and>
     list_all (\<lambda>(so, eo). so = -1 \<or> 0 \<le> so \<and> so \<le> eo \<and> eo \<le> int (length s)) ms"

definition regexec_ok :: "regexec \<Rightarrow> bool" where
  "regexec_ok f \<longleftrightarrow> (\<forall>pat s ms. f pat s = Some ms \<longrightarrow> matches_ok s ms)"

text \<open>The text of a group, and the replacement with every reference replaced, with no bound on the length.\<close>

definition group_text :: "string \<Rightarrow> int \<times> int \<Rightarrow> string" where
  "group_text s m = (if fst m = -1 then [] else take (nat (snd m - fst m)) (drop (nat (fst m)) s))"

fun expand_refs :: "string \<Rightarrow> (int \<times> int) list \<Rightarrow> string \<Rightarrow> string" where
  "expand_refs s ms (c # d # src) =
     (if c = CHR ''$'' \<and> isdigit d then group_text s (ms ! (of_char d - 48)) @ expand_refs s ms src
      else c # expand_refs s ms (d # src))"
| "expand_refs s ms src = src"

lemma match_text_result:
  assumes "matches_ok s ms" "length s \<le> length pb" "take (length s) pb = s" "i < 10" "length dst < 1023"
  shows "match_text pb (ms ! i) dst =
    Inr (if length dst + length (group_text s (ms ! i)) < 1023 then dst @ group_text s (ms ! i) else dst)"
proof -
  obtain so eo where m: "ms ! i = (so, eo)" by fastforce
  have b: "so = -1 \<or> 0 \<le> so \<and> so \<le> eo \<and> eo \<le> int (length s)"
    using assms(1,4) m by (auto simp: matches_ok_def list_all_length split: prod.splits)
  show ?thesis
  proof (cases "so = -1")
    case True
    then show ?thesis by (simp add: m match_text_def group_text_def assms(5))
  next
    case False
    with b have so: "0 \<le> so" "so \<le> eo" "eo \<le> int (length s)" by auto
    have "nat (eo - so) \<le> length s - nat so" using so by linarith
    then have "take (nat (eo - so)) (drop (nat so) pb) = take (nat (eo - so)) (drop (nat so) (take (length s) pb))"
      by (simp add: drop_take min_absorb1)
    then have g: "take (nat (eo - so)) (drop (nat so) pb) = group_text s (ms ! i)"
      unfolding assms(3) using False by (simp add: group_text_def m)
    have l: "length (group_text s (ms ! i)) = nat (eo - so)"
      using so False by (simp add: group_text_def m)
    show ?thesis using so False assms(2,5) l by (auto simp: m match_text_def Let_def g [unfolded m])
  qed
qed

lemma isdigit_index: "isdigit d \<Longrightarrow> (of_char d :: nat) - 48 < 10"
  unfolding isdigit_def Let_def by linarith

lemma take_length_cstr: "take (length (cstr s)) s = cstr s"
  unfolding cstr_def by (rule takeWhile_eq_take [symmetric])

lemma rewrite_loop_result:
  assumes "matches_ok s ms" "length s \<le> length pb" "take (length s) pb = s" "length dst \<le> 1023"
  shows "\<exists>w. rewrite_loop pb ms src dst = Inr w \<and> length w \<le> 1023 \<and>
    (length dst + length (expand_refs s ms src) < 1023 \<longrightarrow> w = dst @ expand_refs s ms src)"
  using assms
proof (induction pb ms src dst rule: rewrite_loop.induct)
  case (3 pb ms c d src dst)
  let ?m = "ms ! (of_char d - 48)"
  show ?case
  proof (cases "1023 \<le> length dst")
    case False
    show ?thesis
    proof (cases "c = CHR ''$'' \<and> isdigit d")
      case True
      let ?dst = "if length dst + length (group_text s ?m) < 1023 then dst @ group_text s ?m else dst"
      have m: "match_text pb ?m dst = Inr ?dst"
        using 3 True False isdigit_index [of d] by (intro match_text_result) simp_all
      have "length ?dst \<le> 1023" using 3 by simp
      with "3.IH"(1) [OF False True] 3 m obtain w where "rewrite_loop pb ms src ?dst = Inr w" "length w \<le> 1023"
        "length ?dst + length (expand_refs s ms src) < 1023 \<longrightarrow> w = ?dst @ expand_refs s ms src" by blast
      then show ?thesis using True False m by auto
    next
      case other: False
      have "length (dst @ [c]) \<le> 1023" using False by simp
      with "3.IH"(2) [OF False other] 3 show ?thesis using False other by auto
    qed
  qed (use 3 in auto)
qed auto

section \<open>The state stays well formed\<close>

text \<open>What the environment promises, and that modules leave a connection well formed.\<close>

definition handler_env_ok :: "handler_env \<Rightarrow> bool" where
  "handler_env_ok env \<longleftrightarrow> handler_alloc_ok (fst (pe_add (he_proxy env))) \<and> handler_alloc_ok (he_alloc env) \<and>
     kernel_write_ok (fe_write (he_file env)) \<and> fmt_f_ok (he_fmt_f env)"

definition modules_ok :: "loaded_module_t list \<Rightarrow> np_config_t \<Rightarrow> bool" where
  "modules_ok ms cfg \<longleftrightarrow> list_all (\<lambda>m. case md_request_handler (lm_module m) of None \<Rightarrow> True
      | Some f \<Rightarrow> \<forall>c r. conn_wf c \<longrightarrow> (case f c r cfg of (c', _, _) \<Rightarrow> conn_wf c')) ms"

lemma modules_ok_Nil [simp]: "modules_ok [] cfg"
  by (simp add: modules_ok_def)

lemma conn_wf_arena: "conn_wf c \<Longrightarrow> a_blocks a \<noteq> [] \<Longrightarrow> conn_wf (c\<lparr>cn_arena := a\<rparr>)"
  by (simp add: conn_wf_def conn_ok_def cache_copy_ok_def cong: option.case_cong)

lemma conn_wf_wbuf: "conn_wf c \<Longrightarrow> buf_ok b \<and> b_cap b = b_cap (cn_wbuf c) \<Longrightarrow> conn_wf (c\<lparr>cn_wbuf := b\<rparr>)"
  by (simp add: conn_wf_bufs)

lemma arena_alloc_ne: "a_blocks a \<noteq> [] \<Longrightarrow> arena_alloc a sz m = (a', x) \<Longrightarrow> a_blocks a' \<noteq> []"
  using alloc_keeps_last(1) [of a a' sz 8 m] by (simp add: arena_alloc_def)

lemma arena_alloc_some: "\<exists>a' x. arena_alloc a sz (Some p) = (a', Some x)"
  unfolding arena_alloc_def arena_alloc_aligned_def Let_def block_create_def by simp

lemma rewrite_rules_keeps:
  assumes "rewrite_rules regexec m conn req rules = Inr (conn', req')" "conn_wf conn"
  shows "conn_wf conn' \<and> (\<exists>a r. conn' = conn\<lparr>cn_arena := a\<rparr> \<and> req' = req\<lparr>req_path := r\<rparr>)"
  using assms
proof (induction rules)
  case Nil
  have "conn' = conn\<lparr>cn_arena := cn_arena conn\<rparr>" "req' = req\<lparr>req_path := req_path req\<rparr>" "conn_wf conn'" using Nil by simp_all
  then show ?case by blast
next
  case (Cons rule rules)
  show ?case
  proof (cases "regexec (rw_pattern rule) (cstr (take 1023 (req_path req)))")
    case None
    then show ?thesis using Cons by simp
  next
    case (Some ms)
    with Cons.prems(1) obtain w a x where w: "arena_alloc (cn_arena conn) (of_nat (length (cstr w)) + 1) m = (a, x)"
      "conn' = conn\<lparr>cn_arena := a\<rparr>" "req' = (case x of None \<Rightarrow> req | Some _ \<Rightarrow> req\<lparr>req_path := cstr w\<rparr>)"
      by (auto simp: Let_def elim!: mbind_InrE split: prod.splits)
    have "a_blocks (cn_arena conn) \<noteq> []" using Cons.prems(2) by (simp add: conn_wf_def conn_ok_def)
    then have "conn_wf conn'" unfolding w(2) by (intro conn_wf_arena Cons.prems(2) arena_alloc_ne [OF _ w(1)])
    moreover have "req' = req\<lparr>req_path := case x of None \<Rightarrow> req_path req | Some _ \<Rightarrow> cstr w\<rparr>" using w(3) by (cases x) simp_all
    ultimately show ?thesis using w(2) by blast
  qed
qed

lemma respond_error_keeps:
  assumes "respond_error env status p conn req ws = Inr ws'" "worker_ok ws" "conn_wf conn" "0 \<le> status" "status < 1000"
  shows "worker_ok ws'"
proof -
  from assms(1) obtain b w where b: "response_write_error (cn_wbuf conn) status (req_keep_alive req) = Inr b"
    and w: "ws_access_log (he_log env) req status (he_start env)
      (ws\<lparr>ws_hctx := (ws_hctx ws)\<lparr>hc_metrics := metrics_inc_requests (hc_metrics (ws_hctx ws)) status\<rparr>\<rparr>) = Inr w"
    and ws': "ws' = set_conn p (conn\<lparr>cn_wbuf := b, cn_state := CONN_WRITING_RESPONSE\<rparr>) w"
    unfolding respond_error_def by (auto simp: Let_def elim!: mbind_InrE)
  have "worker_ok w" using access_log_keeps [OF w] assms(2) by (auto simp: worker_ok_def hctx_ok_def emit_def)
  then show ?thesis unfolding ws' by (rule set_conn_ok) (use write_error_wf [OF b assms(3-5)] in simp)
qed

lemma log_keeps: "ws_access_log le req st start ws = Inr ws' \<Longrightarrow> worker_ok ws \<Longrightarrow> worker_ok ws'"
  using access_log_keeps by fastforce

lemma check_rate_keeps: "check_rate now req ws = (ws', b) \<Longrightarrow> worker_ok ws \<Longrightarrow> worker_ok ws'"
  by (auto simp: check_rate_def worker_ok_def hctx_ok_def split: option.splits prod.splits)

lemma look_up_frame:
  assumes "look_up env i server req ws = (ws', e)"
  shows "\<exists>f. ws' = ws\<lparr>ws_fs := f\<rparr>"
proof -
  have "ws' = ws\<lparr>ws_fs := ws_fs ws'\<rparr>"
    using assms by (auto simp: look_up_def split: option.splits if_splits prod.splits)
  then show ?thesis by blast
qed

lemma serve_entry_keeps:
  "serve_entry env p e conn req ws = Inr ws' \<Longrightarrow> worker_ok ws \<Longrightarrow> conn_wf conn \<Longrightarrow> worker_ok ws'"
  unfolding serve_entry_def
  by (elim mbind_InrE, erule log_keeps, rule set_conn_ok)
    (auto dest!: buf_try_memcpy_keeps simp: conn_wf_buf_ok intro: conn_wf_wbuf)

lemma loop_mod_keeps:
  assumes "loop_ok loop" "handler_alloc_ok f" "event_loop_mod loop fd ev fn p (f (el_heap loop)) k = Inr (loop', st)"
  shows "loop_ok loop'"
proof (cases "0 \<le> fd")
  case True
  from loop_ctl_put [OF assms(1) handler_alloc_fresh [OF assms(2)] True, of EPOLL_CTL_MOD ev fn p k] assms(3)
  show ?thesis unfolding event_loop_mod_def by auto
next
  case False
  then show ?thesis using assms(1,3) by (simp add: event_loop_mod_def loop_ctl_def loop_ok_def)
qed

lemma buf_put_fmt_keeps: "buf_put_fmt n b s = Inr b' \<Longrightarrow> buf_ok b \<Longrightarrow> buf_ok b' \<and> b_cap b' = b_cap b"
  by (auto simp: buf_put_fmt_def split: if_splits elim!: mbind_InrE dest: buf_memcpy_keeps)

text \<open>The three ways the file server answers.\<close>

lemma file_server_cases:
  assumes "file_server_handle env self conn loop req cfg = Inr (conn', loop', status, out, closed)"
  obtains (refused) b where "response_write_error (cn_wbuf conn) status (req_keep_alive req) = Inr b" "status = 403 \<or> status = 404"
      "conn' = conn\<lparr>cn_wbuf := b, cn_state := CONN_WRITING_RESPONSE\<rparr>" "loop' = loop" "out = []"
    | (same) b where "status = 304" "response_write_simple (cn_wbuf conn) 304 (Some ''Not Modified'') None None (req_keep_alive req) = Inr b"
      "conn' = conn\<lparr>cn_wbuf := b, cn_state := CONN_WRITING_RESPONSE\<rparr>" "loop' = loop" "out = []"
    | (found) mime st b1 b2 n s fd where "buf_put_fmt 512 (cn_wbuf conn) (file_head mime st (req_keep_alive req)) = Inr b1"
      "buf_send (fe_write env) b1 = Inr (b2, n, out)"
      "event_loop_mod loop (cn_fd conn) (EV_WRITE OR EV_READ OR EV_HUP OR EV_EDGE) On_client_event self (fe_malloc env) (fe_epoll env) = Inr (loop', s)"
      "conn' = conn\<lparr>cn_wbuf := b2, cn_file_fd := fd, cn_file_offset := 0, cn_file_remaining := st_size st, cn_state := CONN_SENDFILE\<rparr>"
proof (cases "path_is_safe (cstr (take (min (length (req_path req)) 4095) (req_path req)))")
  case False
  then have "mbind (response_write_error (cn_wbuf conn) 403 (req_keep_alive req))
      (\<lambda>b. Inr (conn\<lparr>cn_wbuf := b, cn_state := CONN_WRITING_RESPONSE\<rparr>, loop, 403, [], [])) = Inr (conn', loop', status, out, closed)"
    using assms by (simp add: file_server_handle_def)
  then show ?thesis by (elim mbind_InrE) (rule refused, auto)
next
  case True
  then obtain x where x: "(case x of (found, closed0) \<Rightarrow>
      case found of
        None \<Rightarrow> mbind (response_write_error (cn_wbuf conn) 404 (req_keep_alive req))
          (\<lambda>b. Inr (conn\<lparr>cn_wbuf := b, cn_state := CONN_WRITING_RESPONSE\<rparr>, loop, 404, [], closed0))
      | Some (resolved, fd, st) \<Rightarrow>
          if (case request_header req ''If-None-Match'' of None \<Rightarrow> [] | Some s \<Rightarrow> s) \<noteq> [] \<and>
             cstr (take 63 (case request_header req ''If-None-Match'' of None \<Rightarrow> [] | Some s \<Rightarrow> s)) = etag_from_stat st
          then mbind (response_write_simple (cn_wbuf conn) 304 (Some ''Not Modified'') None None (req_keep_alive req))
            (\<lambda>b. Inr (conn\<lparr>cn_wbuf := b, cn_state := CONN_WRITING_RESPONSE\<rparr>, loop, 304, [], closed0 @ [fd]))
          else mbind (buf_put_fmt 512 (cn_wbuf conn) (file_head (mime_by_extension (file_extension resolved)) st (req_keep_alive req))) (\<lambda>wbuf.
            mbind (buf_send (fe_write env) wbuf) (\<lambda>(wbuf, _, sent).
            mbind (event_loop_mod loop (cn_fd conn) (EV_WRITE OR EV_READ OR EV_HUP OR EV_EDGE)
              On_client_event self (fe_malloc env) (fe_epoll env)) (\<lambda>(loop, _).
              Inr (conn\<lparr>cn_wbuf := wbuf, cn_file_fd := fd, cn_file_offset := 0,
                  cn_file_remaining := st_size st, cn_state := CONN_SENDFILE\<rparr>, loop, 200, sent, closed0))))) =
      Inr (conn', loop', status, out, closed)"
    using assms unfolding file_server_handle_def Let_def
    by (simp only: not_True_eq_False if_False) (elim mbind_InrE, blast)
  obtain f c where [simp]: "x = (f, c)" by fastforce
  show ?thesis
  proof (cases f)
    case None
    with x show ?thesis by (simp, elim mbind_InrE) (rule refused, auto)
  next
    case (Some a)
    obtain path fd st where [simp]: "f = Some (path, fd, st)" using Some by (cases a) auto
    from x show ?thesis
      by (simp split: if_split_asm, elim mbind_InrE) (rule same, auto elim!: mbind_InrE split: prod.split_asm intro: found)
  qed
qed

lemma file_server_keeps:
  assumes "file_server_handle env self conn loop req cfg = Inr (conn', loop', status, out, closed)" "conn_wf conn" "loop_ok loop"
    "kernel_write_ok (fe_write env)" "fe_malloc env = f (el_heap loop)" "handler_alloc_ok f"
  shows "conn_wf conn' \<and> loop_ok loop'"
  using assms(1)
proof (cases rule: file_server_cases)
  case (refused b)
  have "conn_wf (conn\<lparr>cn_wbuf := b\<rparr>)" using refused(2) by (intro write_error_wf [OF refused(1) assms(2)]) auto
  then show ?thesis using assms(3) refused by simp
next
  case (same b)
  have "buf_ok b \<and> b_cap b = b_cap (cn_wbuf conn)"
    using write_not_modified [of "cn_wbuf conn" "req_keep_alive req"] same(2) conn_wf_buf_ok [OF assms(2)] by auto
  then show ?thesis using same conn_wf_wbuf [OF assms(2)] assms(3) by simp
next
  case (found mime st b1 b2 n s fd)
  have b1: "buf_ok b1" "b_cap b1 = b_cap (cn_wbuf conn)" using buf_put_fmt_keeps [OF found(1)] conn_wf_buf_ok [OF assms(2)] by auto
  note b2 = buf_send_keeps [OF found(2) b1(1) assms(4)]
  have "conn_wf (conn\<lparr>cn_wbuf := b2\<rparr>)" using b1 b2 by (intro conn_wf_wbuf assms(2)) simp
  then show ?thesis using loop_mod_keeps [OF assms(3,6) found(3) [unfolded assms(5)]] found(4) by simp
qed

lemma serve_static_keeps:
  assumes "serve_static env p server conn req ws = Inr ws'" "worker_ok ws" "conn_wf conn" "handler_env_ok env"
  shows "worker_ok ws'"
proof -
  let ?fe = "(he_file env)\<lparr>fe_malloc := he_alloc env (el_heap (ws_loop ws))\<rparr>"
  from assms(1) obtain c loop st out closed where 1: "file_server_handle ?fe p conn (ws_loop ws) req server = Inr (c, loop, st, out, closed)"
    and 2: "ws_access_log (he_log env) req st (he_start env)
      (emit (map Closed closed @ sent (cn_fd c) out) (set_conn p c (ws\<lparr>ws_loop := loop\<rparr>))) = Inr ws'"
    unfolding serve_static_def by (auto elim!: mbind_InrE)
  have "loop_ok (ws_loop ws)" using assms(2) by (simp add: worker_ok_def)
  from file_server_keeps [OF 1 assms(3) this, of "he_alloc env"] assms(4) have "conn_wf c" "loop_ok loop"
    by (simp_all add: handler_env_ok_def)
  then show ?thesis by (intro log_keeps [OF 2]) (simp add: set_conn_ok worker_ok_loop assms(2))
qed

lemma note_cache_key_wf [simp]: "conn_wf (note_cache_key i server req ws conn) = conn_wf conn"
  by (simp add: note_cache_key_def)

lemma metrics_route_keeps:
  "metrics_handle f m conn req = Inr conn' \<Longrightarrow> fmt_f_ok f \<Longrightarrow> conn_wf conn \<Longrightarrow> conn_wf conn'"
  using metrics_handle_ok [of conn f m req] by (auto simp: conn_wf_def cache_copy_ok_def cong: option.case_cong)

lemma health_route_keeps: "health_handle conn req = Inr conn' \<Longrightarrow> conn_wf conn \<Longrightarrow> conn_wf conn'"
  using health_handle_ok [of conn req] by (auto simp: conn_wf_def cache_copy_ok_def cong: option.case_cong)

lemma handler_route_keeps:
  assumes r: "handler_route env p i server conn req ws = Inr ws'" and ok: "worker_ok ws" and c: "conn_wf conn"
    and env: "handler_env_ok env"
  shows "worker_ok ws'"
proof -
  obtain w al where w: "check_rate (he_rate_time env) req ws = (w, al)" by fastforce
  note wok = check_rate_keeps [OF w ok]
  obtain w2 e where l: "look_up env i server req w = (w2, e)" by fastforce
  have w2: "worker_ok w2" using look_up_frame [OF l] wok by auto
  have f: "fmt_f_ok (he_fmt_f env)" "handler_alloc_ok (fst (pe_add (he_proxy env)))" using env by (simp_all add: handler_env_ok_def)
  from r consider (limited) "respond_error env 429 p conn req w = Inr ws'"
    | (metrics) c2 where "metrics_handle (he_fmt_f env) (the (hc_metrics (ws_hctx w))) conn req = Inr c2"
        "ws_access_log (he_log env) req 200 (he_start env) (set_conn p c2 w) = Inr ws'"
    | (health) c2 where "health_handle conn req = Inr c2" "ws_access_log (he_log env) req 200 (he_start env) (set_conn p c2 w) = Inr ws'"
    | (cache) x where "serve_entry env p x conn req w2 = Inr ws'"
    | (proxy) pool where "proxy_handle (he_proxy env) p i pool req (set_conn p (note_cache_key i server req w2 conn) w2) = Inr ws'"
    | (static) "serve_static env p server conn req w2 = Inr ws'"
    | (none) "respond_error env 404 p conn req w2 = Inr ws'"
    unfolding handler_route_def w Let_def prod.case l
    by (cases e) (auto split: if_split_asm elim!: mbind_InrE)
  then show ?thesis
  proof cases
    case limited
    then show ?thesis by (rule respond_error_keeps [OF _ wok c]) simp_all
  next
    case metrics
    then show ?thesis by (intro log_keeps [OF metrics(2)] set_conn_ok wok metrics_route_keeps [OF metrics(1) f(1) c])
  next
    case health
    then show ?thesis by (intro log_keeps [OF health(2)] set_conn_ok wok health_route_keeps [OF health(1) c])
  next
    case cache
    then show ?thesis by (rule serve_entry_keeps [OF _ w2 c])
  next
    case proxy
    then show ?thesis by (intro proxy_handle_keeps [OF _ f(2) proxy] set_conn_ok w2) (simp add: c)
  next
    case static
    then show ?thesis by (rule serve_static_keeps [OF _ w2 c env])
  next
    case none
    then show ?thesis by (rule respond_error_keeps [OF _ w2 c]) simp_all
  qed
qed

lemma handler_dispatch_keeps:
  assumes r: "handler_dispatch env p req ws = Inr ws'" and ok: "worker_ok ws" and env: "handler_env_ok env"
    and ms: "modules_ok (ws_modules ws) (ws_config ws)"
  shows "worker_ok ws'"
proof -
  from r obtain conn where c: "ws_conns ws p = Some conn"
    unfolding handler_dispatch_def by (auto elim!: mbind_InrE simp: conn_at_Inr)
  define req1 where "req1 = req\<lparr>req_remote_ip := inet_ntop (fst (cn_peer conn))\<rparr>"
  define i where "i = select_server (ws_config ws) req1"
  obtain c1 r1 rc where m: "module_run_request_handlers (ws_modules ws) (conn\<lparr>cn_request := Some req1\<rparr>) req1 (ws_config ws) = (c1, r1, rc)"
    by (metis prod_cases3)
  have "conn_wf c1"
    by (rule module_handlers_keep [where P = "\<lambda>c _. conn_wf c", OF _ _ m])
      (use ms conn_at_wf [OF ok c] in \<open>simp_all add: modules_ok_def case_prod_unfold cong: option.case_cong\<close>)
  show ?thesis
  proof (cases "rc = NP_MODULE_HANDLED")
    case True
    then have "ws_access_log (he_log env) r1 200 (he_start env) (set_conn p (c1\<lparr>cn_request := Some r1\<rparr>) ws) = Inr ws'"
      using r c m by (simp add: handler_dispatch_def conn_at_def req1_def Let_def)
    then show ?thesis by (rule log_keeps) (simp add: set_conn_ok ok \<open>conn_wf c1\<close>)
  next
    case False
    then obtain c2 r2 where 2: "rewrite_rules (he_regexec env) (he_arena env) c1 r1 (srv_rewrite (c_servers (ws_config ws) ! i)) = Inr (c2, r2)"
      "handler_route env p i (c_servers (ws_config ws) ! i) (c2\<lparr>cn_request := Some r2\<rparr>) r2 ws = Inr ws'"
      using r c m by (auto simp: handler_dispatch_def conn_at_def req1_def i_def Let_def elim!: mbind_InrE)
    from rewrite_rules_keeps [OF 2(1) \<open>conn_wf c1\<close>] show ?thesis by (intro handler_route_keeps [OF 2(2) ok _ env]) simp
  qed
qed

section \<open>What a request reaches\<close>

text \<open>Server \<open>j\<close> has the name in the Host header, read up to a colon.\<close>

definition names_host :: "np_config_t \<Rightarrow> http_request_t \<Rightarrow> nat \<Rightarrow> bool" where
  "names_host cfg req j \<longleftrightarrow>
     (case request_header req ''Host'' of
        None \<Rightarrow> False
      | Some h \<Rightarrow> srv_server_name (c_servers cfg ! j) \<noteq> [] \<and>
          srv_server_name (c_servers cfg ! j) = takeWhile (\<lambda>c. c \<noteq> CHR '':'') (cstr (take 255 h)))"

lemma memchr_takeWhile: "(case memchr c s of None \<Rightarrow> s | Some k \<Rightarrow> take k s) = takeWhile (\<lambda>x. x \<noteq> c) s"
  by (induction s) (auto split: option.splits)

lemma host_name_takeWhile: "host_name h = takeWhile (\<lambda>c. c \<noteq> CHR '':'') (cstr (take 255 h))"
  unfolding host_name_def strchr_def Let_def cstr_idem by (rule memchr_takeWhile)

lemma filter_upt_first:
  assumes "filter P [0..<n] = i # js"
  shows "i < n \<and> P i \<and> (\<forall>j < i. \<not> P j)"
proof -
  from assms obtain us vs where us: "[0..<n] = us @ i # vs" "\<forall>u \<in> set us. \<not> P u" "P i"
    unfolding filter_eq_Cons_iff by blast
  have len: "length us < n" using arg_cong [OF us(1), of length] by simp
  have nth: "[0..<n] ! j = j" if "j < n" for j using that by simp
  have "i = length us" using nth [OF len] by (simp add: us(1))
  moreover have "us ! j = j" if "j < length us" for j using nth [of j] len that by (simp add: us(1) nth_append)
  ultimately show ?thesis using us(2,3) len by (metis nth_mem)
qed

text \<open>
  C36: The server of a request is the first one, in the order of the configuration, whose name is the
  host of the request without its port, and the first server when there is none or no Host header;
  it is always one of the configuration.
\<close>

theorem select_server_first:
  assumes "c_servers cfg \<noteq> []"
  shows "select_server cfg req < length (c_servers cfg) \<and>
    (if \<exists>j. j < length (c_servers cfg) \<and> names_host cfg req j
     then names_host cfg req (select_server cfg req) \<and> (\<forall>j. j < select_server cfg req \<longrightarrow> \<not> names_host cfg req j)
     else select_server cfg req = 0)"
proof (cases "request_header req ''Host''")
  case None
  then show ?thesis using assms by (simp add: select_server_def names_host_def)
next
  case (Some h)
  let ?P = "names_host cfg req"
  have n: "named_servers cfg (host_name h) = filter ?P [0..<length (c_servers cfg)]"
    unfolding named_servers_def by (rule filter_cong) (simp_all add: names_host_def Some host_name_takeWhile)
  show ?thesis
  proof (cases "filter ?P [0..<length (c_servers cfg)]")
    case Nil
    then have "\<not> (\<exists>j. j < length (c_servers cfg) \<and> ?P j)" by (auto simp: filter_empty_conv)
    then show ?thesis using assms by (simp add: select_server_host [OF Some] n Nil)
  next
    case (Cons i js)
    from filter_upt_first [OF this] show ?thesis by (auto simp: select_server_host [OF Some] n Cons)
  qed
qed

definition demo_hosts :: np_config_t where
  "demo_hosts = config_defaults\<lparr>c_servers := [server_zero, server_zero\<lparr>srv_server_name := ''a.org''\<rparr>, server_zero\<lparr>srv_server_name := ''b.org''\<rparr>]\<rparr>"

definition demo_get :: "string \<Rightarrow> string \<Rightarrow> http_request_t" where
  "demo_get host path = (demo_request path)\<lparr>req_headers := [\<lparr>hdr_name = ''Host'', hdr_value = host\<rparr>]\<rparr>"

theorem select_server_first_witness:
  "c_servers demo_hosts \<noteq> [] \<and> names_host demo_hosts (demo_get ''b.org:8080'' ''/'') (select_server demo_hosts (demo_get ''b.org:8080'' ''/'')) \<and>
     select_server demo_hosts (demo_get ''c.org'' ''/'') = 0"
proof -
  have ne: "c_servers demo_hosts \<noteq> []" by (simp add: demo_hosts_def)
  have "names_host demo_hosts (demo_get ''b.org:8080'' ''/'') 2" "2 < length (c_servers demo_hosts)" by code_simp+
  moreover have "\<not> (\<exists>j. j < length (c_servers demo_hosts) \<and> names_host demo_hosts (demo_get ''c.org'' ''/'') j)"
  proof -
    have "\<not> list_ex (names_host demo_hosts (demo_get ''c.org'' ''/'')) [0..<length (c_servers demo_hosts)]" by code_simp
    then show ?thesis by (auto simp: list_ex_iff)
  qed
  ultimately show ?thesis
    using ne select_server_first [OF ne, of "demo_get ''b.org:8080'' ''/''"] select_server_first [OF ne, of "demo_get ''c.org'' ''/''"] by metis
qed

text \<open>
  C30: Rewriting applies the first rule whose pattern matches the path and no other. The new path is the
  replacement with every reference replaced by the text of its group, when that has less than 1023
  bytes; a longer one is cut, and no byte is read or written outside the arrays.
\<close>

theorem rewrite_first_rule:
  assumes "regexec_ok regexec" and "path = cstr (take 1023 (req_path req))"
  shows "\<exists>conn' req'. rewrite_rules regexec (Some addr) conn req rules = Inr (conn', req') \<and>
    (case find (\<lambda>r. regexec (rw_pattern r) path \<noteq> None) rules of
       None \<Rightarrow> conn' = conn \<and> req' = req
     | Some r \<Rightarrow> length (req_path req') \<le> 1023 \<and>
         (let new = expand_refs path (the (regexec (rw_pattern r) path)) (rw_replacement r)
          in length new < 1023 \<longrightarrow> req' = req\<lparr>req_path := cstr new\<rparr>))"
proof (induction rules)
  case (Cons r rules)
  let ?pb = "take 1023 (req_path req)"
  show ?case
  proof (cases "regexec (rw_pattern r) path")
    case None
    then show ?thesis using Cons by (simp add: assms(2) cong: option.case_cong)
  next
    case (Some ms)
    then have "matches_ok path ms" using assms(1) by (auto simp: regexec_ok_def)
    from rewrite_loop_result [OF this, of ?pb "[]" "rw_replacement r"]
    obtain w where w: "rewrite_loop ?pb ms (rw_replacement r) [] = Inr w" "length w \<le> 1023"
      "length (expand_refs path ms (rw_replacement r)) < 1023 \<longrightarrow> w = expand_refs path ms (rw_replacement r)"
      using length_cstr_le [of ?pb] take_length_cstr [of ?pb] by (auto simp flip: assms(2))
    obtain a x where a: "arena_alloc (cn_arena conn) (of_nat (length (cstr w)) + 1) (Some addr) = (a, Some x)"
      using arena_alloc_some by blast
    have "length (cstr w) \<le> 1023" using w(2) length_cstr_le [of w] by linarith
    then show ?thesis using Some w(1,3) a by (simp add: Let_def flip: assms(2))
  qed
qed simp

text \<open>One match, of everything after a prefix of four bytes.\<close>

definition demo_regexec :: regexec where
  "demo_regexec pat s = (if take (length pat) s = pat
     then Some ((0, int (length s)) # (int (length pat), int (length s)) # replicate 8 (-1, -1)) else None)"

lemma demo_regexec_ok: "regexec_ok demo_regexec"
proof -
  have "length pat \<le> length s" if "take (length pat) s = pat" for pat s :: string using that by (metis length_take min.cobounded1)
  then show ?thesis by (auto simp: regexec_ok_def demo_regexec_def matches_ok_def list_all_iff split: if_splits)
qed

theorem rewrite_first_rule_witness:
  "regexec_ok demo_regexec \<and>
   (\<exists>conn' req'. rewrite_rules demo_regexec (Some 4096) (demo_conn 5) (demo_request ''/old/x'')
      [\<lparr>rw_pattern = ''/img'', rw_replacement = ''/i''\<rparr>, \<lparr>rw_pattern = ''/old'', rw_replacement = ''/new$1?''\<rparr>] = Inr (conn', req') \<and>
    req_path req' = ''/new/x?'')"
proof -
  let ?rules = "[\<lparr>rw_pattern = ''/img'', rw_replacement = ''/i''\<rparr>, \<lparr>rw_pattern = ''/old'', rw_replacement = ''/new$1?''\<rparr>]"
  have "find (\<lambda>r. demo_regexec (rw_pattern r) ''/old/x'' \<noteq> None) ?rules = Some (?rules ! 1)" by code_simp
  moreover have "expand_refs ''/old/x'' (the (demo_regexec (rw_pattern (?rules ! 1)) ''/old/x'')) (rw_replacement (?rules ! 1)) = ''/new/x?''"
    by code_simp
  moreover have "''/old/x'' = cstr (take 1023 (req_path (demo_request ''/old/x'')))" "cstr ''/new/x?'' = ''/new/x?''" by code_simp+
  ultimately show ?thesis
    using rewrite_first_rule [OF demo_regexec_ok, of "''/old/x''" "demo_request ''/old/x''" 4096 "demo_conn 5" ?rules] demo_regexec_ok
    by (auto simp del: rewrite_rules.simps find.simps)
qed

end
