(* ===== verification/Dispatch.thy ===== *)
theory Dispatch
  imports Handler
begin

text \<open>
  Two properties of the dispatcher on the whole state of the worker: a request over the rate limit
  touches nothing but its own connection, and a connection that served a cached server carries the
  key of the cache over to its next client.
\<close>

section \<open>Refused requests\<close>

lemma access_log_trace:
  assumes "ws_access_log le req st start ws = Inr ws'"
  obtains log where "log = [] \<or> (\<exists>line. log = [Logged line])" "ws' = emit log ws"
proof -
  from assms obtain line where "ws' = emit (if line = [] then [] else [Logged line]) ws"
    unfolding ws_access_log_def by (elim mbind_InrE) blast
  then show ?thesis using that [of "if line = [] then [] else [Logged line]"] by simp
qed

lemma dispatch_no_modules:
  assumes "handler_dispatch env p req ws = Inr ws'" "ws_conns ws p = Some conn" "ws_modules ws = []" "conn_wf conn"
  obtains i server a path where
    "handler_route env p i server (conn\<lparr>cn_arena := a, cn_request := Some (req\<lparr>req_remote_ip := inet_ntop (fst (cn_peer conn)), req_path := path\<rparr>)\<rparr>)
       (req\<lparr>req_remote_ip := inet_ntop (fst (cn_peer conn)), req_path := path\<rparr>) ws = Inr ws'"
    "i = select_server (ws_config ws) (req\<lparr>req_remote_ip := inet_ntop (fst (cn_peer conn))\<rparr>)" "server = c_servers (ws_config ws) ! i"
    "conn_wf (conn\<lparr>cn_arena := a\<rparr>)"
proof -
  define r1 where "r1 = req\<lparr>req_remote_ip := inet_ntop (fst (cn_peer conn))\<rparr>"
  define i where "i = select_server (ws_config ws) r1"
  define server where "server = c_servers (ws_config ws) ! i"
  from assms(1) obtain c2 r2 where
    2: "rewrite_rules (he_regexec env) (he_arena env) (conn\<lparr>cn_request := Some r1\<rparr>) r1 (srv_rewrite server) = Inr (c2, r2)"
      "handler_route env p i server (c2\<lparr>cn_request := Some r2\<rparr>) r2 ws = Inr ws'"
    by (auto simp: handler_dispatch_def conn_at_def assms(2,3) r1_def i_def server_def Let_def elim!: mbind_InrE)
  have "conn_wf (conn\<lparr>cn_request := Some r1\<rparr>)" using assms(4) by simp
  from rewrite_rules_keeps [OF 2(1) this] obtain a path where c: "conn_wf c2" "c2 = conn\<lparr>cn_request := Some r1, cn_arena := a\<rparr>"
    "r2 = r1\<lparr>req_path := path\<rparr>" by blast
  have "c2 = (conn\<lparr>cn_arena := a\<rparr>)\<lparr>cn_request := Some r1\<rparr>" unfolding c(2) by simp
  with c(1) have wf: "conn_wf (conn\<lparr>cn_arena := a\<rparr>)" by simp
  show ?thesis
    by (rule that [where i = i and server = server and a = a and path = path]) (use 2(2) c(2,3) wf in \<open>simp_all add: r1_def i_def server_def\<close>)
qed


lemma access_log_total:
  assumes "access_args_ok req st start (le_stop le) (le_tsbuf le)" "length (req_path req) \<le> 870" "0 \<le> ws_access_fd ws"
  shows "\<exists>log. ws_access_log le req st start ws = Inr (emit log ws)"
  using access_log_write_fits [OF assms, of 0] by (auto simp: ws_access_log_def)

text \<open>The environment of a dispatch, with a kernel that takes all bytes and no file.\<close>

definition demo_handler_env :: handler_env where
  "demo_handler_env = \<lparr>he_start = \<lparr>ts_sec = 5, ts_nsec = 0\<rparr>, he_log = demo_log_env, he_regexec = demo_regexec, he_arena = Some 8192,
     he_rate_time = 100, he_cache_time = 100, he_fmt_f = \<lambda>_. [], he_lookup = lookup_ok,
     he_proxy = \<lparr>pe_socket = 8, pe_connect = \<lambda>_. Connect_ok, pe_add = (demo_alloc 9, True)\<rparr>,
     he_file = \<lparr>fe_open = \<lambda>_. -1, fe_stat = \<lambda>_. None, fe_write = \<lambda>t. Write_n (length t), fe_malloc = None, fe_epoll = True\<rparr>,
     he_alloc = demo_alloc 9\<rparr>"

definition demo_limiter :: rate_limiter where
  "demo_limiter = \<lparr>rl_table = \<lambda>_. \<lparr>rl_ip = [], rl_tokens = 0, rl_last_refill = 0, rl_used = False\<rparr>, rl_rate = 1, rl_burst = 0\<rparr>"

definition demo_limited :: worker_state_t where
  "demo_limited = (let ws = demo_worker config_defaults (demo_conn 5)
     in ws\<lparr>ws_hctx := (ws_hctx ws)\<lparr>hc_rate_limiter := Some demo_limiter\<rparr>\<rparr>)"

lemma respond_error_total:
  assumes "conn_wf conn" "0 \<le> status" "status < 1000" "0 \<le> ws_access_fd ws" "length (req_path req) \<le> 870"
    "access_args_ok req status (he_start env) (le_stop (he_log env)) (le_tsbuf (he_log env))"
  shows "\<exists>ws'. respond_error env status p conn req ws = Inr ws'"
proof -
  let ?ws = "ws\<lparr>ws_hctx := (ws_hctx ws)\<lparr>hc_metrics := metrics_inc_requests (hc_metrics (ws_hctx ws)) status\<rparr>\<rparr>"
  obtain b where "response_write_error (cn_wbuf conn) status (req_keep_alive req) = Inr b"
    using write_error_ok [OF conn_wf_buf_ok(2) [OF assms(1)], of status "req_keep_alive req"] assms(2,3) by auto
  moreover obtain log where "ws_access_log (he_log env) req status (he_start env) ?ws = Inr (emit log ?ws)"
    using access_log_total [OF assms(6,5), of ?ws] assms(4) by auto
  ultimately show ?thesis by (simp add: respond_error_def)
qed

lemma demo_limited_dispatch: "\<exists>ws'. handler_dispatch demo_handler_env 0 (demo_request ''/a'') demo_limited = Inr ws'"
proof -
  define r1 where "r1 = (demo_request ''/a'')\<lparr>req_remote_ip := inet_ntop 0\<rparr>"
  define c1 where "c1 = (demo_conn 5)\<lparr>cn_request := Some r1\<rparr>"
  have "access_args_ok r1 429 (he_start demo_handler_env) (le_stop (he_log demo_handler_env)) (le_tsbuf (he_log demo_handler_env))"
    using length_inet_ntop [of 0]
    by (simp add: access_args_ok_def r1_def demo_request_def request_zero_def demo_handler_env_def demo_log_env_def)
  moreover have "conn_wf c1" using demo_conn_ok(2) by (simp add: c1_def)
  moreover have "length (req_path r1) \<le> 870" by (simp add: r1_def demo_request_def)
  ultimately have e: "\<exists>ws'. respond_error demo_handler_env 429 0 c1 r1 w = Inr ws'" if "ws_access_fd w = 1" for w
    using respond_error_total [of c1 429 w r1 demo_handler_env 0] that by simp
  have peer: "(demo_request ''/a'')\<lparr>req_remote_ip := inet_ntop (fst (cn_peer (demo_conn 5)))\<rparr> = r1"
    by (simp add: r1_def demo_conn_def conn_zero_def)
  have "conn_at demo_limited 0 = Inr (demo_conn 5)" "ws_modules demo_limited = []" "select_server (ws_config demo_limited) r1 = 0"
      "srv_rewrite (c_servers (ws_config demo_limited) ! 0) = []"
    by (simp_all add: demo_limited_def demo_worker_def conn_at_def Let_def select_server_def r1_def demo_request_def request_zero_def
        request_header_def config_defaults_def server_zero_def)
  then have d: "handler_dispatch demo_handler_env 0 (demo_request ''/a'') demo_limited =
      handler_route demo_handler_env 0 0 (c_servers (ws_config demo_limited) ! 0) c1 r1 demo_limited"
    by (simp add: handler_dispatch_def peer c1_def)
  obtain w where w: "check_rate (he_rate_time demo_handler_env) r1 demo_limited = (w, False)" "ws_access_fd w = 1"
    by (simp add: check_rate_def demo_limited_def demo_worker_def demo_limiter_def Let_def rate_limit_check_def)
  show ?thesis using e [OF w(2)] by (simp add: d handler_route_def w(1))
qed


section \<open>The key of the cache\<close>

text \<open>What the proxy leaves of the fields that name the entry of the cache.\<close>

definition same_entry :: "conn_t \<Rightarrow> conn_t \<Rightarrow> bool" where
  "same_entry c c' \<longleftrightarrow> cn_cache_store c' = cn_cache_store c \<and> cn_cache_key c' = cn_cache_key c"

lemma upstream_error_entry:
  "upstream_error status p conn req ws = Inr ws' \<Longrightarrow>
     (\<exists>c'. ws_conns ws' p = Some c' \<and> same_entry conn c') \<and> hc_cache_stores (ws_hctx ws') = hc_cache_stores (ws_hctx ws)"
  unfolding upstream_error_def by (auto simp: same_entry_def set_conn_def elim!: mbind_InrE)

lemma proxy_handle_entry:
  assumes r: "proxy_handle env p pi pool req ws = Inr ws'" and c: "ws_conns ws p = Some conn" and wf: "conn_wf conn"
  shows "(\<exists>c'. ws_conns ws' p = Some c' \<and> same_entry conn c') \<and> hc_cache_stores (ws_hctx ws') = hc_cache_stores (ws_hctx ws)"
proof -
  obtain pool1 be where sel: "upstream_select pool = (pool1, be)" by fastforce
  show ?thesis
  proof (cases be)
    case None
    then have "upstream_error 503 p (conn\<lparr>cn_proxy_pool := Some pi\<rparr>) req (set_upstream_pool pi pool1 ws) = Inr ws'"
      using r c sel by (simp add: proxy_handle_def conn_at_def)
    from upstream_error_entry [OF this] show ?thesis by (simp add: same_entry_def set_upstream_pool_def)
  next
    case (Some i)
    obtain st k closed where so: "socket_connect_nonblock (ub_host (up_backends pool1 ! i)) (ub_port (up_backends pool1 ! i))
        (pe_socket env) (pe_connect env) = (st, k, closed)" by (metis prod_cases3)
    obtain pool2 ufd where get: "upstream_get_connection pool1 i k = (pool2, ufd)" by fastforce
    define w1 where "w1 = emit (if 0 < length (ub_idle_fds (up_backends pool1 ! i)) then [] else map Closed closed) ws"
    show ?thesis
    proof (cases ufd)
      case None
      then have "upstream_error 502 p (conn\<lparr>cn_proxy_pool := Some pi\<rparr>) req
          (set_upstream_pool pi (upstream_release pool2 (Some i) True) w1) = Inr ws'"
        using r c sel Some so get by (simp add: proxy_handle_def conn_at_def w1_def Let_def)
      from upstream_error_entry [OF this] show ?thesis by (simp add: same_entry_def set_upstream_pool_def w1_def)
    next
      case u: (Some u)
      define c1 where "c1 = conn\<lparr>cn_proxy_pool := Some pi, cn_tls_conn := Some i, cn_upstream_fd := u\<rparr>"
      have "conn_wf c1" using wf by (simp add: c1_def)
      obtain c2 loop where 2: "build_proxy_request c1 req = Inr c2"
        "ws' = (set_conn p (c2\<lparr>cn_state := if req_upgrade req then CONN_TUNNEL else CONN_PROXYING\<rparr>) (set_upstream_pool pi pool2 w1))
           \<lparr>ws_loop := loop\<rparr>"
        using r c sel Some so get u
        by (auto simp: proxy_handle_def conn_at_def w1_def c1_def conn_set_upstream_def set_upstream_pool_def Let_def elim!: mbind_InrE)
      obtain b where "c2 = c1\<lparr>cn_upstream_wbuf := b\<rparr>" by (rule build_proxy_request_keeps [OF 2(1) \<open>conn_wf c1\<close>]) (rule that)
      then show ?thesis unfolding 2(2) by (simp add: same_entry_def c1_def set_upstream_pool_def w1_def)
    qed
  qed
qed

lemma conn_reset_wf: "conn_wf c \<Longrightarrow> conn_wf (conn_reset c fd peer)"
  using conn_reset_ok [of c fd peer] cache_copy_ok_cong [of "conn_reset c fd peer" c]
  by (cases peer) (simp_all add: conn_wf_def conn_reset_def conn_init_bufs_def)

lemma cache_copy_length: "cache_copy_ok c \<Longrightarrow> length (cache_copy c) \<le> 2 ^ 62"
  by (auto simp: cache_copy_ok_def cache_copy_def word_le_nat_alt split: option.splits)

lemma store_copy_stores:
  assumes "cache_copy_ok c" "cache_copy c \<noteq> []" "cn_cache_store c = Some k" "hc_cache_stores (ws_hctx ws) ! k = Some store"
  shows "\<exists>c'. store_copy env c ws = Inr (c', ws\<lparr>ws_fs := fst (cache_insert store (cn_cache_key c) 200 (cache_copy c) [] 10
    (ue_pad env) (ws_fs ws) (ue_time env) (ue_insert env))\<rparr>)"
proof -
  from assms(2) obtain d where d: "cn_cache_buf c = Some d" "take (unat (cn_cache_len c)) d \<noteq> []"
    by (auto simp: cache_copy_def split: option.splits)
  then have "0 < cn_cache_len c" by (auto simp: word_less_nat_alt intro: gr0I)
  moreover have "\<not> length d < unat (cn_cache_len c)" using assms(1) d(1) by (simp add: cache_copy_ok_def word_le_nat_alt)
  ultimately show ?thesis using assms(3,4) d(1) by (simp add: store_copy_def cache_copy_def Let_def)
qed

text \<open>
  C38: A connection that once served a server with a cache keeps that cache and key when the pool gives
  it to another client. If the request of the new client goes to a server without a cache, the
  answer it gets, whatever the relay made of the connection meanwhile, is stored under the key of
  the earlier client when the backend closes, and a lookup of that key returns it.
\<close>

theorem stale_cache_key:
  assumes "conn_wf c" "cn_cache_store c = Some k" "hc_cache_stores (ws_hctx ws) ! k = Some store" "store_ok store"
    and "hc_rate_limiter (ws_hctx ws) = None" "hc_metrics (ws_hctx ws) = None" "\<not> path_matches (req_path req) ''/healthz''"
    and "\<not> cc_enabled (srv_cache server)" "px_enabled (srv_proxy server)" "hc_upstream_pools (ws_hctx ws) ! i = Some pool"
    and "handler_route env p i server (conn_reset c fd (Some peer)) req ws = Inr ws1" "ws_conns ws1 p = Some c1" "cn_state c1 = CONN_PROXYING"
    and "relay_rest c2 = relay_rest c1" "cache_copy_ok c2" "cache_copy c2 \<noteq> []"
    and "insert_succeeds (cache_copy c2) [] (ue_insert uenv)" "length (ue_pad uenv) = 4" "0 \<le> ue_time uenv" "ue_time uenv + 10 \<le> LLONG_MAX"
    and "now \<le> ue_time uenv + 10"
  shows "\<exists>c3 ws3 e. store_copy uenv c2 ws1 = Inr (c3, ws3) \<and>
    cache_lookup store (cn_cache_key c) (ws_fs ws3) now lookup_ok = (ws_fs ws3, NP_OK, Some e) \<and> ce_data e = cache_copy c2"
proof -
  let ?c = "conn_reset c fd (Some peer)" and ?key = "cn_cache_key c"
  have reset: "cn_cache_store ?c = Some k" "cn_cache_key ?c = ?key" using assms(2) by (simp_all add: conn_reset_def conn_init_bufs_def)
  have "proxy_handle (he_proxy env) p i pool req (set_conn p ?c ws) = Inr ws1"
    using assms(5-11) by (simp add: handler_route_def check_rate_def look_up_def note_cache_key_def split: option.splits)
  moreover have "conn_wf ?c" by (rule conn_reset_wf [OF assms(1)])
  ultimately have c1: "cn_cache_store c1 = Some k" "cn_cache_key c1 = ?key" "hc_cache_stores (ws_hctx ws1) ! k = Some store"
    using proxy_handle_entry [of "he_proxy env" p i pool req "set_conn p ?c ws" ws1 ?c] assms(3,12) reset by (auto simp: same_entry_def)
  define f where "f = fst (cache_insert store ?key 200 (cache_copy c2) [] 10 (ue_pad uenv) (ws_fs ws1) (ue_time uenv) (ue_insert uenv))"
  have c2: "cn_cache_store c2 = Some k" "cn_cache_key c2 = ?key" using relay_rest_fields [OF assms(14)] c1 by simp_all
  obtain c3 where c3: "store_copy uenv c2 ws1 = Inr (c3, ws1\<lparr>ws_fs := f\<rparr>)"
    using store_copy_stores [OF assms(15,16) c2(1) c1(3), of uenv] unfolding f_def c2(2) by blast
  have fits: "entry_fits 200 (cache_copy c2) [] (ue_time uenv + 10)"
    using cache_copy_length [OF assms(15)] assms(19,20) by (simp add: entry_fits_def)
  have "f (cache_path store ?key) = Some (entry_bytes (ue_pad uenv) 200 (cache_copy c2) [] (ue_time uenv + 10))"
    using assms(17) tmp_not_path [OF assms(4), of ?key ?key] by (auto simp: f_def cache_insert_files [OF assms(4)])
  from lookup_entry [where f = f and store = store and key = ?key and now = now, OF this assms(18) fits] assms(21) c3 show ?thesis by simp
qed

lemma loop_add_total:
  assumes "loop_ok loop" "handler_alloc_ok f" "0 \<le> fd"
  shows "\<exists>loop' st. event_loop_add loop fd ev fn p (f (el_heap loop)) k = Inr (loop', st) \<and> loop_ok loop'"
  using loop_ctl_put [OF assms(1) handler_alloc_fresh [OF assms(2)] assms(3), of EPOLL_CTL_ADD ev fn p k]
  unfolding event_loop_add_def by auto

lemma emit_nil [simp]: "emit [] ws = ws"
  by (simp add: emit_def)

text \<open>The balancer chooses backend \<open>i\<close>, and there is a connection \<open>u\<close> to it, an idle one or a new one.\<close>

definition proxy_connects :: "proxy_env \<Rightarrow> upstream_pool \<Rightarrow> nat \<Rightarrow> int \<Rightarrow> bool" where
  "proxy_connects env pool i u \<longleftrightarrow>
     (case upstream_select pool of (pool1, be) \<Rightarrow> be = Some i \<and>
        (case socket_connect_nonblock (ub_host (up_backends pool1 ! i)) (ub_port (up_backends pool1 ! i)) (pe_socket env) (pe_connect env) of
           (st, k, closed) \<Rightarrow> snd (upstream_get_connection pool1 i k) = Some u))"

lemma proxy_handle_starts:
  assumes ok: "worker_ok ws" "ws_conns ws p = Some conn" and con: "proxy_connects env pool i u" "0 \<le> u"
    and env: "handler_alloc_ok (fst (pe_add env))"
    and req: "\<not> req_upgrade req" "req_body req = []" "length (concat (proxy_texts req)) < NP_MAX_HEADER_LEN"
    and buf: "buf_contents (cn_upstream_wbuf conn) = []" "length (concat (proxy_texts req)) \<le> buf_room (cn_upstream_wbuf conn)"
  obtains ws' b where "proxy_handle env p pi pool req ws = Inr ws'" "worker_ok ws'" "ws_trace ws' = ws_trace ws"
    "ws_conns ws' p = Some (conn\<lparr>cn_proxy_pool := Some pi, cn_tls_conn := Some i, cn_upstream_fd := u, cn_upstream_wbuf := b, cn_state := CONN_PROXYING\<rparr>)"
    "buf_contents b = concat (proxy_texts req)"
proof -
  note wf = conn_at_wf [OF ok]
  obtain pool1 where sel: "upstream_select pool = (pool1, Some i)" using con(1) by (auto simp: proxy_connects_def split: prod.splits)
  obtain st k closed where so: "socket_connect_nonblock (ub_host (up_backends pool1 ! i)) (ub_port (up_backends pool1 ! i))
      (pe_socket env) (pe_connect env) = (st, k, closed)" by (metis prod_cases3)
  have "snd (upstream_get_connection pool1 i k) = Some u" using con(1) by (simp add: proxy_connects_def sel so)
  then obtain pool2 where get: "upstream_get_connection pool1 i k = (pool2, Some u)" by (metis prod.collapse)
  have cl: "closed = []" if "ub_idle_fds (up_backends pool1 ! i) = []"
  proof -
    have "k = Some u" using get that by (simp add: upstream_get_connection_def)
    then show ?thesis using connect_nonblock_fd [OF so] by blast
  qed
  define c1 where "c1 = conn\<lparr>cn_proxy_pool := Some pi, cn_tls_conn := Some i, cn_upstream_fd := u\<rparr>"
  have c1: "conn_ok c1" using wf by (simp add: c1_def conn_wf_def conn_ok_def)
  obtain b where b: "build_proxy_request c1 req = Inr (c1\<lparr>cn_upstream_wbuf := b\<rparr>)" "buf_contents b = concat (proxy_texts req)"
    using build_proxy_request_fits [OF c1 req(3)] req(2) buf by (auto simp: c1_def)
  define ws1 where "ws1 = set_conn p (c1\<lparr>cn_upstream_wbuf := b, cn_state := CONN_PROXYING\<rparr>) (set_upstream_pool pi pool2 ws)"
  have "loop_ok (ws_loop ws1)" using ok(1) by (simp add: ws1_def set_upstream_pool_def worker_ok_def)
  from loop_add_total [OF this env con(2)] obtain loop st' where
    l: "event_loop_add (ws_loop ws1) u (EV_WRITE OR EV_READ OR EV_HUP OR EV_EDGE) Proxy_on_upstream_event p
      (fst (pe_add env) (el_heap (ws_loop ws1))) (snd (pe_add env)) = Inr (loop, st')" by blast
  have h: "proxy_handle env p pi pool req ws = Inr (ws1\<lparr>ws_loop := loop\<rparr>)"
    using ok(2) sel so get b(1) l req(1) cl
    by (cases "ub_idle_fds (up_backends pool1 ! i) = []")
      (simp_all add: proxy_handle_def conn_at_def conn_set_upstream_def ws1_def Let_def flip: c1_def)
  show ?thesis
    by (rule that [OF h proxy_handle_keeps [OF ok(1) env h]]) (use b(2) in \<open>simp_all add: ws1_def set_upstream_pool_def c1_def\<close>)
qed

text \<open>A request that is handed to the only backend of the example.\<close>

definition demo_proxied :: np_server_config_t where
  "demo_proxied = server_zero\<lparr>srv_proxy := (srv_proxy server_zero)\<lparr>px_enabled := True\<rparr>\<rparr>"

lemma demo_inet_pton: "\<exists>a. inet_pton ''127.0.0.1'' = Some a"
proof -
  have "split_dots ''127.0.0.1'' = [''127'', ''0'', ''0'', ''1'']" by code_simp
  moreover have "list_all octet_ok [''127'', ''0'', ''0'', ''1'']" by code_simp
  ultimately show ?thesis by (simp add: inet_pton_def)
qed

lemma demo_connects: "proxy_connects (he_proxy demo_handler_env) demo_upstream 0 8"
proof -
  define pool1 where "pool1 = fst (upstream_select demo_upstream)"
  have "snd (upstream_select demo_upstream) = Some 0" by code_simp
  then have sel: "upstream_select demo_upstream = (pool1, Some 0)" by (simp add: pool1_def prod_eq_iff)
  have "ub_host (up_backends pool1 ! 0) = ''127.0.0.1''" unfolding pool1_def by code_simp
  moreover obtain a where "inet_pton ''127.0.0.1'' = Some a" using demo_inet_pton by blast
  ultimately have so: "socket_connect_nonblock (ub_host (up_backends pool1 ! 0)) (ub_port (up_backends pool1 ! 0)) 8 (\<lambda>_. Connect_ok) =
      (NP_OK, Some 8, [])" by (simp add: socket_connect_nonblock_def)
  have "length (ub_idle_fds (up_backends pool1 ! 0)) = 0" unfolding pool1_def by code_simp
  then show ?thesis by (simp add: proxy_connects_def sel so demo_handler_env_def upstream_get_connection_def)
qed

text \<open>A connection that once asked the first server for \<^verbatim>\<open>/private\<close>, and a worker whose first cache is in \<^verbatim>\<open>/c\<close>.\<close>

definition demo_used :: conn_t where
  "demo_used = (demo_conn 5)\<lparr>cn_cache_store := Some 0, cn_cache_key := ''GET:a:/private''\<rparr>"

definition demo_store :: cache_store_t where
  "demo_store = \<lparr>cs_root = ''/c'', cs_max_entries = 9\<rparr>"

definition demo_cached :: worker_state_t where
  "demo_cached = (let ws = demo_worker config_defaults demo_used
     in ws\<lparr>ws_hctx := (ws_hctx ws)\<lparr>hc_cache_stores := replicate 16 (Some demo_store)\<rparr>\<rparr>)"

theorem stale_cache_key_witness:
  "\<exists>ws1 c1 c3 ws3 e. handler_route demo_handler_env 0 0 demo_proxied (conn_reset demo_used 6 (Some (1, 2))) (demo_request ''/other'') demo_cached = Inr ws1 \<and>
     ws_conns ws1 0 = Some c1 \<and>
     store_copy demo_upstream_env (c1\<lparr>cn_cache_buf := Some ''answer'', cn_cache_len := 6, cn_cache_cap := 6\<rparr>) ws1 = Inr (c3, ws3) \<and>
     cache_lookup demo_store ''GET:a:/private'' (ws_fs ws3) 5 lookup_ok = (ws_fs ws3, NP_OK, Some e) \<and> ce_data e = ''answer''"
proof -
  let ?c = "conn_reset demo_used 6 (Some (1, 2))" and ?req = "demo_request ''/other''"
  have wf: "conn_wf demo_used" using demo_conn_ok(2) by (simp add: demo_used_def)
  have up: "cn_upstream_wbuf ?c = demo_buf NP_WRITE_BUF_SIZE"
    by (simp add: demo_used_def conn_reset_def conn_init_bufs_def demo_conn_def demo_buf_def buf_reset_def)
  have texts: "length (concat (proxy_texts ?req)) < 1024"
    by (simp add: proxy_texts_def proxy_head_def slice_text_def cstr_def demo_request_def request_zero_def request_header_def)
  have ok: "worker_ok demo_cached"
    using wf by (simp add: demo_cached_def Let_def demo_worker_def worker_ok_def conns_wf_def hctx_ok_def demo_loop_ok config_defaults_def)
  have al: "handler_alloc_ok (fst (pe_add (he_proxy demo_handler_env)))" by (simp add: demo_handler_env_def demo_alloc_ok)
  have at: "ws_conns (set_conn 0 ?c demo_cached) 0 = Some ?c" by simp
  obtain ws1 b where p: "proxy_handle (he_proxy demo_handler_env) 0 0 demo_upstream ?req (set_conn 0 ?c demo_cached) = Inr ws1" "worker_ok ws1"
    "ws_trace ws1 = ws_trace (set_conn 0 ?c demo_cached)"
    "ws_conns ws1 0 = Some (?c\<lparr>cn_proxy_pool := Some 0, cn_tls_conn := Some 0, cn_upstream_fd := 8, cn_upstream_wbuf := b, cn_state := CONN_PROXYING\<rparr>)"
    "buf_contents b = concat (proxy_texts ?req)"
    by (rule proxy_handle_starts [OF set_conn_ok [OF ok conn_reset_wf [OF wf]] at demo_connects _ al, of ?req 0])
      (use texts that in \<open>simp_all add: up demo_buf_ok demo_request_def request_zero_def\<close>)
  define c1 where "c1 = ?c\<lparr>cn_proxy_pool := Some 0, cn_tls_conn := Some 0, cn_upstream_fd := 8, cn_upstream_wbuf := b, cn_state := CONN_PROXYING\<rparr>"
  have c1: "ws_conns ws1 0 = Some c1" "cn_state c1 = CONN_PROXYING" using p(4) by (simp_all add: c1_def)
  have st: "hc_cache_stores (ws_hctx demo_cached) ! 0 = Some demo_store" "hc_rate_limiter (ws_hctx demo_cached) = None"
    "hc_metrics (ws_hctx demo_cached) = None" "hc_upstream_pools (ws_hctx demo_cached) ! 0 = Some demo_upstream"
    by (simp_all add: demo_cached_def demo_worker_def Let_def)
  have srv: "\<not> cc_enabled (srv_cache demo_proxied)" "px_enabled (srv_proxy demo_proxied)" by (simp_all add: demo_proxied_def server_zero_def)
  have path: "\<not> path_matches (req_path ?req) ''/healthz''" by (simp add: path_matches_def str_starts_with_def demo_request_def)
  have route: "handler_route demo_handler_env 0 0 demo_proxied ?c ?req demo_cached = Inr ws1"
    using p(1) st srv path by (simp add: handler_route_def check_rate_def look_up_def note_cache_key_def)
  have "cache_copy_ok (c1\<lparr>cn_cache_buf := Some ''answer'', cn_cache_len := 6, cn_cache_cap := 6\<rparr>)"
    "cache_copy (c1\<lparr>cn_cache_buf := Some ''answer'', cn_cache_len := 6, cn_cache_cap := 6\<rparr>) = ''answer''"
    by (simp_all add: cache_copy_ok_def cache_copy_def)
  then show ?thesis
    using stale_cache_key [OF wf _ st(1) _ st(2,3) path srv st(4) route c1, of "c1\<lparr>cn_cache_buf := Some ''answer'', cn_cache_len := 6, cn_cache_cap := 6\<rparr>" demo_upstream_env 5]
      route c1(1)
    by (simp add: demo_used_def demo_store_def store_ok_def demo_upstream_env_def insert_succeeds_def)
qed

end
