(* ===== verification/Worker.thy ===== *)
theory Worker
  imports Dispatch
begin

text \<open>
  The callbacks of \<^verbatim>\<open>src/src/proc/worker.c\<close> for clients, listeners and timers, and the handler of
  \<^verbatim>\<open>src/src/proc/signal.c\<close>, on the state of a worker. What the kernel answers to a callback is one
  record of arguments. The event loop calls them through the handlers it finds.
\<close>

section \<open>Model\<close>

text \<open>The answers to a call of \<^verbatim>\<open>sendfile\<close> for a number of bytes, as for \<^verbatim>\<open>write\<close>.\<close>

type_synonym kernel_sendfile = "int \<Rightarrow> write_result"

text \<open>
  What a callback for a client meets: the answers to the reads, to the writes of \<^verbatim>\<open>handle_read\<close> and
  of \<^verbatim>\<open>handle_write\<close>, to \<^verbatim>\<open>sendfile\<close>, to the changes of the event loop, to the memory the request
  needs, the clock, and what the dispatcher meets.
\<close>

record client_env =
  cl_reads :: "kernel_read list"
  cl_sends :: "kernel_write list"
  cl_writes :: "kernel_write list"
  cl_sendfile :: "kernel_sendfile list"
  cl_read_mod :: ctl_ans
  cl_write_mod :: ctl_ans
  cl_put :: "bool \<times> bool"
  cl_request :: "usize option"
  cl_clock :: "nat \<times> nat"
  cl_handler :: handler_env

definition on_conn_timeout :: "nat \<Rightarrow> bool \<times> bool \<Rightarrow> worker_state_t \<Rightarrow> worker_state_t mem" where
  "on_conn_timeout p k ws = ws_pool_put ws p k"

text \<open>A connection that waits for its next request.\<close>

definition next_request :: "conn_t \<Rightarrow> conn_t" where
  "next_request conn = conn\<lparr>cn_arena := arena_reset (cn_arena conn), cn_request := None, cn_response := None,
     cn_state := CONN_READING_REQUEST\<rparr>"

text \<open>The loop over \<^verbatim>\<open>sendfile\<close>: offset and rest after it, the last answer, and the parts sent.\<close>

fun sendfile_loop ::
  "kernel_sendfile list \<Rightarrow> int \<Rightarrow> int \<Rightarrow> int \<times> int \<times> write_result \<times> (int \<times> nat) list" where
  "sendfile_loop [] off rest = (off, rest, Write_eagain, [])"
| "sendfile_loop (k # ks) off rest =
     (case k rest of
        Write_n n \<Rightarrow>
          if n = 0 then (off, rest, Write_n 0, [])
          else if 0 < rest - int n then
            (let (off', rest', r, parts) = sendfile_loop ks (off + int n) (rest - int n)
             in (off', rest', r, (off, n) # parts))
          else (off + int n, rest - int n, Write_n n, [(off, n)])
      | r \<Rightarrow> (off, rest, r, []))"

text \<open>The part of \<^verbatim>\<open>handle_write\<close> that sends a file once the head is gone.\<close>

definition write_file :: "client_env \<Rightarrow> nat \<Rightarrow> conn_t \<Rightarrow> worker_state_t \<Rightarrow> worker_state_t mem" where
  "write_file env p conn ws =
     (let (off, rest, r, parts) =
        (if 0 < cn_file_remaining conn then sendfile_loop (cl_sendfile env) (cn_file_offset conn) (cn_file_remaining conn)
         else (cn_file_offset conn, cn_file_remaining conn, Write_n 0, []));
          ws = emit (map (\<lambda>(o', n). Sent_file (cn_fd conn) (cn_file_fd conn) o' n) parts) ws;
          file_fd = cn_file_fd conn;
          conn = conn\<lparr>cn_file_offset := off, cn_file_remaining := rest\<rparr>
      in if r = Write_errno then ws_pool_put (set_conn p conn ws) p (cl_put env)
         else if rest = 0 then
           (let ws = emit [Closed file_fd] ws;
                conn = conn\<lparr>cn_file_fd := -1\<rparr>
            in if \<not> cn_keep_alive conn then ws_pool_put (set_conn p conn ws) p (cl_put env)
               else worker_client_event_mod (set_conn p (next_request conn) ws) p (EV_READ OR EV_HUP OR EV_EDGE) (cl_write_mod env))
         else worker_client_event_mod (set_conn p conn ws) p (EV_WRITE OR EV_READ OR EV_HUP OR EV_EDGE) (cl_write_mod env))"

definition handle_write :: "client_env \<Rightarrow> nat \<Rightarrow> worker_state_t \<Rightarrow> worker_state_t mem" where
  "handle_write env p ws =
     mbind (conn_at ws p) (\<lambda>conn.
       if cn_state conn = CONN_SENDFILE then
         mbind (if 0 < buf_readable (cn_wbuf conn) then buf_send_all (cl_writes env) (cn_wbuf conn)
                else Inr (cn_wbuf conn, 0, [])) (\<lambda>(b, _, out).
           let conn = conn\<lparr>cn_wbuf := b\<rparr>;
               ws = emit (sent (cn_fd conn) out) (set_conn p conn ws)
           in if 0 < buf_readable b
              then worker_client_event_mod ws p (EV_WRITE OR EV_READ OR EV_HUP OR EV_EDGE) (cl_write_mod env)
              else write_file env p conn ws)
       else if cn_state conn = CONN_PROXYING \<or> cn_state conn = CONN_TUNNEL then
         mbind (buf_send_all (cl_writes env) (cn_upstream_rbuf conn)) (\<lambda>(b, _, out).
           ws_event_mod (emit (sent (cn_fd conn) out) (set_conn p (conn\<lparr>cn_upstream_rbuf := b\<rparr>) ws)) (cn_fd conn)
             (if buf_readable b = 0 then EV_READ OR EV_HUP OR EV_EDGE else EV_WRITE OR EV_READ OR EV_HUP OR EV_EDGE)
             On_client_event p (cl_write_mod env))
       else
         mbind (buf_send_all (cl_writes env) (cn_wbuf conn)) (\<lambda>(b, _, out).
           let conn = conn\<lparr>cn_wbuf := b\<rparr>;
               ws = emit (sent (cn_fd conn) out) (set_conn p conn ws)
           in if buf_readable b = 0 then
                (if cn_state conn = CONN_CLOSING \<or> \<not> cn_keep_alive conn then ws_pool_put ws p (cl_put env)
                 else ws_event_mod (set_conn p (next_request conn) ws) (cn_fd conn) (EV_READ OR EV_HUP OR EV_EDGE)
                   On_client_event p (cl_write_mod env))
              else Inr ws))"

text \<open>The bytes of a client in a tunnel go to the backend.\<close>

definition read_tunnel :: "client_env \<Rightarrow> nat \<Rightarrow> conn_t \<Rightarrow> worker_state_t \<Rightarrow> worker_state_t mem" where
  "read_tunnel env p conn ws =
     mbind (buf_recv_all (cl_reads env) (cn_upstream_wbuf conn)) (\<lambda>(b, n, _).
       let conn = conn\<lparr>cn_upstream_wbuf := b\<rparr>;
           ws = set_conn p conn ws
       in if n = np_code NP_ERR_CLOSED \<or> n = np_code NP_ERR then worker_conn_close ws p (cl_put env)
          else if 0 < buf_readable b then
            mbind (buf_send_all (cl_sends env) b) (\<lambda>(b, _, out).
              ws_event_mod (emit (sent (cn_upstream_fd conn) out) (set_conn p (conn\<lparr>cn_upstream_wbuf := b\<rparr>) ws)) (cn_upstream_fd conn)
                (if buf_readable b = 0 then EV_READ OR EV_HUP OR EV_EDGE else EV_WRITE OR EV_READ OR EV_HUP OR EV_EDGE)
                Proxy_on_upstream_event p (cl_read_mod env))
          else Inr ws)"

text \<open>The end of \<^verbatim>\<open>handle_read\<close>, after the dispatcher.\<close>

definition send_response :: "client_env \<Rightarrow> nat \<Rightarrow> worker_state_t \<Rightarrow> worker_state_t mem" where
  "send_response env p ws =
     mbind (conn_at ws p) (\<lambda>conn.
       if cn_state conn = CONN_PROXYING \<or> cn_state conn = CONN_TUNNEL then Inr ws
       else
         mbind (buf_send_all (cl_sends env) (cn_wbuf conn)) (\<lambda>(b, _, out).
           let conn = conn\<lparr>cn_wbuf := b\<rparr>;
               ws = emit (sent (cn_fd conn) out) (set_conn p conn ws)
           in if buf_readable b = 0 then
                (if \<not> cn_keep_alive conn then ws_pool_put ws p (cl_put env)
                 else ws_event_mod (set_conn p (next_request conn) ws) (cn_fd conn) (EV_READ OR EV_HUP OR EV_EDGE)
                   On_client_event p (cl_read_mod env))
              else
                ws_event_mod (set_conn p (conn\<lparr>cn_state := CONN_WRITING_RESPONSE\<rparr>) ws) (cn_fd conn) (EV_WRITE OR EV_HUP OR EV_EDGE)
                  On_client_event p (cl_read_mod env)))"

text \<open>A request that was parsed from the readable bytes \<open>raw\<close>.\<close>

definition serve_request :: "client_env \<Rightarrow> nat \<Rightarrow> http_parse_state_t \<Rightarrow> string \<Rightarrow> conn_t \<Rightarrow> worker_state_t \<Rightarrow> worker_state_t mem" where
  "serve_request env p ps raw conn ws =
     (case request_create (cn_arena conn) (cl_request env) of
        (a, None) \<Rightarrow> ws_pool_put (set_conn p (conn\<lparr>cn_arena := a\<rparr>) ws) p (cl_put env)
      | (a, Some req) \<Rightarrow>
          (let req = request_populate req ps raw (fst (cl_clock env)) (snd (cl_clock env));
               conn = conn\<lparr>cn_arena := a, cn_rbuf := buf_consume (cn_rbuf conn) (of_nat (ps_parsed_bytes ps)),
                 cn_keep_alive := ps_keep_alive ps, cn_request := Some req\<rparr>
           in mbind (handler_dispatch (cl_handler env) p req (set_conn p conn ws)) (send_response env p)))"

definition handle_read :: "client_env \<Rightarrow> nat \<Rightarrow> worker_state_t \<Rightarrow> worker_state_t mem" where
  "handle_read env p ws =
     mbind (conn_at ws p) (\<lambda>conn.
       if cn_state conn = CONN_TUNNEL then read_tunnel env p conn ws
       else
         mbind (buf_recv_all (cl_reads env) (cn_rbuf conn)) (\<lambda>(b, n, _).
           let conn = conn\<lparr>cn_rbuf := b\<rparr>;
               ws = set_conn p conn ws
           in if n = np_code NP_ERR_CLOSED \<or> n = np_code NP_ERR then ws_pool_put ws p (cl_put env)
              else if buf_readable b = 0 then Inr ws
              else
                mbind (buf_read_ptr b) (\<lambda>raw.
                  case http_parse_request http_parse_state_init raw of
                    (PARSE_INCOMPLETE, _) \<Rightarrow> Inr ws
                  | (PARSE_ERROR, _) \<Rightarrow>
                      mbind (response_write_error (cn_wbuf conn) 400 False) (\<lambda>w.
                        ws_event_mod (set_conn p (conn\<lparr>cn_wbuf := w, cn_state := CONN_WRITING_RESPONSE\<rparr>) ws) (cn_fd conn)
                          (EV_WRITE OR EV_HUP OR EV_EDGE) On_client_event p (cl_read_mod env))
                  | (PARSE_DONE, ps) \<Rightarrow> serve_request env p ps raw conn ws)))"

definition on_client_event :: "client_env \<Rightarrow> u32 \<Rightarrow> nat \<Rightarrow> worker_state_t \<Rightarrow> worker_state_t mem" where
  "on_client_event env events p ws =
     mbind (conn_at ws p) (\<lambda>conn.
       let ws = set_conn p (conn\<lparr>cn_last_active := ws_now ws\<rparr>) ws
       in if events AND (EV_HUP OR EPOLLERR) \<noteq> 0 then ws_pool_put ws p (cl_put env)
          else
            mbind (if events AND EV_READ \<noteq> 0 then handle_read env p ws else Inr ws) (\<lambda>ws.
              if events AND EV_WRITE \<noteq> 0 then handle_write env p ws else Inr ws))"

text \<open>
  One turn of the loop over \<^verbatim>\<open>accept\<close>: the answer, memory for a connection and for a timer, the
  registration and the time. Memory depends on what is in use.
\<close>

record accept_env =
  ac_accept :: accept_result
  ac_mallocs :: "cheap \<Rightarrow> conn_mallocs"
  ac_add :: ctl_ans
  ac_timer :: "theap \<Rightarrow> nat option"
  ac_now :: int

fun accept_loop :: "accept_env list \<Rightarrow> worker_state_t \<Rightarrow> worker_state_t mem" where
  "accept_loop [] ws = Inr ws"
| "accept_loop (a # as) ws =
     (case socket_accept (ac_accept a) of
        (NP_OK, Some (cfd, peer), _) \<Rightarrow>
          mbind (conn_pool_get (ws_pool ws) (ws_conns ws) cfd (Some peer) (ac_mallocs a (ws_conns ws))) (\<lambda>(pool, h, conn).
            let ws = ws\<lparr>ws_pool := pool, ws_conns := h\<rparr>
            in case conn of
                 None \<Rightarrow> accept_loop as (emit [Closed cfd] ws)
               | Some p \<Rightarrow>
                   (let ws = ws\<lparr>ws_active_conns := ws_active_conns ws + 1\<rparr>
                    in mbind (event_loop_add (ws_loop ws) cfd (EV_READ OR EV_HUP OR EV_EDGE) On_client_event p
                         (fst (ac_add a) (el_heap (ws_loop ws))) (snd (ac_add a))) (\<lambda>(loop, _).
                       mbind (timeout_add (ws_tw ws) (ws_timers ws) (c_read_timeout (ws_config ws)) p (ac_timer a (ws_timers ws)) (ac_now a))
                         (\<lambda>(tw, th, _). accept_loop as (ws\<lparr>ws_loop := loop, ws_tw := tw, ws_timers := th\<rparr>)))))
      | _ \<Rightarrow> Inr ws)"

definition on_accept_event :: "accept_env list \<Rightarrow> int \<Rightarrow> worker_state_t \<Rightarrow> worker_state_t mem" where
  "on_accept_event as fd ws =
     (if list_ex (\<lambda>l. sk_fd l = fd) (ws_listeners ws) then accept_loop as ws else Inr ws)"

text \<open>The signal read from the descriptor; \<open>None\<close> when the read is short.\<close>

abbreviation SIGHUP :: int where "SIGHUP \<equiv> 1"
abbreviation SIGINT :: int where "SIGINT \<equiv> 2"
abbreviation SIGPIPE :: int where "SIGPIPE \<equiv> 13"
abbreviation SIGTERM :: int where "SIGTERM \<equiv> 15"

definition signal_handler :: "int option \<Rightarrow> worker_state_t \<Rightarrow> worker_state_t" where
  "signal_handler info ws =
     (case info of
        None \<Rightarrow> ws
      | Some signo \<Rightarrow> if signo = SIGTERM \<or> signo = SIGINT then ws\<lparr>ws_running := 0\<rparr> else ws)"

text \<open>Whether \<^verbatim>\<open>sigprocmask\<close> succeeds, and the descriptor that \<^verbatim>\<open>signalfd\<close> returns; the context is the global variable.\<close>

definition signal_init :: "bool \<Rightarrow> int \<Rightarrow> ctl_ans \<Rightarrow> event_loop_t \<Rightarrow> (event_loop_t \<times> np_status_t) mem" where
  "signal_init masked sfd a loop =
     (if \<not> masked then Inr (loop, NP_ERR)
      else if sfd < 0 then Inr (loop, NP_ERR)
      else event_loop_add loop sfd (EV_READ OR EV_EDGE) Signal_handler 0 (fst a (el_heap loop)) (snd a))"

text \<open>What the callbacks of one event meet, and the call through a handler of the loop.\<close>

record worker_answers =
  wa_client :: client_env
  wa_upstream :: upstream_env
  wa_accepts :: "accept_env list"
  wa_signal :: "int option"

definition worker_callback :: "worker_answers \<Rightarrow> ev_handler_t \<Rightarrow> u32 \<Rightarrow> worker_state_t \<Rightarrow> worker_state_t mem" where
  "worker_callback a hn events ws =
     (case eh_fn hn of
        On_accept_event \<Rightarrow> on_accept_event (wa_accepts a) (eh_fd hn) ws
      | On_client_event \<Rightarrow> on_client_event (wa_client a) events (eh_ctx hn) ws
      | Proxy_on_upstream_event \<Rightarrow> proxy_on_upstream_event (wa_upstream a) (eh_fd hn) events (eh_ctx hn) ws
      | Signal_handler \<Rightarrow> Inr (signal_handler (wa_signal a) ws))"

text \<open>The answers come in turn, one record for each callback.\<close>

definition worker_call ::
  "(nat \<Rightarrow> worker_answers) \<Rightarrow> ev_handler_t \<Rightarrow> u32 \<Rightarrow> worker_state_t \<times> nat \<Rightarrow> (worker_state_t \<times> nat) mem" where
  "worker_call ans hn events s =
     mbind (worker_callback (ans (snd s)) hn events (fst s)) (\<lambda>ws. Inr (ws, snd s + 1))"

definition worker_loop ::
  "(nat \<Rightarrow> worker_answers) \<Rightarrow> wait_result list \<Rightarrow> worker_state_t \<Rightarrow> (worker_state_t \<times> nat) mem" where
  "worker_loop ans waits ws =
     event_loop_run (\<lambda>s. ws_loop (fst s)) (worker_call ans) (\<lambda>s. ws_running (fst s) \<noteq> 0) waits (ws, 0)"

text \<open>What \<^verbatim>\<open>worker_run\<close> meets before the loop.\<close>

record boot_env =
  bo_time :: int
  bo_loop :: "bool \<times> int \<times> bool \<times> bool"
  bo_wheel :: "bool \<times> bool"
  bo_pool :: bool
  bo_upstream :: "nat \<Rightarrow> bool"
  bo_limiter :: bool
  bo_metrics :: bool
  bo_stores :: "nat \<Rightarrow> bool"
  bo_access_fd :: int
  bo_signals :: "bool \<times> int \<times> ctl_ans"
  bo_add :: ctl_ans

text \<open>The two arrays have 16 elements, which \<^verbatim>\<open>memset\<close> has cleared.\<close>

definition boot_upstream :: "boot_env \<Rightarrow> np_config_t \<Rightarrow> nat \<Rightarrow> upstream_pool option" where
  "boot_upstream env cfg i =
     (if i < length (c_servers cfg) \<and> px_enabled (srv_proxy (c_servers cfg ! i))
      then upstream_pool_create (c_servers cfg ! i) (bo_upstream env i) else None)"

definition boot_store :: "boot_env \<Rightarrow> np_config_t \<Rightarrow> nat \<Rightarrow> cache_store_t option" where
  "boot_store env cfg i =
     (if i < length (c_servers cfg) \<and> cc_enabled (srv_cache (c_servers cfg ! i)) \<and> cc_root (srv_cache (c_servers cfg ! i)) \<noteq> []
      then cache_store_create (cc_root (srv_cache (c_servers cfg ! i)))
        (if 0 < cc_max_entries (srv_cache (c_servers cfg ! i)) then cc_max_entries (srv_cache (c_servers cfg ! i)) else 1024)
        (bo_stores env i)
      else None)"

definition boot_hctx :: "boot_env \<Rightarrow> np_config_t \<Rightarrow> handler_ctx_t" where
  "boot_hctx env cfg =
     \<lparr>hc_config = cfg, hc_upstream_pools = map (boot_upstream env cfg) [0..<CONFIG_MAX_SERVERS],
      hc_cache_stores = map (boot_store env cfg) [0..<CONFIG_MAX_SERVERS],
      hc_rate_limiter = (if c_rl_enabled cfg then rate_limiter_create cfg (bo_limiter env) else None),
      hc_metrics = (if c_metrics_enabled cfg then metrics_create (bo_metrics env) else None)\<rparr>"

fun add_listeners :: "ctl_ans \<Rightarrow> np_socket_t list \<Rightarrow> event_loop_t \<Rightarrow> event_loop_t mem" where
  "add_listeners a [] loop = Inr loop"
| "add_listeners a (l # ls) loop =
     mbind (event_loop_add loop (sk_fd l) (EV_READ OR EV_EDGE) On_accept_event 0 (fst a (el_heap loop)) (snd a)) (\<lambda>(loop, _).
       add_listeners a ls loop)"

text \<open>The part of \<^verbatim>\<open>worker_run\<close> before the loop; \<open>None\<close> is the return with 1.\<close>

definition worker_boot ::
  "boot_env \<Rightarrow> np_config_t \<Rightarrow> np_socket_t list \<Rightarrow> loaded_module_t list \<Rightarrow> fs \<Rightarrow> worker_state_t option mem" where
  "worker_boot env cfg listeners modules files =
     (case event_loop_create 1024 (fst (bo_loop env)) (fst (snd (bo_loop env))) (fst (snd (snd (bo_loop env)))) (snd (snd (snd (bo_loop env)))) of
        None \<Rightarrow> Inr None
      | Some loop \<Rightarrow>
          (case timeout_wheel_create 512 1 (fst (bo_wheel env)) (snd (bo_wheel env)) of
             None \<Rightarrow> Inr None
           | Some tw \<Rightarrow>
               (case conn_pool_create 4096 (bo_pool env) of
                  None \<Rightarrow> Inr None
                | Some pool \<Rightarrow>
                    mbind (signal_init (fst (bo_signals env)) (fst (snd (bo_signals env))) (snd (snd (bo_signals env))) loop) (\<lambda>(loop, _).
                    mbind (add_listeners (bo_add env) listeners loop) (\<lambda>loop.
                      Inr (Some \<lparr>ws_listeners = listeners, ws_loop = loop, ws_tw = tw, ws_timers = Map.empty,
                        ws_hctx = boot_hctx env cfg, ws_pool = pool, ws_conns = Map.empty, ws_running = 1, ws_active_conns = 0,
                        ws_now = bo_time env, ws_modules = modules,
                        ws_access_fd = access_log_init (Some (c_access_log cfg)) (bo_access_fd env), ws_fs = files, ws_trace = []\<rparr>))))))"

text \<open>
  After the loop: the listeners leave it, and the worker sleeps while connections are counted and
  the time is not over. \<open>clock\<close> is what \<^verbatim>\<open>time\<close> returns in turn; the result is the number of sleeps.
\<close>

fun del_listeners :: "bool \<Rightarrow> np_socket_t list \<Rightarrow> event_loop_t \<Rightarrow> event_loop_t mem" where
  "del_listeners k [] loop = Inr loop"
| "del_listeners k (l # ls) loop = mbind (event_loop_del loop (sk_fd l) k) (\<lambda>(loop, _). del_listeners k ls loop)"

fun drain_loop :: "int \<Rightarrow> int \<Rightarrow> int \<Rightarrow> int list \<Rightarrow> nat" where
  "drain_loop active start limit [] = 0"
| "drain_loop active start limit (t # clock) =
     (if 0 < active \<and> t - start < limit then Suc (drain_loop active start limit clock) else 0)"

definition drain_timeout :: "np_config_t \<Rightarrow> int" where
  "drain_timeout cfg = (if 0 < c_shutdown_timeout cfg then c_shutdown_timeout cfg else 5)"

text \<open>
  The end: the memory of connections, timers and handlers that is left, and the descriptor of the
  access log that is closed. \<open>None\<close> is a loop that does not end.
\<close>

definition worker_shutdown :: "worker_state_t \<Rightarrow> (cheap \<times> theap \<times> (nat \<rightharpoonup> ev_handler_t) \<times> int option) mem option" where
  "worker_shutdown ws =
     (case conn_pool_destroy (ws_pool ws) (ws_conns ws) of
        None \<Rightarrow> None
      | Some (Inl e) \<Rightarrow> Some (Inl e)
      | Some (Inr h) \<Rightarrow>
          (case timeout_wheel_destroy (ws_tw ws) (ws_timers ws) of
             None \<Rightarrow> None
           | Some (Inl e) \<Rightarrow> Some (Inl e)
           | Some (Inr th) \<Rightarrow> Some (Inr (h, th, event_loop_destroy (ws_loop ws), snd (access_log_close (ws_access_fd ws))))))"

text \<open>\<^verbatim>\<open>worker_run\<close>: its result, with the number of sleeps.\<close>

definition worker_run ::
  "boot_env \<Rightarrow> (nat \<Rightarrow> worker_answers) \<Rightarrow> wait_result list \<Rightarrow> bool \<Rightarrow> int \<times> int list \<Rightarrow>
   np_config_t \<Rightarrow> np_socket_t list \<Rightarrow> loaded_module_t list \<Rightarrow> fs \<Rightarrow> (int \<times> nat) mem option" where
  "worker_run env ans waits k clock cfg listeners modules files =
     (case worker_boot env cfg listeners modules files of
        Inl e \<Rightarrow> Some (Inl e)
      | Inr None \<Rightarrow> Some (Inr (1, 0))
      | Inr (Some ws) \<Rightarrow>
          (case worker_loop ans waits ws of
             Inl e \<Rightarrow> Some (Inl e)
           | Inr (ws, _) \<Rightarrow>
               (case del_listeners k listeners (ws_loop ws) of
                  Inl e \<Rightarrow> Some (Inl e)
                | Inr loop \<Rightarrow>
                    map_option (map_sum id (\<lambda>_. (0, drain_loop (ws_active_conns ws) (fst clock) (drain_timeout cfg) (snd clock))))
                      (worker_shutdown (ws\<lparr>ws_loop := loop\<rparr>)))))"

end
