(* ===== verification/Worker_Inv.thy ===== *)
theory Worker_Inv
  imports Worker
begin

text \<open>
  The invariant of a worker: every callback leaves the state well formed, and with it the modules
  and the configuration, so that any run of the event loop from the start does.
\<close>

section \<open>Modules and configuration stay\<close>

definition ws_fixed :: "worker_state_t \<Rightarrow> loaded_module_t list \<times> np_config_t" where
  "ws_fixed ws = (ws_modules ws, ws_config ws)"

lemma ws_fixed_simps [simp]:
  "ws_fixed (set_conn p c ws) = ws_fixed ws" "ws_fixed (emit es ws) = ws_fixed ws" "ws_fixed (ws\<lparr>ws_loop := x0\<rparr>) = ws_fixed ws"
  "ws_fixed (ws\<lparr>ws_tw := x1\<rparr>) = ws_fixed ws" "ws_fixed (ws\<lparr>ws_timers := x2\<rparr>) = ws_fixed ws"
  "ws_fixed (ws\<lparr>ws_pool := x3\<rparr>) = ws_fixed ws" "ws_fixed (ws\<lparr>ws_conns := x4\<rparr>) = ws_fixed ws"
  "ws_fixed (ws\<lparr>ws_running := x5\<rparr>) = ws_fixed ws" "ws_fixed (ws\<lparr>ws_active_conns := x6\<rparr>) = ws_fixed ws"
  "ws_fixed (ws\<lparr>ws_fs := x7\<rparr>) = ws_fixed ws"
  "ws_fixed (ws\<lparr>ws_hctx := (ws_hctx ws)\<lparr>hc_upstream_pools := x8\<rparr>\<rparr>) = ws_fixed ws"
  "ws_fixed (ws\<lparr>ws_hctx := (ws_hctx ws)\<lparr>hc_metrics := x9\<rparr>\<rparr>) = ws_fixed ws"
  "ws_fixed (ws\<lparr>ws_hctx := (ws_hctx ws)\<lparr>hc_rate_limiter := x10\<rparr>\<rparr>) = ws_fixed ws"
  by (simp_all add: ws_fixed_def)

named_theorems np_fixed "operations that keep the modules and the configuration"

lemma pool_put_fixed [np_fixed]: "ws_pool_put ws p k = Inr ws' \<Longrightarrow> ws_fixed ws' = ws_fixed ws"
  by (auto simp: ws_pool_put_def elim!: mbind_InrE)

lemma event_mod_fixed [np_fixed]: "ws_event_mod ws fd ev fn p a = Inr ws' \<Longrightarrow> ws_fixed ws' = ws_fixed ws"
  by (auto simp: ws_event_mod_def elim!: mbind_InrE)

lemma client_event_mod_fixed [np_fixed]: "worker_client_event_mod ws p ev a = Inr ws' \<Longrightarrow> ws_fixed ws' = ws_fixed ws"
  by (auto simp: worker_client_event_mod_def elim!: mbind_InrE dest: np_fixed)

lemma conn_close_fixed [np_fixed]: "worker_conn_close ws p k = Inr ws' \<Longrightarrow> ws_fixed ws' = ws_fixed ws"
  by (auto simp: worker_conn_close_def dest: np_fixed)

lemma access_log_fixed [np_fixed]: "ws_access_log le req st start ws = Inr ws' \<Longrightarrow> ws_fixed ws' = ws_fixed ws"
  by (auto simp: ws_access_log_def elim!: mbind_InrE)

lemma set_upstream_pool_fixed [simp]: "ws_fixed (set_upstream_pool i pool ws) = ws_fixed ws"
  by (simp add: set_upstream_pool_def)

lemma upstream_error_fixed [np_fixed]: "upstream_error status p conn req ws = Inr ws' \<Longrightarrow> ws_fixed ws' = ws_fixed ws"
  by (auto simp: upstream_error_def elim!: mbind_InrE)

lemma upstream_writable_fixed [np_fixed]: "upstream_writable env fd p ws = Inr (ws', r) \<Longrightarrow> ws_fixed ws' = ws_fixed ws"
  by (auto simp: upstream_writable_def Let_def elim!: mbind_InrE split: if_split_asm dest!: np_fixed)

lemma store_copy_fixed [np_fixed]: "store_copy env conn ws = Inr (conn', ws') \<Longrightarrow> ws_fixed ws' = ws_fixed ws"
  by (auto simp: store_copy_def Let_def split: option.split_asm if_split_asm)

lemma put_upstream_fixed [np_fixed]: "ws_put_upstream conn be fd ws = Inr ws' \<Longrightarrow> ws_fixed ws' = ws_fixed ws"
  by (auto simp: ws_put_upstream_def split: option.split_asm prod.split_asm)

lemma release_fd_fixed [np_fixed]: "upstream_release_fd env fd p eof conn ws = Inr ws' \<Longrightarrow> ws_fixed ws' = ws_fixed ws"
  by (auto simp: upstream_release_fd_def elim!: mbind_InrE split: option.split_asm dest!: np_fixed)

lemma finished_fixed [np_fixed]: "upstream_finished env fd p n ws = Inr ws' \<Longrightarrow> ws_fixed ws' = ws_fixed ws"
  by (auto simp: upstream_finished_def Let_def elim!: mbind_InrE split: if_split_asm dest!: np_fixed)

lemma readable_fixed [np_fixed]: "upstream_readable env fd p ws = Inr ws' \<Longrightarrow> ws_fixed ws' = ws_fixed ws"
  by (auto simp: upstream_readable_def Let_def elim!: mbind_InrE split: if_split_asm dest!: np_fixed)

lemma upstream_event_fixed [np_fixed]: "proxy_on_upstream_event env fd ev p ws = Inr ws' \<Longrightarrow> ws_fixed ws' = ws_fixed ws"
  by (auto simp: proxy_on_upstream_event_def elim!: mbind_InrE split: if_split_asm dest!: np_fixed)

lemma proxy_handle_fixed [np_fixed]: "proxy_handle env p pi pool req ws = Inr ws' \<Longrightarrow> ws_fixed ws' = ws_fixed ws"
  by (auto simp: proxy_handle_def Let_def elim!: mbind_InrE split: option.split_asm prod.split_asm dest!: np_fixed)

lemma respond_error_fixed [np_fixed]: "respond_error env status p conn req ws = Inr ws' \<Longrightarrow> ws_fixed ws' = ws_fixed ws"
  by (auto simp: respond_error_def Let_def elim!: mbind_InrE dest!: np_fixed)

lemma serve_static_fixed [np_fixed]: "serve_static env p server conn req ws = Inr ws' \<Longrightarrow> ws_fixed ws' = ws_fixed ws"
  by (auto simp: serve_static_def elim!: mbind_InrE dest!: np_fixed)

lemma serve_entry_fixed [np_fixed]: "serve_entry env p e conn req ws = Inr ws' \<Longrightarrow> ws_fixed ws' = ws_fixed ws"
  by (auto simp: serve_entry_def elim!: mbind_InrE dest!: np_fixed)

lemma check_rate_fixed [np_fixed]: "check_rate now req ws = (ws', b) \<Longrightarrow> ws_fixed ws' = ws_fixed ws"
  by (auto simp: check_rate_def split: option.split_asm prod.split_asm)

lemma look_up_fixed [np_fixed]: "look_up env i server req ws = (ws', e) \<Longrightarrow> ws_fixed ws' = ws_fixed ws"
  using look_up_frame by fastforce

lemma handler_route_fixed [np_fixed]: "handler_route env p i server conn req ws = Inr ws' \<Longrightarrow> ws_fixed ws' = ws_fixed ws"
  by (auto simp: handler_route_def Let_def elim!: mbind_InrE split: if_split_asm prod.split_asm option.split_asm dest!: np_fixed)

lemma handler_dispatch_fixed [np_fixed]: "handler_dispatch env p req ws = Inr ws' \<Longrightarrow> ws_fixed ws' = ws_fixed ws"
  by (auto simp: handler_dispatch_def Let_def elim!: mbind_InrE split: if_split_asm prod.split_asm dest!: np_fixed)

lemma write_file_fixed [np_fixed]: "write_file env p conn ws = Inr ws' \<Longrightarrow> ws_fixed ws' = ws_fixed ws"
  by (auto simp: write_file_def Let_def split: if_split_asm prod.split_asm dest!: np_fixed)

lemma handle_write_fixed [np_fixed]: "handle_write env p ws = Inr ws' \<Longrightarrow> ws_fixed ws' = ws_fixed ws"
  by (auto simp: handle_write_def Let_def elim!: mbind_InrE split: if_split_asm dest!: np_fixed)

lemma read_tunnel_fixed [np_fixed]: "read_tunnel env p conn ws = Inr ws' \<Longrightarrow> ws_fixed ws' = ws_fixed ws"
  by (auto simp: read_tunnel_def Let_def elim!: mbind_InrE split: if_split_asm dest!: np_fixed)

lemma send_response_fixed [np_fixed]: "send_response env p ws = Inr ws' \<Longrightarrow> ws_fixed ws' = ws_fixed ws"
  by (auto simp: send_response_def Let_def elim!: mbind_InrE split: if_split_asm dest!: np_fixed)

lemma serve_request_fixed [np_fixed]: "serve_request env p ps raw conn ws = Inr ws' \<Longrightarrow> ws_fixed ws' = ws_fixed ws"
  by (auto simp: serve_request_def Let_def elim!: mbind_InrE split: option.split_asm prod.split_asm dest!: np_fixed)

lemma handle_read_fixed [np_fixed]: "handle_read env p ws = Inr ws' \<Longrightarrow> ws_fixed ws' = ws_fixed ws"
  by (auto simp: handle_read_def Let_def elim!: mbind_InrE split: if_split_asm parse_result_t.split_asm prod.split_asm dest!: np_fixed)

lemma client_event_fixed [np_fixed]: "on_client_event env ev p ws = Inr ws' \<Longrightarrow> ws_fixed ws' = ws_fixed ws"
  by (auto simp: on_client_event_def Let_def elim!: mbind_InrE split: if_split_asm dest!: np_fixed)

lemma accept_loop_fixed [np_fixed]: "accept_loop as ws = Inr ws' \<Longrightarrow> ws_fixed ws' = ws_fixed ws"
proof (induction as arbitrary: ws)
  case (Cons a as)
  then show ?case
    by (cases "ac_accept a") (auto simp: socket_accept_def Let_def elim!: mbind_InrE split: option.split_asm)
qed simp

lemma worker_callback_fixed: "worker_callback a hn ev ws = Inr ws' \<Longrightarrow> ws_fixed ws' = ws_fixed ws"
  by (auto simp: worker_callback_def on_accept_event_def signal_handler_def
      split: ev_handler_fn.split_asm if_split_asm option.splits dest!: np_fixed)

section \<open>The state stays well formed\<close>

definition client_env_ok :: "client_env \<Rightarrow> bool" where
  "client_env_ok env \<longleftrightarrow> list_all kernel_read_ok (cl_reads env) \<and> list_all kernel_write_ok (cl_sends env) \<and>
     list_all kernel_write_ok (cl_writes env) \<and> handler_alloc_ok (fst (cl_read_mod env)) \<and> handler_alloc_ok (fst (cl_write_mod env)) \<and>
     cl_put env = (True, True) \<and> handler_env_ok (cl_handler env)"

lemma event_mod_keeps: "ws_event_mod ws fd ev fn p a = Inr ws' \<Longrightarrow> worker_ok ws \<Longrightarrow> handler_alloc_ok (fst a) \<Longrightarrow> worker_ok ws'"
  by (rule ws_event_mod_keeps [of ws a fd ev fn p ws']) auto

lemma conn_wf_blocks: "conn_wf c \<Longrightarrow> a_blocks (cn_arena c) \<noteq> []"
  by (simp add: conn_wf_def conn_ok_def)

lemma next_request_wf: "conn_wf c \<Longrightarrow> conn_wf (next_request c)"
  unfolding next_request_def conn_wf_simps by (intro conn_wf_arena arena_reset_blocks conn_wf_blocks)

text \<open>The buffers of a connection after the loops over \<^verbatim>\<open>write\<close> and \<^verbatim>\<open>read\<close>.\<close>

lemma send_all_wf:
  assumes "conn_wf c" "list_all kernel_write_ok ks"
  shows "buf_send_all ks (cn_wbuf c) = Inr (b, n, s) \<Longrightarrow> conn_wf (c\<lparr>cn_wbuf := b\<rparr>)"
    "buf_send_all ks (cn_upstream_rbuf c) = Inr (b, n, s) \<Longrightarrow> conn_wf (c\<lparr>cn_upstream_rbuf := b\<rparr>)"
    "buf_send_all ks (cn_upstream_wbuf c) = Inr (b, n, s) \<Longrightarrow> conn_wf (c\<lparr>cn_upstream_wbuf := b\<rparr>)"
  using assms(1) conn_wf_buf_ok [OF assms(1)] buf_send_all_keeps [OF _ _ assms(2)] by (auto intro!: conn_wf_bufs)

lemma recv_all_wf:
  assumes "conn_wf c" "list_all kernel_read_ok ks"
  shows "buf_recv_all ks (cn_rbuf c) = Inr (b, n, s) \<Longrightarrow> conn_wf (c\<lparr>cn_rbuf := b\<rparr>)"
    "buf_recv_all ks (cn_upstream_wbuf c) = Inr (b, n, s) \<Longrightarrow> conn_wf (c\<lparr>cn_upstream_wbuf := b\<rparr>)"
  using assms(1) conn_wf_buf_ok [OF assms(1)] buf_recv_all_keeps [OF _ _ assms(2)] by (auto intro!: conn_wf_bufs)

lemma put_set_keeps:
  "ws_pool_put (set_conn p c ws) q (True, True) = Inr ws' \<Longrightarrow> worker_ok ws \<Longrightarrow> conn_wf c \<Longrightarrow> worker_ok ws'"
  by (rule ws_pool_put_keeps [of "set_conn p c ws"]) (simp_all add: set_conn_ok)

lemma client_mod_set_keeps:
  "worker_client_event_mod (set_conn p c ws) q ev a = Inr ws' \<Longrightarrow> worker_ok ws \<Longrightarrow> conn_wf c \<Longrightarrow> handler_alloc_ok (fst a) \<Longrightarrow> worker_ok ws'"
  by (rule client_event_mod_keeps [of "set_conn p c ws"]) (simp_all add: set_conn_ok)

lemma event_mod_set_keeps:
  "ws_event_mod (set_conn p c ws) fd ev fn q a = Inr ws' \<Longrightarrow> worker_ok ws \<Longrightarrow> conn_wf c \<Longrightarrow> handler_alloc_ok (fst a) \<Longrightarrow> worker_ok ws'"
  by (rule event_mod_keeps [of "set_conn p c ws"]) (simp_all add: set_conn_ok)

lemma emit_set_conn: "emit es (set_conn p c ws) = set_conn p c (emit es ws)"
  by (simp add: emit_def set_conn_def)

lemmas set_keeps = put_set_keeps client_mod_set_keeps event_mod_set_keeps

lemma write_file_keeps:
  assumes "write_file env p conn ws = Inr ws'" "worker_ok ws" "conn_wf conn" "client_env_ok env"
  shows "worker_ok ws'"
proof -
  have e: "cl_put env = (True, True)" "handler_alloc_ok (fst (cl_write_mod env))" using assms(4) by (simp_all add: client_env_ok_def)
  obtain off rest r parts where l: "(if 0 < cn_file_remaining conn then sendfile_loop (cl_sendfile env) (cn_file_offset conn) (cn_file_remaining conn)
      else (cn_file_offset conn, cn_file_remaining conn, Write_n 0, [])) = (off, rest, r, parts)" by (metis prod_cases4)
  show ?thesis
    using assms(1) unfolding write_file_def l Let_def prod.case e(1)
    by (auto split: if_split_asm elim!: set_keeps simp: assms(2,3) e(2) next_request_wf)
qed

lemma handle_write_keeps:
  assumes r: "handle_write env p ws = Inr ws'" and ok: "worker_ok ws" and env: "client_env_ok env"
  shows "worker_ok ws'"
proof -
  from r obtain conn where c: "ws_conns ws p = Some conn"
    unfolding handle_write_def by (auto elim!: mbind_InrE simp: conn_at_Inr)
  note wf = conn_at_wf [OF ok c]
  have e: "cl_put env = (True, True)" "handler_alloc_ok (fst (cl_write_mod env))" "list_all kernel_write_ok (cl_writes env)"
    using env by (simp_all add: client_env_ok_def)
  note r' = r [unfolded handle_write_def c conn_at_def option.case mbind_simps Let_def e(1) emit_set_conn]
  consider "cn_state conn = CONN_SENDFILE" | "cn_state conn = CONN_PROXYING \<or> cn_state conn = CONN_TUNNEL"
    | "cn_state conn \<noteq> CONN_SENDFILE" "cn_state conn \<noteq> CONN_PROXYING" "cn_state conn \<noteq> CONN_TUNNEL" by blast
  then show ?thesis
  proof cases
    case 1
    from r' 1 show ?thesis
      by (auto split: if_split_asm elim!: mbind_InrE set_keeps write_file_keeps [OF _ _ _ env]
          intro!: set_conn_ok send_all_wf(1) [OF wf e(3)] wf simp: ok e(2))
  next
    case 2
    then show ?thesis using r'
      by (auto elim!: mbind_InrE set_keeps intro!: send_all_wf(2) [OF wf e(3)] simp: ok e(2))
  next
    case 3
    then show ?thesis using r'
      by (auto split: if_split_asm elim!: mbind_InrE set_keeps
          intro!: set_conn_ok next_request_wf send_all_wf(1) [OF wf e(3)] simp: ok e(2))
  qed
qed

lemma read_tunnel_keeps:
  assumes "read_tunnel env p conn ws = Inr ws'" "worker_ok ws" "conn_wf conn" "client_env_ok env"
  shows "worker_ok ws'"
proof -
  have e: "cl_put env = (True, True)" "handler_alloc_ok (fst (cl_read_mod env))" "list_all kernel_write_ok (cl_sends env)"
    "list_all kernel_read_ok (cl_reads env)" using assms(4) by (simp_all add: client_env_ok_def)
  from assms(1) obtain b n s where b: "buf_recv_all (cl_reads env) (cn_upstream_wbuf conn) = Inr (b, n, s)"
    unfolding read_tunnel_def by (auto elim!: mbind_InrE)
  define c1 where "c1 = conn\<lparr>cn_upstream_wbuf := b\<rparr>"
  have c1: "conn_wf c1" using recv_all_wf(2) [OF assms(3) e(4) b] by (simp add: c1_def)
  have w1: "worker_ok (set_conn p c1 ws)" "worker_ok (set_conn p c1 (emit es ws))" for es
    by (simp_all add: set_conn_ok assms(2) c1)
  have send: "conn_wf (c1\<lparr>cn_upstream_wbuf := b'\<rparr>)" if "buf_send_all (cl_sends env) b = Inr (b', m, t)" for b' m t
    using send_all_wf(3) [OF c1 e(3), of b' m t] that by (simp add: c1_def)
  show ?thesis
    using assms(1) unfolding read_tunnel_def b mbind_simps prod.case Let_def e(1) emit_set_conn c1_def [symmetric]
    by (auto split: if_split_asm elim!: mbind_InrE set_keeps worker_conn_close_keeps [rotated] dest!: send simp: e(2) w1)
qed

lemma send_response_keeps:
  assumes r: "send_response env p ws = Inr ws'" and ok: "worker_ok ws" and env: "client_env_ok env"
  shows "worker_ok ws'"
proof -
  from r obtain conn where c: "ws_conns ws p = Some conn"
    unfolding send_response_def by (auto elim!: mbind_InrE simp: conn_at_Inr)
  note wf = conn_at_wf [OF ok c]
  have e: "cl_put env = (True, True)" "handler_alloc_ok (fst (cl_read_mod env))" "list_all kernel_write_ok (cl_sends env)"
    using env by (simp_all add: client_env_ok_def)
  show ?thesis
  proof (cases "cn_state conn = CONN_PROXYING \<or> cn_state conn = CONN_TUNNEL")
    case True
    then show ?thesis using r ok by (auto simp: send_response_def c conn_at_def)
  next
    case False
    then show ?thesis
      using r unfolding send_response_def c conn_at_def option.case mbind_simps Let_def e(1) emit_set_conn
      by (auto split: if_split_asm elim!: mbind_InrE set_keeps
          intro!: set_conn_ok next_request_wf send_all_wf(1) [OF wf e(3)] simp: ok e(2))
  qed
qed

lemma request_create_ne: "a_blocks a \<noteq> [] \<Longrightarrow> request_create a m = (a', x) \<Longrightarrow> a_blocks a' \<noteq> []"
  using alloc_keeps_last(1) [of a "fst (arena_alloc_aligned a REQUEST_SIZE 8 m)" REQUEST_SIZE 8 m]
  by (auto simp: request_create_def split: prod.split_asm option.split_asm)

text \<open>The parser's count of bytes is within the bytes it was given, so consuming them is safe.\<close>

lemma serve_request_keeps:
  assumes r: "serve_request env p ps raw conn ws = Inr ws'" and ok: "worker_ok ws" and wf: "conn_wf conn" and env: "client_env_ok env"
    and ps: "http_parse_request http_parse_state_init raw = (PARSE_DONE, ps)" "raw = buf_contents (cn_rbuf conn)"
    and ms: "modules_ok (ws_modules ws) (ws_config ws)"
  shows "worker_ok ws'"
proof -
  have e: "cl_put env = (True, True)" "handler_env_ok (cl_handler env)" using env by (simp_all add: client_env_ok_def)
  obtain a x where a: "request_create (cn_arena conn) (cl_request env) = (a, x)" by fastforce
  have wfa: "conn_wf (conn\<lparr>cn_arena := a\<rparr>)" by (rule conn_wf_arena [OF wf request_create_ne [OF conn_wf_blocks [OF wf] a]])
  show ?thesis
  proof (cases x)
    case None
    then show ?thesis using r ok wfa unfolding serve_request_def a e(1) by (auto elim!: set_keeps)
  next
    case (Some req)
    define req1 where "req1 = request_populate req ps raw (fst (cl_clock env)) (snd (cl_clock env))"
    define b where "b = buf_consume (cn_rbuf conn) (of_nat (ps_parsed_bytes ps))"
    define c1 where "c1 = conn\<lparr>cn_arena := a, cn_rbuf := b, cn_keep_alive := ps_keep_alive ps, cn_request := Some req1\<rparr>"
    have "ps_parsed_bytes ps \<le> length (buf_contents (cn_rbuf conn))"
      using parse_done_bounds [OF ps(1)] ps(2) by (simp add: http_parse_state_init_def)
    note b = buf_consume_ok [OF conn_wf_buf_ok(1) [OF wf] this, folded b_def]
    have c1: "conn_wf c1" unfolding c1_def conn_wf_simps by (intro conn_wf_bufs(1) [OF wfa b(1)]) (simp add: b(3))
    from r obtain w where w: "handler_dispatch (cl_handler env) p req1 (set_conn p c1 ws) = Inr w" "send_response env p w = Inr ws'"
      unfolding serve_request_def a Some prod.case option.case Let_def req1_def [symmetric] b_def [symmetric] c1_def [symmetric]
      by (auto elim!: mbind_InrE)
    have "worker_ok w" by (rule handler_dispatch_keeps [OF w(1) set_conn_ok [OF ok c1] e(2)]) (simp add: ms)
    then show ?thesis by (rule send_response_keeps [OF w(2) _ env])
  qed
qed

lemma handle_read_keeps:
  assumes r: "handle_read env p ws = Inr ws'" and ok: "worker_ok ws" and env: "client_env_ok env"
    and ms: "modules_ok (ws_modules ws) (ws_config ws)"
  shows "worker_ok ws'"
proof -
  from r obtain conn where c: "ws_conns ws p = Some conn"
    unfolding handle_read_def by (auto elim!: mbind_InrE simp: conn_at_Inr)
  note wf = conn_at_wf [OF ok c]
  have e: "cl_put env = (True, True)" "handler_alloc_ok (fst (cl_read_mod env))" "list_all kernel_read_ok (cl_reads env)"
    using env by (simp_all add: client_env_ok_def)
  note r' = r [unfolded handle_read_def c conn_at_def option.case mbind_simps Let_def e(1)]
  show ?thesis
  proof (cases "cn_state conn = CONN_TUNNEL")
    case True
    then show ?thesis using r' by (auto elim: read_tunnel_keeps [OF _ ok wf env])
  next
    case False
    then obtain b n s where b: "buf_recv_all (cl_reads env) (cn_rbuf conn) = Inr (b, n, s)"
      using r' by (auto elim!: mbind_InrE)
    define c1 where "c1 = conn\<lparr>cn_rbuf := b\<rparr>"
    have c1: "conn_wf c1" using recv_all_wf(1) [OF wf e(3) b] by (simp add: c1_def)
    have w1: "worker_ok (set_conn p c1 ws)" by (rule set_conn_ok [OF ok c1])
    have raw: "buf_read_ptr b = Inr (buf_contents b)" using conn_wf_buf_ok(1) [OF c1] by (simp add: c1_def buf_read_ptr_contents)
    have err: "conn_wf (c1\<lparr>cn_wbuf := w\<rparr>)" if "response_write_error (cn_wbuf c1) 400 False = Inr w" for w
      by (rule write_error_wf [OF that c1]) simp_all
    obtain pr ps where ps: "http_parse_request http_parse_state_init (buf_contents b) = (pr, ps)" by fastforce
    have serve: "worker_ok ws'" if "serve_request env p ps (buf_contents b) c1 (set_conn p c1 ws) = Inr ws'" "pr = PARSE_DONE"
      by (rule serve_request_keeps [OF that(1) w1 c1 env]) (use ps that ms in \<open>simp_all add: c1_def\<close>)
    show ?thesis
      using r' False w1 unfolding b mbind_simps prod.case raw ps c1_def [symmetric]
      by (cases pr) (auto split: if_split_asm elim!: mbind_InrE set_keeps dest!: err intro: serve simp: ok c1 e(2))
  qed
qed

lemma client_event_keeps:
  assumes r: "on_client_event env ev p ws = Inr ws'" and ok: "worker_ok ws" and env: "client_env_ok env"
    and ms: "modules_ok (ws_modules ws) (ws_config ws)"
  shows "worker_ok ws'"
proof -
  from r obtain conn where c: "ws_conns ws p = Some conn"
    unfolding on_client_event_def by (auto elim!: mbind_InrE simp: conn_at_Inr)
  define w1 where "w1 = set_conn p (conn\<lparr>cn_last_active := ws_now ws\<rparr>) ws"
  have w1: "worker_ok w1" "ws_modules w1 = ws_modules ws" "ws_config w1 = ws_config ws"
    using set_conn_ok [OF ok] conn_at_wf [OF ok c] by (simp_all add: w1_def)
  have e: "cl_put env = (True, True)" using env by (simp add: client_env_ok_def)
  have read: "worker_ok w" if "(if ev AND EV_READ \<noteq> 0 then handle_read env p w1 else Inr w1) = Inr w" for w
    using that w1 ms handle_read_keeps [OF _ w1(1) env, of p w] by (auto split: if_split_asm)
  show ?thesis
  proof (cases "ev AND (EV_HUP OR EPOLLERR) \<noteq> 0")
    case True
    then have "ws_pool_put w1 p (True, True) = Inr ws'"
      using r by (simp add: on_client_event_def c conn_at_def e flip: w1_def)
    then show ?thesis by (rule ws_pool_put_keeps [OF w1(1)])
  next
    case False
    then obtain w where w: "(if ev AND EV_READ \<noteq> 0 then handle_read env p w1 else Inr w1) = Inr w"
      "(if ev AND EV_WRITE \<noteq> 0 then handle_write env p w else Inr w) = Inr ws'"
      using r unfolding on_client_event_def c conn_at_def option.case mbind_simps Let_def w1_def [symmetric] by (auto elim!: mbind_InrE)
    then show ?thesis using read [OF w(1)] handle_write_keeps [OF _ _ env, of p w ws'] by (auto split: if_split_asm)
  qed
qed

definition accept_env_ok :: "accept_env \<Rightarrow> bool" where
  "accept_env_ok a \<longleftrightarrow> (\<forall>h. mallocs_ok h (ac_mallocs a h)) \<and> handler_alloc_ok (fst (ac_add a))"

lemma conn_alloc_wf:
  assumes "conn_alloc m = Some (p, c)" "mallocs_ok h m"
  shows "conn_wf c"
proof -
  have "cache_copy_ok c" using assms(1)
    by (auto simp: conn_alloc_def conn_zero_def cache_copy_ok_def split: option.split_asm prod.split_asm if_split_asm)
  then show ?thesis using conn_alloc_ok(2) [OF assms] by (simp add: conn_wf_def)
qed

lemma pool_get_wf:
  assumes "conn_pool_get pool h fd peer m = Inr (pool', h', r)" "conns_wf h" "mallocs_ok h m"
  shows "conns_wf h'"
proof -
  have "conn_wf c" if "h p = Some c" for p c using assms(2) that by (simp add: conns_wf_def)
  moreover have "conn_wf c" if "conn_alloc m = Some (p, c)" for p c by (rule conn_alloc_wf [OF that assms(3)])
  ultimately have "h' = h \<or> (\<exists>p c. conn_wf c \<and> h' = h(p \<mapsto> conn_reset c fd peer))"
    using assms(1) unfolding conn_pool_get_def by (auto elim!: mbind_InrE split: option.split_asm) blast+
  then show ?thesis using assms(2) conn_reset_wf by (auto simp: conns_wf_def split: if_split_asm)
qed

lemma accept_loop_keeps:
  "accept_loop as ws = Inr ws' \<Longrightarrow> worker_ok ws \<Longrightarrow> list_all accept_env_ok as \<Longrightarrow> worker_ok ws'"
proof (induction as arbitrary: ws)
  case (Cons a as)
  show ?case
  proof (cases "ac_accept a")
    case (Accept_fd cfd peer)
    from Cons.prems(1) obtain pool h r where g: "conn_pool_get (ws_pool ws) (ws_conns ws) cfd (Some peer) (ac_mallocs a (ws_conns ws)) = Inr (pool, h, r)"
      by (auto simp: socket_accept_def Accept_fd elim!: mbind_InrE)
    have h: "conns_wf h" using Cons.prems(2,3) by (intro pool_get_wf [OF g]) (simp_all add: worker_ok_def accept_env_ok_def)
    note lo = loop_add_keeps [of "ws_loop ws" "fst (ac_add a)" cfd _ _ _ "snd (ac_add a)"]
    show ?thesis
    proof (cases r)
      case None
      then have "accept_loop as (emit [Closed cfd] (ws\<lparr>ws_pool := pool, ws_conns := h\<rparr>)) = Inr ws'"
        using Cons.prems(1) g by (simp add: socket_accept_def Accept_fd)
      then show ?thesis by (rule Cons.IH) (use Cons.prems(2,3) h in \<open>simp_all add: worker_ok_def\<close>)
    next
      case (Some p)
      with Cons.prems(1) g obtain loop st tw th x where
        l: "event_loop_add (ws_loop ws) cfd (EV_READ OR EV_HUP OR EV_EDGE) On_client_event p (fst (ac_add a) (el_heap (ws_loop ws))) (snd (ac_add a)) = Inr (loop, st)"
        and n: "accept_loop as (ws\<lparr>ws_pool := pool, ws_conns := h, ws_active_conns := ws_active_conns ws + 1, ws_loop := loop, ws_tw := tw, ws_timers := th\<rparr>) = Inr ws'"
        by (auto simp: socket_accept_def Accept_fd Let_def elim!: mbind_InrE)
      have "loop_ok loop" using lo l Cons.prems(2,3) by (simp add: worker_ok_def accept_env_ok_def)
      then show ?thesis by (intro Cons.IH [OF n]) (use Cons.prems(2,3) h in \<open>simp_all add: worker_ok_def\<close>)
    qed
  qed (use Cons.prems in \<open>auto simp: socket_accept_def\<close>)
qed simp

section \<open>Every run of the loop\<close>

definition answers_ok :: "worker_answers \<Rightarrow> bool" where
  "answers_ok a \<longleftrightarrow> client_env_ok (wa_client a) \<and> upstream_env_ok (wa_upstream a) \<and> list_all accept_env_ok (wa_accepts a)"

definition worker_wf :: "worker_state_t \<Rightarrow> bool" where
  "worker_wf ws \<longleftrightarrow> worker_ok ws \<and> modules_ok (ws_modules ws) (ws_config ws)"

lemma worker_callback_keeps:
  assumes "worker_callback a hn ev ws = Inr ws'" "worker_wf ws" "answers_ok a"
  shows "worker_wf ws'"
proof -
  have "worker_ok ws'"
    using assms client_event_keeps [of "wa_client a" ev "eh_ctx hn" ws ws'] upstream_event_keeps [of ws "wa_upstream a" "eh_fd hn" ev "eh_ctx hn" ws']
      accept_loop_keeps [of "wa_accepts a" ws ws']
    by (auto simp: worker_callback_def worker_wf_def answers_ok_def on_accept_event_def signal_handler_def worker_ok_def
        split: ev_handler_fn.split_asm if_split_asm option.splits)
  then show ?thesis using worker_callback_fixed [OF assms(1)] assms(2) by (simp add: worker_wf_def ws_fixed_def)
qed

text \<open>A property of the state that every callback keeps is kept by batches and by the loop.\<close>

lemma run_batch_keeps:
  assumes "\<And>hn ev s s'. call hn ev s = Inr s' \<Longrightarrow> P s \<Longrightarrow> P s'"
  shows "run_batch lp call es s = Inr s' \<Longrightarrow> P s \<Longrightarrow> P s'"
proof (induction es arbitrary: s)
  case (Cons e es)
  then show ?case by (cases e) (auto elim!: mbind_InrE split: option.split_asm dest: assms)
qed simp

lemma event_loop_run_keeps:
  assumes "\<And>hn ev s s'. call hn ev s = Inr s' \<Longrightarrow> P s \<Longrightarrow> P s'"
  shows "event_loop_run lp call running waits s = Inr s' \<Longrightarrow> P s \<Longrightarrow> P s'"
proof (induction waits arbitrary: s)
  case (Cons w waits)
  have "P s1" if "run_batch lp call es s = Inr s1" for es s1
    by (rule run_batch_keeps [where P = P, OF assms that Cons.prems(2)])
  then show ?case using Cons by (cases w) (auto split: if_split_asm elim!: mbind_InrE)
qed simp

lemma worker_loop_keeps:
  assumes "worker_loop ans waits ws = Inr (ws', n)" "worker_wf ws" "\<And>i. answers_ok (ans i)"
  shows "worker_wf ws' \<and> ws_fixed ws' = ws_fixed ws"
proof -
  let ?P = "\<lambda>s. worker_wf (fst s) \<and> ws_fixed (fst s) = ws_fixed ws"
  have "?P s'" if "worker_call ans hn ev s = Inr s'" "?P s" for hn ev s s'
    using that worker_callback_keeps [OF _ _ assms(3)] worker_callback_fixed unfolding worker_call_def by (auto elim!: mbind_InrE)
  from event_loop_run_keeps [where P = ?P, OF this assms(1) [unfolded worker_loop_def]] assms(2) show ?thesis by simp
qed

definition boot_env_ok :: "boot_env \<Rightarrow> bool" where
  "boot_env_ok env \<longleftrightarrow> handler_alloc_ok (fst (bo_add env)) \<and> handler_alloc_ok (fst (snd (snd (bo_signals env))))"

lemma add_listeners_keeps:
  "add_listeners a ls loop = Inr loop' \<Longrightarrow> loop_ok loop \<Longrightarrow> handler_alloc_ok (fst a) \<Longrightarrow> loop_ok loop'"
  by (induction ls arbitrary: loop) (auto elim!: mbind_InrE dest: loop_add_keeps)

lemma signal_init_keeps:
  "signal_init masked sfd a loop = Inr (loop', st) \<Longrightarrow> loop_ok loop \<Longrightarrow> handler_alloc_ok (fst a) \<Longrightarrow> loop_ok loop'"
  by (auto simp: signal_init_def split: if_split_asm dest: loop_add_keeps)

lemma worker_boot_wf:
  assumes b: "worker_boot env cfg listeners modules files = Inr (Some ws)" and env: "boot_env_ok env" and cfg: "config_ok cfg"
    and ms: "modules_ok modules cfg"
  shows "worker_wf ws" "ws_fixed ws = (modules, cfg)"
proof -
  from b obtain loop0 loop1 loop2 st tw pool where
    l: "event_loop_create 1024 (fst (bo_loop env)) (fst (snd (bo_loop env))) (fst (snd (snd (bo_loop env)))) (snd (snd (snd (bo_loop env)))) = Some loop0"
      "signal_init (fst (bo_signals env)) (fst (snd (bo_signals env))) (snd (snd (bo_signals env))) loop0 = Inr (loop1, st)"
      "add_listeners (bo_add env) listeners loop1 = Inr loop2"
    and ws: "ws = \<lparr>ws_listeners = listeners, ws_loop = loop2, ws_tw = tw, ws_timers = Map.empty,
        ws_hctx = boot_hctx env cfg, ws_pool = pool, ws_conns = Map.empty, ws_running = 1, ws_active_conns = 0,
        ws_now = bo_time env, ws_modules = modules,
        ws_access_fd = access_log_init (Some (c_access_log cfg)) (bo_access_fd env), ws_fs = files, ws_trace = []\<rparr>"
    unfolding worker_boot_def by (auto split: option.split_asm elim!: mbind_InrE)
  have "loop_ok loop2"
    using add_listeners_keeps [OF l(3) signal_init_keeps [OF l(2)]] loop_ok_create [OF l(1)] env by (simp add: boot_env_ok_def)
  moreover have "c_servers cfg \<noteq> []" "length (c_servers cfg) \<le> CONFIG_MAX_SERVERS" using cfg by (simp_all add: config_ok_def)
  ultimately show "worker_wf ws" "ws_fixed ws = (modules, cfg)"
    using ms by (simp_all add: ws worker_wf_def worker_ok_def hctx_ok_def conns_wf_def boot_hctx_def ws_fixed_def)
qed


text \<open>A worker with a signal descriptor 4 and a listener 5, which accepts a client and is then told to stop.\<close>

definition demo_boot :: boot_env where
  "demo_boot = \<lparr>bo_time = 0, bo_loop = (True, 3, True, True), bo_wheel = (True, True), bo_pool = True, bo_upstream = \<lambda>_. True,
     bo_limiter = True, bo_metrics = True, bo_stores = \<lambda>_. True, bo_access_fd = 1, bo_signals = (True, 4, demo_alloc 0, True),
     bo_add = (demo_alloc 1, True)\<rparr>"

definition demo_client_env :: client_env where
  "demo_client_env = \<lparr>cl_reads = [], cl_sends = [], cl_writes = [], cl_sendfile = [], cl_read_mod = (demo_alloc 9, True),
     cl_write_mod = (demo_alloc 9, True), cl_put = (True, True), cl_request = Some 4096, cl_clock = (5, 0), cl_handler = demo_handler_env\<rparr>"

definition demo_accept :: accept_env where
  "demo_accept = \<lparr>ac_accept = Accept_fd 6 (1, 2), ac_mallocs = \<lambda>h. if h 0 = None then demo_mallocs 0 else (demo_mallocs 0)\<lparr>cm_conn := None\<rparr>,
     ac_add = (demo_alloc 2, True), ac_timer = \<lambda>h. None, ac_now = 0\<rparr>"

definition demo_answers :: worker_answers where
  "demo_answers = \<lparr>wa_client = demo_client_env, wa_upstream = demo_upstream_env, wa_accepts = [demo_accept], wa_signal = Some SIGTERM\<rparr>"

lemma demo_answers_ok: "answers_ok demo_answers"
proof -
  have "handler_env_ok demo_handler_env"
    by (simp add: handler_env_ok_def demo_handler_env_def demo_alloc_ok kernel_write_ok_def fmt_f_ok_def)
  then have "client_env_ok demo_client_env" by (simp add: client_env_ok_def demo_client_env_def demo_alloc_ok)
  moreover have "accept_env_ok demo_accept"
    using demo_mallocs_ok [where p = 0] by (simp add: accept_env_ok_def demo_accept_def demo_alloc_ok mallocs_ok_def demo_mallocs_def)
  ultimately show ?thesis by (simp add: answers_ok_def demo_answers_def demo_upstream_env_ok)
qed

lemma demo_worker_boot:
  "\<exists>ws. worker_boot demo_boot config_defaults [\<lparr>sk_fd = 5, sk_addr = (0, 8080)\<rparr>] [] Map.empty = Inr (Some ws) \<and>
     ws_listeners ws = [\<lparr>sk_fd = 5, sk_addr = (0, 8080)\<rparr>] \<and> ws_running ws = 1 \<and> ws_active_conns ws = 0 \<and>
     ws_conns ws = Map.empty \<and> cp_free_head (ws_pool ws) = None \<and> el_max_fd (ws_loop ws) = 65536 \<and> el_handlers (ws_loop ws) = [4 \<mapsto> 0, 5 \<mapsto> 1] \<and>
     el_heap (ws_loop ws) = [0 \<mapsto> \<lparr>eh_fn = Signal_handler, eh_ctx = 0, eh_fd = 4\<rparr>, 1 \<mapsto> \<lparr>eh_fn = On_accept_event, eh_ctx = 0, eh_fd = 5\<rparr>] \<and>
     el_interest (ws_loop ws) = [4 \<mapsto> (EV_READ OR EV_EDGE, Some 0), 5 \<mapsto> (EV_READ OR EV_EDGE, Some 1)]"
  by (simp add: worker_boot_def demo_boot_def event_loop_create_def timeout_wheel_create_def conn_pool_create_def signal_init_def
      event_loop_add_def loop_ctl_def demo_alloc_def Let_def)

lemma demo_worker_loop:
  "\<exists>ws ws' n. worker_boot demo_boot config_defaults [\<lparr>sk_fd = 5, sk_addr = (0, 8080)\<rparr>] [] Map.empty = Inr (Some ws) \<and>
     worker_loop (\<lambda>_. demo_answers) [Wait_events [(5, EV_READ)], Wait_events [(4, EV_READ)], Wait_eintr] ws = Inr (ws', n) \<and>
     ws_running ws' = 0 \<and> ws_active_conns ws' = 1"
proof -
  from demo_worker_boot obtain ws where ws: "worker_boot demo_boot config_defaults [\<lparr>sk_fd = 5, sk_addr = (0, 8080)\<rparr>] [] Map.empty = Inr (Some ws)"
    "ws_listeners ws = [\<lparr>sk_fd = 5, sk_addr = (0, 8080)\<rparr>]" "ws_running ws = 1" "ws_active_conns ws = 0"
    "ws_conns ws = Map.empty" "cp_free_head (ws_pool ws) = None" "el_max_fd (ws_loop ws) = 65536" "el_handlers (ws_loop ws) = [4 \<mapsto> 0, 5 \<mapsto> 1]"
    "el_heap (ws_loop ws) = [0 \<mapsto> \<lparr>eh_fn = Signal_handler, eh_ctx = 0, eh_fd = 4\<rparr>, 1 \<mapsto> \<lparr>eh_fn = On_accept_event, eh_ctx = 0, eh_fd = 5\<rparr>]"
    "el_interest (ws_loop ws) = [4 \<mapsto> (EV_READ OR EV_EDGE, Some 0), 5 \<mapsto> (EV_READ OR EV_EDGE, Some 1)]" by blast
  from conn_alloc_demo [of 0] obtain c where c: "conn_alloc (demo_mallocs 0) = Some (0, c)" ..
  have "\<exists>ws' n. worker_loop (\<lambda>_. demo_answers) [Wait_events [(5, EV_READ)], Wait_events [(4, EV_READ)], Wait_eintr] ws = Inr (ws', n) \<and>
      ws_running ws' = 0 \<and> ws_active_conns ws' = 1"
    using ws(2-) c
    by (simp add: worker_loop_def ready_events_def worker_call_def worker_callback_def demo_answers_def on_accept_event_def demo_accept_def
        socket_accept_def conn_pool_get_def event_loop_add_def loop_ctl_def demo_alloc_def timeout_add_def signal_handler_def Let_def)
  with ws(1) show ?thesis by blast
qed

lemma demo_boot_ok: "boot_env_ok demo_boot"
  by (simp add: boot_env_ok_def demo_boot_def demo_alloc_ok)


end
