(* ===== verification/Worker_Events.thy ===== *)
theory Worker_Events
  imports Worker_Inv
begin

text \<open>
  What single events do to a worker: an event that is both readable and writable when the client
  has gone, and the file that the dispatcher has started to send.
\<close>

section \<open>Put back twice\<close>

lemma buf_send_all_empty: "buf_readable b = 0 \<Longrightarrow> buf_send_all ks b = Inr (b, 0, [])"
  by (cases ks) (simp_all add: buf_send_def buf_write_fd_def)

lemma pool_put_back:
  assumes ok: "worker_ok ws" and c: "ws_conns ws p = Some c" and room: "cp_free_count (ws_pool ws) < cp_max_free (ws_pool ws)"
  obtains ws' c' where "ws_pool_put ws p (True, True) = Inr ws'" "worker_ok ws'" "ws_conns ws' = (ws_conns ws)(p \<mapsto> c')"
    "cn_state c' = CONN_CLOSING" "buf_readable (cn_wbuf c') = 0" "cn_next c' = cp_free_head (ws_pool ws)"
    "ws_pool ws' = (ws_pool ws)\<lparr>cp_free_head := Some p, cp_free_count := cp_free_count (ws_pool ws) + 1\<rparr>"
proof -
  have lo: "loop_ok (ws_loop ws)" using ok by (simp add: worker_ok_def)
  from conn_close_ok [OF lo, of c] obtain loop' c1 fds where
    cl: "conn_close (ws_loop ws) c True True = Inr (loop', c1, fds)" "cn_state c1 = CONN_CLOSING" by blast
  let ?c = "(conn_init_bufs (c1\<lparr>cn_arena := arena_reset (cn_arena c1)\<rparr>))\<lparr>cn_next := cp_free_head (ws_pool ws)\<rparr>"
  let ?ws = "emit (map Closed fds) (ws\<lparr>ws_pool := (ws_pool ws)\<lparr>cp_free_head := Some p, cp_free_count := cp_free_count (ws_pool ws) + 1\<rparr>,
      ws_conns := (ws_conns ws)(p \<mapsto> ?c), ws_loop := loop'\<rparr>)"
  have put: "ws_pool_put ws p (True, True) = Inr ?ws"
    using room by (simp add: ws_pool_put_def conn_pool_put_def c cl(1) Let_def)
  show ?thesis
    by (rule that [where c' = ?c, OF put ws_pool_put_keeps [OF ok put]])
      (simp_all add: cl(2) conn_init_bufs_def buf_reset_def buf_readable_def emit_def)
qed

text \<open>
  C24: When one event says that a client is readable and writable, and the read finds the end of the
  stream or an error, the connection is put back into the pool twice: its place in the free list
  then points to itself. The next two clients are given the same connection, and a worker that
  shuts down before that follows the pointer of a connection it has freed.
\<close>

theorem client_gone_put_twice:
  assumes "worker_ok ws" "ws_conns ws p = Some c" "cp_free_count (ws_pool ws) + 2 \<le> cp_max_free (ws_pool ws)"
    and "cl_put env = (True, True)" "cn_state c \<noteq> CONN_TUNNEL" "list_all kernel_read_ok (cl_reads env)"
    and "buf_recv_all (cl_reads env) (cn_rbuf c) = Inr (b, n, s)" "n = np_code NP_ERR_CLOSED \<or> n = np_code NP_ERR"
  shows "\<exists>ws' pool2 h2 pool3 h3. on_client_event env (EV_READ OR EV_WRITE) p ws = Inr ws' \<and>
    conn_pool_get (ws_pool ws') (ws_conns ws') fd (Some peer) m = Inr (pool2, h2, Some p) \<and>
    conn_pool_get pool2 h2 fd' (Some peer') m' = Inr (pool3, h3, Some p) \<and>
    conn_pool_destroy (ws_pool ws') (ws_conns ws') = Some (Inl Out_of_bounds)"
proof -
  define c1 where "c1 = c\<lparr>cn_last_active := ws_now ws, cn_rbuf := b\<rparr>"
  define w1 where "w1 = set_conn p c1 ws"
  have "conn_wf c" by (rule conn_at_wf [OF assms(1,2)])
  then have c1: "conn_wf c1" using recv_all_wf(1) [OF _ assms(6), of "c\<lparr>cn_last_active := ws_now ws\<rparr>" b n s] assms(7) by (simp add: c1_def)
  have w1: "worker_ok w1" "ws_conns w1 p = Some c1" "ws_pool w1 = ws_pool ws" using set_conn_ok [OF assms(1) c1] by (simp_all add: w1_def)
  have room: "cp_free_count (ws_pool w1) < cp_max_free (ws_pool w1)" using assms(3) w1(3) by simp
  obtain w2 c2 where p1: "ws_pool_put w1 p (True, True) = Inr w2" "worker_ok w2" "ws_conns w2 = (ws_conns w1)(p \<mapsto> c2)"
    "cn_state c2 = CONN_CLOSING" "buf_readable (cn_wbuf c2) = 0"
    "ws_pool w2 = (ws_pool w1)\<lparr>cp_free_head := Some p, cp_free_count := cp_free_count (ws_pool w1) + 1\<rparr>"
    by (rule pool_put_back [OF w1(1,2) room]) (rule that)
  have read: "handle_read env p (set_conn p (c\<lparr>cn_last_active := ws_now ws\<rparr>) ws) = Inr w2"
    using assms(4,5,7,8) p1(1) by (auto simp: handle_read_def conn_at_def set_conn_def c1_def w1_def)
  have same: "set_conn p (c2\<lparr>cn_wbuf := cn_wbuf c2\<rparr>) w2 = w2" using p1(3) by (simp add: set_conn_def)
  have room2: "cp_free_count (ws_pool w2) < cp_max_free (ws_pool w2)" using assms(3) w1(3) p1(6) by simp
  have c2: "ws_conns w2 p = Some c2" using p1(3) by simp
  obtain w3 c3 where p2: "ws_pool_put w2 p (True, True) = Inr w3" "ws_conns w3 = (ws_conns w2)(p \<mapsto> c3)"
    "cn_next c3 = cp_free_head (ws_pool w2)"
    "ws_pool w3 = (ws_pool w2)\<lparr>cp_free_head := Some p, cp_free_count := cp_free_count (ws_pool w2) + 1\<rparr>"
    by (rule pool_put_back [OF p1(2) c2 room2]) (rule that)
  have "handle_write env p w2 = Inr w3"
    using same p2(1) assms(4) by (simp add: handle_write_def conn_at_def c2 p1(4) buf_send_all_empty [OF p1(5)] sent_def emit_def p1(5))
  then have "on_client_event env (EV_READ OR EV_WRITE) p ws = Inr w3"
    using read by (simp add: on_client_event_def conn_at_def assms(2))
  moreover have "cn_next c3 = Some p" using p2(3) p1(6) by simp
  ultimately show ?thesis
    using p2(2,4) by (auto simp: conn_pool_get_def conn_pool_destroy_def pool_destroy_loop.simps)
qed

definition demo_eof :: client_env where
  "demo_eof = demo_client_env\<lparr>cl_reads := [\<lambda>_. Read_data []]\<rparr>"

lemma demo_behind_wf: "conn_wf demo_behind"
  unfolding demo_behind_def conn_wf_simps
  by (rule conn_wf_bufs(3) [OF demo_conn_ok(2)]) (simp_all add: buf_ok_def demo_conn_def demo_buf_ok)

theorem client_gone_put_twice_witness:
  "\<exists>ws' pool2 h2 pool3 h3. on_client_event demo_eof (EV_READ OR EV_WRITE) 0 (demo_worker config_defaults demo_behind) = Inr ws' \<and>
    conn_pool_get (ws_pool ws') (ws_conns ws') 8 (Some (1, 2)) (demo_mallocs 1) = Inr (pool2, h2, Some 0) \<and>
    conn_pool_get pool2 h2 9 (Some (3, 4)) (demo_mallocs 2) = Inr (pool3, h3, Some 0) \<and>
    conn_pool_destroy (ws_pool ws') (ws_conns ws') = Some (Inl Out_of_bounds)"
proof -
  have ok: "worker_ok (demo_worker config_defaults demo_behind)"
    by (rule demo_worker_ok [OF demo_behind_wf]) (simp_all add: config_defaults_def)
  have "\<exists>b. buf_recv_all (cl_reads demo_eof) (cn_rbuf demo_behind) = Inr (b, np_code NP_ERR_CLOSED, [])"
    by (simp add: demo_eof_def demo_behind_def demo_conn_def demo_buf_def buf_recv_def buf_read_fd_def buf_compact_def buf_readable_def
        buf_writable_def buf_reset_def)
  then obtain b where b: "buf_recv_all (cl_reads demo_eof) (cn_rbuf demo_behind) = Inr (b, np_code NP_ERR_CLOSED, [])" ..
  show ?thesis
    by (rule client_gone_put_twice [OF ok _ _ _ _ _ b])
      (simp_all add: demo_worker_def demo_pool_def demo_eof_def demo_client_env_def demo_behind_def kernel_read_ok_def)
qed

section \<open>The body of a file\<close>

text \<open>The end of \<^verbatim>\<open>handle_read\<close> for a client that takes the whole output.\<close>

lemma send_response_drained:
  assumes "worker_ok w" "ws_conns w p = Some c" "cn_state c \<noteq> CONN_PROXYING" "cn_state c \<noteq> CONN_TUNNEL" "0 \<le> cn_fd c" "client_env_ok env"
    and "buf_send_all (cl_sends env) (cn_wbuf c) = Inr (b, n, out)" "buf_readable b = 0"
  shows "\<exists>ws'. send_response env p w = Inr ws' \<and>
    (if cn_keep_alive c
     then ws_trace ws' = ws_trace w @ sent (cn_fd c) out \<and> ws_conns ws' p = Some (next_request (c\<lparr>cn_wbuf := b\<rparr>))
     else ws_trace ws' = ws_trace w @ sent (cn_fd c) out @ map Closed (filter (\<lambda>fd. 0 \<le> fd) [cn_fd c, cn_upstream_fd c, cn_file_fd c]))"
proof -
  have e: "cl_put env = (True, True)" "handler_alloc_ok (fst (cl_read_mod env))" "list_all kernel_write_ok (cl_sends env)"
    using assms(6) by (simp_all add: client_env_ok_def)
  note wf = send_all_wf(1) [OF conn_at_wf [OF assms(1,2)] e(3) assms(7)]
  define c1 where "c1 = c\<lparr>cn_wbuf := b\<rparr>"
  define w1 where "w1 = emit (sent (cn_fd c) out) (set_conn p c1 w)"
  have w1: "worker_ok w1" "ws_conns w1 p = Some c1" "ws_trace w1 = ws_trace w @ sent (cn_fd c) out"
    using set_conn_ok [OF assms(1) wf] by (simp_all add: w1_def c1_def)
  show ?thesis
  proof (cases "cn_keep_alive c")
    case True
    have "worker_ok (set_conn p (next_request c1) w1)" using set_conn_ok [OF w1(1) next_request_wf [OF wf]] by (simp add: c1_def)
    from ws_event_mod_ok [OF this e(2) assms(5)] obtain l where
      "ws_event_mod (set_conn p (next_request c1) w1) (cn_fd c) (EV_READ OR EV_HUP OR EV_EDGE) On_client_event p (cl_read_mod env) =
         Inr ((set_conn p (next_request c1) w1)\<lparr>ws_loop := l\<rparr>)" by blast
    then have "send_response env p w = Inr ((set_conn p (next_request c1) w1)\<lparr>ws_loop := l\<rparr>)"
      using True assms(2,3,4,7,8) by (simp add: send_response_def conn_at_def w1_def c1_def Let_def)
    then show ?thesis using True w1(3) by (simp add: c1_def)
  next
    case False
    obtain ws' where p: "ws_pool_put w1 p (True, True) = Inr ws'"
      "ws_trace ws' = ws_trace w1 @ map Closed (filter (\<lambda>fd. 0 \<le> fd) [cn_fd c1, cn_upstream_fd c1, cn_file_fd c1])"
      by (rule ws_pool_put_ok [OF w1(1,2)]) (rule that)
    then have "send_response env p w = Inr ws'"
      using False assms(2,3,4,7,8) e(1) by (simp add: send_response_def conn_at_def w1_def c1_def Let_def)
    then show ?thesis using False p(2) w1(3) by (simp add: c1_def)
  qed
qed

text \<open>
  C26: The body of a file is never sent after the request that asked for it: the file server leaves the
  connection in the state that sends a file, but the code after the dispatcher treats every state
  other than a proxied one as a finished response. When the client has taken the head, a
  connection that is kept alive goes back to waiting for a request, with the file still open and all
  of it unsent, and any other connection is closed.
\<close>

theorem file_body_lost:
  assumes "file_server_handle fe p conn loop req server = Inr (c, loop', 200, out0, closed)"
    and "worker_ok w" "ws_conns w p = Some c" "0 \<le> cn_fd c" "client_env_ok env"
    and "buf_send_all (cl_sends env) (cn_wbuf c) = Inr (b, n, out)" "buf_readable b = 0"
  shows "\<exists>ws'. send_response env p w = Inr ws' \<and>
    (if cn_keep_alive c
     then ws_trace ws' = ws_trace w @ sent (cn_fd c) out \<and>
       (\<exists>c'. ws_conns ws' p = Some c' \<and> cn_state c' = CONN_READING_REQUEST \<and> 0 \<le> cn_fd c' \<and>
          cn_file_fd c' = cn_file_fd c \<and> cn_file_remaining c' = cn_file_remaining c)
     else ws_trace ws' = ws_trace w @ sent (cn_fd c) out @ map Closed (filter (\<lambda>fd. 0 \<le> fd) [cn_fd c, cn_upstream_fd c, cn_file_fd c]))"
proof -
  have "cn_state c = CONN_SENDFILE" using assms(1) by (cases rule: file_server_cases) simp_all
  with send_response_drained [OF assms(2,3) _ _ assms(4-7)] assms(4) show ?thesis
    by (cases "cn_keep_alive c") (auto simp: next_request_def)
qed

text \<open>A server with one file of twelve bytes, and a client that takes all it is sent.\<close>

definition demo_one_file :: file_env where
  "demo_one_file = \<lparr>fe_open = \<lambda>_. 9, fe_stat = \<lambda>_. Some \<lparr>st_regular = True, st_mtime = 3, st_size = 12\<rparr>,
     fe_write = \<lambda>t. Write_n (length t), fe_malloc = None, fe_epoll = True\<rparr>"

lemma demo_file_served:
  assumes "conn_wf conn" "0 \<le> cn_fd conn"
  obtains c loop out where
    "file_server_handle demo_one_file p conn demo_loop (demo_request ''/a'') (server_zero\<lparr>srv_static_root := ''/srv''\<rparr>) = Inr (c, loop, 200, out, [])"
    "cn_fd c = cn_fd conn" "cn_keep_alive c = cn_keep_alive conn" "cn_file_remaining c = 12" "cn_file_fd c = 9" "conn_wf c"
proof -
  let ?st = "\<lparr>st_regular = True, st_mtime = 3, st_size = 12\<rparr>"
  let ?f = "\<lambda>b. conn\<lparr>cn_wbuf := b, cn_file_fd := 9, cn_file_offset := 0, cn_file_remaining := 12, cn_state := CONN_SENDFILE\<rparr>"
  have "file_env_ok demo_one_file demo_loop"
    by (simp add: file_env_ok_def demo_one_file_def fresh_handler_def kernel_write_ok_def)
  from serve_file_ok [OF _ demo_loop_ok assms(2) this, of ?st "file_extension ''/srv/a''" "req_keep_alive (demo_request ''/a'')"
      "EV_WRITE OR EV_READ OR EV_HUP OR EV_EDGE" p ?f "[] :: int list"] assms(1)
  obtain b l out where s: "mbind (buf_put_fmt 512 (cn_wbuf conn) (file_head (mime_by_extension (file_extension ''/srv/a'')) ?st (req_keep_alive (demo_request ''/a''))))
      (\<lambda>wbuf. mbind (buf_send (fe_write demo_one_file) wbuf) (\<lambda>(wbuf, _, sent).
        mbind (event_loop_mod demo_loop (cn_fd conn) (EV_WRITE OR EV_READ OR EV_HUP OR EV_EDGE) On_client_event p (fe_malloc demo_one_file) (fe_epoll demo_one_file))
          (\<lambda>(loop, _). Inr (?f wbuf, loop, 200 :: int, sent, [] :: int list)))) = Inr (?f b, l, 200, out, [])" "buf_ok b" "b_cap b = b_cap (cn_wbuf conn)"
    by (auto simp: conn_wf_def)
  have path: "cstr (take (min (length (req_path (demo_request ''/a''))) 4095) (req_path (demo_request ''/a''))) = ''/a''"
    "path_is_safe ''/a''" "min (length (req_path (demo_request ''/a''))) 4095 = 2" "request_header (demo_request ''/a'') ''If-None-Match'' = None"
    by (simp_all add: demo_request_def cstr_def path_is_safe_def request_header_def request_zero_def)
  have found: "open_default demo_one_file ''/srv'' ''/a'' 2 = Inr (Some (''/srv/a'', 9, ?st), [])"
    by (simp add: open_default_def open_regular_def demo_one_file_def)
  have "file_server_handle demo_one_file p conn demo_loop (demo_request ''/a'') (server_zero\<lparr>srv_static_root := ''/srv''\<rparr>) = Inr (?f b, l, 200, out, [])"
    unfolding file_server_handle_def Let_def path(1) unfolding path(3) using s(1) by (simp add: path(2,4) found server_zero_def)
  then show ?thesis
    by (rule that) (use conn_wf_wbuf [OF assms(1)] s(2,3) in simp_all)
qed

theorem file_body_lost_witness:
  "\<exists>c loop out0 ws'. file_server_handle demo_one_file 0 ((demo_conn 5)\<lparr>cn_keep_alive := True\<rparr>) demo_loop (demo_request ''/a'')
      (server_zero\<lparr>srv_static_root := ''/srv''\<rparr>) = Inr (c, loop, 200, out0, []) \<and>
    send_response (demo_client_env\<lparr>cl_sends := client_takes 1000000\<rparr>) 0 (demo_worker config_defaults c) = Inr ws' \<and>
    (\<exists>c'. ws_conns ws' 0 = Some c' \<and> cn_state c' = CONN_READING_REQUEST \<and> cn_file_fd c' = 9 \<and> cn_file_remaining c' = 12)"
proof -
  have wf: "conn_wf ((demo_conn 5)\<lparr>cn_keep_alive := True\<rparr>)" using demo_conn_ok(2) by simp
  have fd: "0 \<le> cn_fd ((demo_conn 5)\<lparr>cn_keep_alive := True\<rparr>)" by (simp add: demo_conn_def)
  let ?env = "demo_client_env\<lparr>cl_sends := client_takes 1000000\<rparr>"
  obtain c loop out where c: "file_server_handle demo_one_file 0 ((demo_conn 5)\<lparr>cn_keep_alive := True\<rparr>) demo_loop (demo_request ''/a'')
      (server_zero\<lparr>srv_static_root := ''/srv''\<rparr>) = Inr (c, loop, 200, out, [])"
    "cn_fd c = cn_fd ((demo_conn 5)\<lparr>cn_keep_alive := True\<rparr>)" "cn_keep_alive c = cn_keep_alive ((demo_conn 5)\<lparr>cn_keep_alive := True\<rparr>)"
    "cn_file_remaining c = 12" "cn_file_fd c = 9" "conn_wf c"
    by (rule demo_file_served [OF wf fd]) (rule that)
  have ok: "worker_ok (demo_worker config_defaults c)" by (rule demo_worker_ok [OF c(6)]) (simp_all add: config_defaults_def)
  have env: "client_env_ok ?env"
    using demo_answers_ok client_takes_ok by (simp add: answers_ok_def demo_answers_def client_env_ok_def)
  obtain b n where b: "buf_send_all (client_takes 1000000) (cn_wbuf c) = Inr (b, n, take 1000000 (buf_contents (cn_wbuf c)))" "buf_ok b"
    "buf_contents b = drop 1000000 (buf_contents (cn_wbuf c))"
    by (rule buf_send_client_takes [OF conn_wf_buf_ok(2) [OF c(6)]]) (rule that)
  have "length (buf_contents (cn_wbuf c)) \<le> 131072"
    using c(6) buf_room_contents_le [of "cn_wbuf c"] by (simp add: conn_wf_def conn_ok_def buf_sized_def)
  then have "buf_readable b = 0" using b(2,3) by (simp add: buf_readable_0_iff)
  then show ?thesis
    using file_body_lost [OF c(1) ok _ _ env, of b n "take 1000000 (buf_contents (cn_wbuf c))"] b(1) c
    by (auto simp: demo_worker_def demo_conn_def)
qed

end
