(* ===== verification/Worker_Serve.thy ===== *)
theory Worker_Serve
  imports Worker_Events
begin

text \<open>
  A request from its bytes to the answer, through the read loop, the parser, the dispatcher and the
  write loop; and the connections that a worker still counts when it is told to stop.
\<close>

section \<open>From the bytes to the dispatcher\<close>

lemma recv_once:
  assumes "buf_ok b" "s \<noteq> []" "buf_contents b = []" "length s \<le> unat (b_cap b)"
  obtains b' n where "buf_recv_all [\<lambda>room. Read_data (take room s)] b = Inr (b', n, s)" "n \<noteq> np_code NP_ERR_CLOSED" "n \<noteq> np_code NP_ERR"
    "buf_contents b' = s" "buf_ok b'" "b_cap b' = b_cap b"
proof -
  obtain b1 where b1: "buf_recv (\<lambda>room. Read_data (take room s)) b = Inr (b1, int (length s), s)" "buf_ok b1" "b_cap b1 = b_cap b"
    "buf_contents b1 = buf_contents b @ s"
    by (rule buf_recv_data [OF assms(1,2)]) (use assms(3,4) that in simp_all)
  obtain b2 where b2: "buf_compact b1 = Inr b2" "buf_ok b2" "buf_contents b2 = buf_contents b1" "b_cap b2 = b_cap b1"
    using buf_compact_ok [OF b1(2)] by blast
  have "buf_recv (\<lambda>_. Read_eagain) b1 = Inr (b2, if buf_writable b2 = 0 then 0 else np_code NP_ERR_AGAIN, [])"
    by (simp add: buf_recv_def buf_read_fd_def b2(1))
  then show ?thesis
    using that [of b2 "if buf_writable b2 = 0 then 0 else np_code NP_ERR_AGAIN"] b1 b2 assms(2,3) by simp
qed

lemma handle_read_parsed:
  assumes ok: "worker_ok ws" "ws_conns ws p = Some c"
    and idle: "cn_state c = CONN_READING_REQUEST" "buf_contents (cn_rbuf c) = []"
    and msg: "wf_uri uri" "v \<noteq> HTTP_NONE" "list_all wf_header hs" "length hs \<le> NP_MAX_HEADERS" "content_length_of v hs = 0"
      "msg = render_line m uri v @ render_headers hs @ CRLF" "length msg \<le> 65536"
    and env: "cl_reads env = [\<lambda>room. Read_data (take room msg)]"
  obtains ps b where "handle_read env p ws = serve_request env p ps msg (c\<lparr>cn_rbuf := b\<rparr>) (set_conn p (c\<lparr>cn_rbuf := b\<rparr>) ws)"
    "conn_wf (c\<lparr>cn_rbuf := b\<rparr>)" "buf_contents b = msg" "parsed_as ps m uri v hs" "ps_parsed_bytes ps = length msg"
proof -
  note wf = conn_at_wf [OF ok]
  have rb: "buf_ok (cn_rbuf c)" "unat (b_cap (cn_rbuf c)) = 65536" using wf by (simp_all add: conn_wf_def conn_ok_def buf_sized_def)
  have ne: "msg \<noteq> []" using msg(6) by simp
  obtain b n where b: "buf_recv_all [\<lambda>room. Read_data (take room msg)] (cn_rbuf c) = Inr (b, n, msg)" "n \<noteq> np_code NP_ERR_CLOSED" "n \<noteq> np_code NP_ERR"
    "buf_contents b = msg" "buf_ok b" "b_cap b = b_cap (cn_rbuf c)"
    by (rule recv_once [OF rb(1) ne idle(2)]) (use msg(7) rb(2) that in simp_all)
  obtain ps where ps: "http_parse_request http_parse_state_init msg = (PARSE_DONE, ps)" "parsed_as ps m uri v hs" "ps_parsed_bytes ps = length msg"
    using parse_wire [OF msg(1-4), of "[]" m "[]"] msg(5,6) by auto
  have "handle_read env p ws = serve_request env p ps msg (c\<lparr>cn_rbuf := b\<rparr>) (set_conn p (c\<lparr>cn_rbuf := b\<rparr>) ws)"
    using ok(2) idle(1) b ps(1) buf_readable_0_iff [OF b(5)] ne
    by (simp add: handle_read_def conn_at_def buf_read_ptr_contents env(1) Let_def)
  then show ?thesis using that [of ps b] conn_wf_bufs(1) [OF wf b(5,6)] b(4) ps(2,3) by blast
qed

lemma serve_request_dispatches:
  assumes c: "conn_wf c" "buf_contents (cn_rbuf c) = raw" and ps: "parsed_as ps m uri v hs" "ps_parsed_bytes ps = length raw"
    and env: "cl_request env = Some addr"
  obtains a b req where "req = request_populate request_zero ps raw (fst (cl_clock env)) (snd (cl_clock env))"
    "serve_request env p ps raw c ws = mbind (handler_dispatch (cl_handler env) p req
       (set_conn p (c\<lparr>cn_arena := a, cn_rbuf := b, cn_keep_alive := keep_alive_of v hs, cn_request := Some req\<rparr>) ws)) (send_response env p)"
    "conn_wf (c\<lparr>cn_arena := a, cn_rbuf := b, cn_keep_alive := keep_alive_of v hs, cn_request := Some req\<rparr>)" "buf_contents b = []"
proof -
  define req where "req = request_populate request_zero ps raw (fst (cl_clock env)) (snd (cl_clock env))"
  have "\<exists>a. request_create (cn_arena c) (Some addr) = (a, Some request_zero)"
    by (simp add: request_create_def arena_alloc_aligned_def block_create_def Let_def split: prod.split)
  then obtain a where a: "request_create (cn_arena c) (Some addr) = (a, Some request_zero)" ..
  define b where "b = buf_consume (cn_rbuf c) (of_nat (length raw))"
  note b = buf_consume_ok [OF conn_wf_buf_ok(1) [OF c(1)], of "length raw", folded b_def]
  have wfa: "conn_wf (c\<lparr>cn_arena := a\<rparr>)" by (rule conn_wf_arena [OF c(1) request_create_ne [OF conn_wf_blocks [OF c(1)] a]])
  have "conn_wf (c\<lparr>cn_arena := a, cn_rbuf := b, cn_keep_alive := keep_alive_of v hs, cn_request := Some req\<rparr>)"
    unfolding conn_wf_simps using b c(2) by (intro conn_wf_bufs(1) [OF wfa]) simp_all
  moreover have "buf_contents b = []" using b c(2) by simp
  ultimately show ?thesis using that [OF req_def, where a = a and b = b] a ps by (simp add: serve_request_def env b_def req_def parsed_as_def Let_def)
qed

section \<open>The health page\<close>

lemma sent_all:
  assumes "buf_ok b" "length (buf_contents b) \<le> k"
  obtains b' n where "buf_send_all (client_takes k) b = Inr (b', n, buf_contents b)" "buf_readable b' = 0" "buf_ok b'" "b_cap b' = b_cap b"
proof -
  obtain b' n where b: "buf_send_all (client_takes k) b = Inr (b', n, take k (buf_contents b))" "buf_ok b'" "b_cap b' = b_cap b"
    "buf_contents b' = drop k (buf_contents b)" by (rule buf_send_client_takes [OF assms(1)]) (rule that)
  show ?thesis by (rule that [of b' n]) (use b assms(2) in \<open>simp_all add: buf_readable_0_iff\<close>)
qed

text \<open>A clock and a text of the time as the C library gives them.\<close>

definition clocks_ok :: "handler_env \<Rightarrow> bool" where
  "clocks_ok env \<longleftrightarrow> length (le_tsbuf (he_log env)) < 32 \<and> 0 \<le> ts_nsec (he_start env) \<and> ts_nsec (he_start env) < 1000000000 \<and>
     0 \<le> ts_nsec (le_stop (he_log env)) \<and> ts_nsec (le_stop (he_log env)) < 1000000000 \<and>
     ts_sec (he_start env) \<le> ts_sec (le_stop (he_log env)) \<and> ts_sec (le_stop (he_log env)) - ts_sec (he_start env) < 1000000000"

text \<open>A worker with no modules, no rate limit, no metrics and no rewriting.\<close>

definition plain_worker :: "worker_state_t \<Rightarrow> bool" where
  "plain_worker ws \<longleftrightarrow> ws_modules ws = [] \<and> hc_rate_limiter (ws_hctx ws) = None \<and> hc_metrics (ws_hctx ws) = None \<and>
     list_all (\<lambda>s. srv_rewrite s = []) (c_servers (ws_config ws)) \<and> 0 \<le> ws_access_fd ws"

lemma logged:
  assumes "access_args_ok req st start (le_stop le) (le_tsbuf le)" "length (req_path req) \<le> 870" "0 \<le> ws_access_fd ws"
  shows "\<exists>line. ws_access_log le req st start ws = Inr (emit [Logged line] ws)"
proof -
  from access_log_write_fits [OF assms, of 0] obtain us where
    us: "access_log_write (ws_access_fd ws) req st 0 start (le_stop le) (le_tsbuf le) = Inr (access_line req st 0 (le_tsbuf le) us)" ..
  have "access_line req st 0 (le_tsbuf le) us \<noteq> []" by (simp add: access_line_def)
  then show ?thesis using us by (auto simp: ws_access_log_def)
qed

lemma dispatch_health:
  assumes ok: "worker_ok ws" and c: "ws_conns ws p = Some conn" and plain: "plain_worker ws" and clocks: "clocks_ok env"
    and path: "path_matches (req_path req) ''/healthz''" "length (req_path req) \<le> 870" and room: "512 \<le> buf_room (cn_wbuf conn)"
  obtains line b r where "handler_dispatch env p req ws =
      Inr (emit [Logged line] (set_conn p (conn\<lparr>cn_request := Some r, cn_wbuf := b, cn_state := CONN_WRITING_RESPONSE\<rparr>) ws))"
    "conn_wf (conn\<lparr>cn_wbuf := b\<rparr>)" "buf_contents b = buf_contents (cn_wbuf conn) @ healthz_response (req_keep_alive req)"
proof -
  define r1 where "r1 = req\<lparr>req_remote_ip := inet_ntop (fst (cn_peer conn))\<rparr>"
  define c1 where "c1 = conn\<lparr>cn_request := Some r1\<rparr>"
  define i where "i = select_server (ws_config ws) r1"
  note wf = conn_at_wf [OF ok c]
  have c1: "conn_wf c1" using wf by (simp add: c1_def)
  have "length (healthz_response (req_keep_alive r1)) \<le> buf_room (cn_wbuf c1)"
    using room by (simp add: c1_def HEALTHZ_RESPONSE_KA_def HEALTHZ_RESPONSE_CLOSE_def)
  then obtain b where b: "health_handle c1 r1 = Inr (c1\<lparr>cn_wbuf := b, cn_state := CONN_WRITING_RESPONSE\<rparr>)"
    "buf_contents b = buf_contents (cn_wbuf c1) @ healthz_response (req_keep_alive r1)"
    using health_handle_ok [of c1 r1] c1 by (auto simp: conn_wf_def)
  have "c1\<lparr>cn_wbuf := b, cn_state := CONN_WRITING_RESPONSE\<rparr> = conn\<lparr>cn_wbuf := b, cn_request := Some r1, cn_state := CONN_WRITING_RESPONSE\<rparr>"
    by (simp add: c1_def)
  with health_route_keeps [OF b(1) c1] have wfb: "conn_wf (conn\<lparr>cn_wbuf := b\<rparr>)" by simp
  have "i < length (c_servers (ws_config ws))"
    unfolding i_def by (rule select_server_bound) (use ok in \<open>simp add: worker_ok_def hctx_ok_def\<close>)
  then have rw: "srv_rewrite (c_servers (ws_config ws) ! i) = []" using plain by (simp add: plain_worker_def list_all_length)
  have "access_args_ok r1 200 (he_start env) (le_stop (he_log env)) (le_tsbuf (he_log env))"
    using clocks length_inet_ntop [of "fst (cn_peer conn)"] by (simp add: access_args_ok_def clocks_ok_def r1_def)
  from logged [OF this, of "set_conn p (c1\<lparr>cn_wbuf := b, cn_state := CONN_WRITING_RESPONSE\<rparr>) ws"] path(2) plain
  obtain line where line: "ws_access_log (he_log env) r1 200 (he_start env) (set_conn p (c1\<lparr>cn_wbuf := b, cn_state := CONN_WRITING_RESPONSE\<rparr>) ws) =
      Inr (emit [Logged line] (set_conn p (c1\<lparr>cn_wbuf := b, cn_state := CONN_WRITING_RESPONSE\<rparr>) ws))"
    by (auto simp: r1_def plain_worker_def)
  have "path_matches (req_path r1) ''/healthz''"
    using path(1) by (simp add: r1_def)
  then have "handler_route env p i (c_servers (ws_config ws) ! i) c1 r1 ws = Inr (emit [Logged line] (set_conn p (c1\<lparr>cn_wbuf := b, cn_state := CONN_WRITING_RESPONSE\<rparr>) ws))"
    using plain b(1) line by (simp add: handler_route_def check_rate_def plain_worker_def)
  then have "handler_dispatch env p req ws = Inr (emit [Logged line] (set_conn p (c1\<lparr>cn_wbuf := b, cn_state := CONN_WRITING_RESPONSE\<rparr>) ws))"
    using plain rw by (simp add: handler_dispatch_def conn_at_def c Let_def plain_worker_def flip: r1_def c1_def i_def) (simp add: c1_def)
  then show ?thesis using that [where line = line and r = r1 and b = b] wfb b(2) by (simp add: c1_def r1_def)
qed

lemma path_matches_prefix: "path_matches path pre \<longleftrightarrow> prefix pre path"
  unfolding path_matches_def by (rule str_starts_with_iff)

lemma populate_target:
  assumes "parsed_as ps m uri v hs" "CHR ''?'' \<notin> set uri"
  shows "req_path (request_populate request_zero ps raw sec nsec) = uri"
    "req_keep_alive (request_populate request_zero ps raw sec nsec) = keep_alive_of v hs"
proof -
  have "memchr (CHR ''?'') (ps_uri ps) = None" using assms by (simp add: parsed_as_def memchr_None_iff)
  then show "req_path (request_populate request_zero ps raw sec nsec) = uri"
    "req_keep_alive (request_populate request_zero ps raw sec nsec) = keep_alive_of v hs"
    using assms(1) by (simp_all add: request_populate_def Let_def parsed_as_def)
qed

lemma serve_health:
  assumes ok: "worker_ok ws" "plain_worker ws" "clocks_ok (cl_handler env)" "client_env_ok env"
    and c: "conn_wf c" "buf_contents (cn_rbuf c) = raw" "buf_contents (cn_wbuf c) = []" "512 \<le> buf_room (cn_wbuf c)" "0 \<le> cn_fd c"
    and ps: "parsed_as ps m uri v hs" "ps_parsed_bytes ps = length raw" "path_matches uri ''/healthz''" "CHR ''?'' \<notin> set uri" "length uri \<le> 870"
    and env: "cl_sends env = client_takes 512" "cl_request env = Some addr"
  shows "\<exists>ws' line. serve_request env p ps raw c ws = Inr ws' \<and>
    (if keep_alive_of v hs
     then ws_trace ws' = ws_trace ws @ [Logged line, Sent (cn_fd c) HEALTHZ_RESPONSE_KA] \<and>
       (\<exists>c'. ws_conns ws' p = Some c' \<and> cn_fd c' = cn_fd c \<and> cn_state c' = CONN_READING_REQUEST \<and>
          buf_contents (cn_rbuf c') = [] \<and> buf_contents (cn_wbuf c') = [])
     else ws_trace ws' = ws_trace ws @ [Logged line, Sent (cn_fd c) HEALTHZ_RESPONSE_CLOSE] @
       map Closed (filter (\<lambda>fd. 0 \<le> fd) [cn_fd c, cn_upstream_fd c, cn_file_fd c]))"
proof -
  obtain a b req where s: "req = request_populate request_zero ps raw (fst (cl_clock env)) (snd (cl_clock env))"
    "serve_request env p ps raw c ws = mbind (handler_dispatch (cl_handler env) p req
       (set_conn p (c\<lparr>cn_arena := a, cn_rbuf := b, cn_keep_alive := keep_alive_of v hs, cn_request := Some req\<rparr>) ws)) (send_response env p)"
    "conn_wf (c\<lparr>cn_arena := a, cn_rbuf := b, cn_keep_alive := keep_alive_of v hs, cn_request := Some req\<rparr>)" "buf_contents b = []"
    by (rule serve_request_dispatches [OF c(1,2) ps(1,2) env(2), of p ws]) (rule that)
  note req = populate_target [OF ps(1,4), of raw "fst (cl_clock env)" "snd (cl_clock env)", folded s(1)]
  define c1 where "c1 = c\<lparr>cn_arena := a, cn_rbuf := b, cn_keep_alive := keep_alive_of v hs, cn_request := Some req\<rparr>"
  have c1: "conn_wf c1" using s(3) by (simp add: c1_def)
  have w1: "worker_ok (set_conn p c1 ws)" "ws_conns (set_conn p c1 ws) p = Some c1" "plain_worker (set_conn p c1 ws)"
    using set_conn_ok [OF ok(1) c1] ok(2) by (simp_all add: plain_worker_def)
  have pr: "path_matches (req_path req) ''/healthz''" "length (req_path req) \<le> 870" "512 \<le> buf_room (cn_wbuf c1)"
    using ps(3,5) c(4) by (simp_all add: req c1_def)
  obtain line w r where d: "handler_dispatch (cl_handler env) p req (set_conn p c1 ws) =
      Inr (emit [Logged line] (set_conn p (c1\<lparr>cn_request := Some r, cn_wbuf := w, cn_state := CONN_WRITING_RESPONSE\<rparr>) (set_conn p c1 ws)))"
    "conn_wf (c1\<lparr>cn_wbuf := w\<rparr>)" "buf_contents w = buf_contents (cn_wbuf c1) @ healthz_response (req_keep_alive req)"
    by (rule dispatch_health [OF w1 ok(3) pr]) (rule that)
  define c2 where "c2 = c1\<lparr>cn_request := Some r, cn_wbuf := w, cn_state := CONN_WRITING_RESPONSE\<rparr>"
  define w2 where "w2 = emit [Logged line] (set_conn p c2 (set_conn p c1 ws))"
  have "c2 = (c1\<lparr>cn_wbuf := w\<rparr>)\<lparr>cn_request := Some r, cn_state := CONN_WRITING_RESPONSE\<rparr>" by (simp add: c2_def)
  then have c2: "conn_wf c2" using d(2) by simp
  have w2: "worker_ok w2" "ws_conns w2 p = Some c2" "ws_trace w2 = ws_trace ws @ [Logged line]"
    using set_conn_ok [OF w1(1) c2] by (simp_all add: w2_def)
  have out: "buf_contents (cn_wbuf c2) = healthz_response (keep_alive_of v hs)" using d(3) c(3) req(2) by (simp add: c2_def c1_def)
  then have "length (buf_contents (cn_wbuf c2)) \<le> 512" "buf_contents (cn_wbuf c2) \<noteq> []"
    by (simp_all add: HEALTHZ_RESPONSE_KA_def HEALTHZ_RESPONSE_CLOSE_def)
  moreover obtain w' n where w': "buf_send_all (cl_sends env) (cn_wbuf c2) = Inr (w', n, buf_contents (cn_wbuf c2))" "buf_readable w' = 0" "buf_ok w'"
    by (rule sent_all [OF conn_wf_buf_ok(2) [OF c2] calculation(1), folded env(1)]) (rule that)
  moreover have "serve_request env p ps raw c ws = send_response env p w2"
    using s(2) d(1) by (simp add: w2_def c2_def c1_def)
  moreover have "buf_contents w' = []" using w'(2) by (simp add: buf_readable_0_iff [OF w'(3)])
  ultimately show ?thesis
    using send_response_drained [OF w2(1,2) _ _ _ ok(4) w'(1,2)] w2(3) out c(5) s(4)
    by (cases "keep_alive_of v hs") (auto simp: c2_def c1_def next_request_def sent_def)
qed

text \<open>
  C14: A client that asks for the health page gets it. For a worker with no modules, rate limit, metrics
  or rewriting, a connection that waits for a request with empty buffers, and any well-formed
  request without a body whose target starts with \<^verbatim>\<open>/healthz\<close>, the read event writes one
  line of the access log, sends exactly the health page, and leaves the connection waiting for the
  next request with empty buffers; when the request does not keep it alive, it is closed.
\<close>

theorem health_served:
  assumes ok: "worker_ok ws" "ws_conns ws p = Some c" "plain_worker ws" "clocks_ok (cl_handler env)" "client_env_ok env"
    and idle: "cn_state c = CONN_READING_REQUEST" "buf_contents (cn_rbuf c) = []" "buf_contents (cn_wbuf c) = []"
      "512 \<le> buf_room (cn_wbuf c)" "0 \<le> cn_fd c"
    and msg: "wf_uri uri" "prefix ''/healthz'' uri" "CHR ''?'' \<notin> set uri" "length uri \<le> 870" "v \<noteq> HTTP_NONE" "list_all wf_header hs"
      "length hs \<le> NP_MAX_HEADERS" "content_length_of v hs = 0" "msg = render_line m uri v @ render_headers hs @ CRLF" "length msg \<le> 65536"
    and env: "cl_reads env = [\<lambda>room. Read_data (take room msg)]" "cl_sends env = client_takes 512" "cl_request env = Some addr"
  shows "\<exists>ws' line. handle_read env p ws = Inr ws' \<and>
    (if keep_alive_of v hs
     then ws_trace ws' = ws_trace ws @ [Logged line, Sent (cn_fd c) HEALTHZ_RESPONSE_KA] \<and>
       (\<exists>c'. ws_conns ws' p = Some c' \<and> cn_fd c' = cn_fd c \<and> cn_state c' = CONN_READING_REQUEST \<and>
          buf_contents (cn_rbuf c') = [] \<and> buf_contents (cn_wbuf c') = [])
     else ws_trace ws' = ws_trace ws @ [Logged line, Sent (cn_fd c) HEALTHZ_RESPONSE_CLOSE] @
       map Closed (filter (\<lambda>fd. 0 \<le> fd) [cn_fd c, cn_upstream_fd c, cn_file_fd c]))"
proof -
  obtain ps b where hr: "handle_read env p ws = serve_request env p ps msg (c\<lparr>cn_rbuf := b\<rparr>) (set_conn p (c\<lparr>cn_rbuf := b\<rparr>) ws)"
    "conn_wf (c\<lparr>cn_rbuf := b\<rparr>)" "buf_contents b = msg" "parsed_as ps m uri v hs" "ps_parsed_bytes ps = length msg"
    by (rule handle_read_parsed [OF ok(1,2) idle(1,2) msg(1,5-10) env(1)]) (rule that)
  define c1 where "c1 = c\<lparr>cn_rbuf := b\<rparr>"
  note hr = hr [folded c1_def]
  have pl: "plain_worker (set_conn p c1 ws)" using ok(3) by (simp add: plain_worker_def)
  have f: "cn_fd c1 = cn_fd c" "cn_upstream_fd c1 = cn_upstream_fd c" "cn_file_fd c1 = cn_file_fd c" "ws_trace (set_conn p c1 ws) = ws_trace ws"
    by (simp_all add: c1_def)
  have i: "buf_contents (cn_rbuf c1) = msg" "buf_contents (cn_wbuf c1) = []" "512 \<le> buf_room (cn_wbuf c1)" "0 \<le> cn_fd c1"
    "path_matches uri ''/healthz''" using idle(3-5) hr(3) msg(2) by (simp_all add: c1_def path_matches_prefix)
  show ?thesis
    using serve_health [OF set_conn_ok [OF ok(1) hr(2)] pl ok(4,5) hr(2) i(1-4) hr(4,5) i(5) msg(3,4) env(2,3), of p] unfolding f hr(1) .
qed

definition demo_health :: string where
  "demo_health = render_line HTTP_METHOD_GET ''/healthz'' HTTP_11 @ render_headers [] @ CRLF"

definition demo_health_env :: client_env where
  "demo_health_env = demo_client_env\<lparr>cl_reads := [\<lambda>room. Read_data (take room demo_health)], cl_sends := client_takes 512\<rparr>"

theorem health_served_witness:
  "\<exists>ws' line. handle_read demo_health_env 0 (demo_worker config_defaults ((demo_conn 5)\<lparr>cn_state := CONN_READING_REQUEST\<rparr>)) = Inr ws' \<and>
     ws_trace ws' = [Logged line, Sent 5 HEALTHZ_RESPONSE_KA]"
proof -
  let ?c = "(demo_conn 5)\<lparr>cn_state := CONN_READING_REQUEST\<rparr>"
  let ?ws = "demo_worker config_defaults ?c"
  have wf: "conn_wf ?c" using demo_conn_ok(2) by simp
  have ok: "worker_ok ?ws" by (rule demo_worker_ok [OF wf]) (simp_all add: config_defaults_def)
  have ws: "ws_conns ?ws 0 = Some ?c" "plain_worker ?ws" "ws_trace ?ws = []"
    by (simp_all add: demo_worker_def plain_worker_def config_defaults_def server_zero_def)
  have clocks: "clocks_ok (cl_handler demo_health_env)"
    by (simp add: clocks_ok_def demo_health_env_def demo_client_env_def demo_handler_env_def demo_log_env_def)
  have env: "client_env_ok demo_health_env" "cl_reads demo_health_env = [\<lambda>room. Read_data (take room demo_health)]"
    "cl_sends demo_health_env = client_takes 512" "cl_request demo_health_env = Some 4096"
    using demo_answers_ok client_takes_ok
    by (simp_all add: answers_ok_def demo_answers_def client_env_ok_def demo_health_env_def demo_client_env_def kernel_read_ok_def)
  have c: "buf_contents (cn_rbuf ?c) = []" "buf_contents (cn_wbuf ?c) = []" "512 \<le> buf_room (cn_wbuf ?c)" "cn_fd ?c = 5"
    by (simp_all add: demo_conn_def demo_buf_ok)
  have msg: "wf_uri ''/healthz''" "keep_alive_of HTTP_11 []" "content_length_of HTTP_11 [] = 0" "length demo_health \<le> 65536"
    by (simp_all add: parser_eval demo_health_def render_headers_def render_line_def version_str_def keep_alive_of_def last_or_def named_def)
  show ?thesis
    using health_served [OF ok ws(1,2) clocks env(1) _ c(1-3) _ msg(1) _ _ _ _ _ _ msg(3) demo_health_def msg(4) env(2-4)] msg(2) ws(3) c(4)
    by auto
qed

section \<open>Told to stop\<close>

lemma drain_loop_waits: "0 < active \<Longrightarrow> drain_loop active start limit clock = length (takeWhile (\<lambda>t. t - start < limit) clock)"
  by (induction clock) simp_all

text \<open>
  A client that hangs up is still counted: its connection is closed and put back, but the number of
  active connections stays. A worker that is told to stop with that count above zero sleeps until its
  whole time for draining is over, although no client is left; the event loop does not run meanwhile.
\<close>

theorem gone_client_counted:
  assumes "worker_ok ws" "ws_conns ws p = Some c" "0 < ws_active_conns ws" "cl_put env = (True, True)"
  shows "\<exists>ws'. on_client_event env EV_HUP p ws = Inr ws' \<and>
    ws_trace ws' = ws_trace ws @ map Closed (filter (\<lambda>fd. 0 \<le> fd) [cn_fd c, cn_upstream_fd c, cn_file_fd c]) \<and>
    ws_active_conns ws' = ws_active_conns ws \<and>
    drain_loop (ws_active_conns ws') start (drain_timeout cfg) clock = length (takeWhile (\<lambda>t. t - start < drain_timeout cfg) clock)"
proof -
  let ?c = "c\<lparr>cn_last_active := ws_now ws\<rparr>"
  have "conn_wf ?c" using conn_at_wf [OF assms(1,2)] by simp
  from set_conn_ok [OF assms(1) this] have ok: "worker_ok (set_conn p ?c ws)" .
  have at: "ws_conns (set_conn p ?c ws) p = Some ?c" by simp
  obtain ws' where p: "ws_pool_put (set_conn p ?c ws) p (True, True) = Inr ws'"
    "ws_trace ws' = ws_trace (set_conn p ?c ws) @ map Closed (filter (\<lambda>fd. 0 \<le> fd) [cn_fd ?c, cn_upstream_fd ?c, cn_file_fd ?c])"
    "ws_active_conns ws' = ws_active_conns (set_conn p ?c ws)"
    by (rule ws_pool_put_ok [OF ok at]) (rule that)
  then have "on_client_event env EV_HUP p ws = Inr ws'" by (simp add: on_client_event_def conn_at_def assms(2,4))
  then show ?thesis using p(2,3) drain_loop_waits assms(3) by simp
qed

theorem gone_client_counted_witness:
  "\<exists>ws'. on_client_event demo_client_env EV_HUP 0 (demo_worker config_defaults (demo_conn 5)) = Inr ws' \<and>
     ws_trace ws' = [Closed 5] \<and> ws_active_conns ws' = 1 \<and>
     drain_loop (ws_active_conns ws') 100 (drain_timeout (config_defaults\<lparr>c_shutdown_timeout := 3\<rparr>)) [100, 101, 102, 103] = 3"
proof -
  let ?ws = "demo_worker config_defaults (demo_conn 5)" and ?cfg = "config_defaults\<lparr>c_shutdown_timeout := 3\<rparr>"
  have ok: "worker_ok ?ws" by (rule demo_worker_ok [OF demo_conn_ok(2)]) (simp_all add: config_defaults_def)
  have ws: "ws_conns ?ws 0 = Some (demo_conn 5)" "0 < ws_active_conns ?ws" "cl_put demo_client_env = (True, True)"
    by (simp_all add: demo_worker_def demo_client_env_def)
  have f: "ws_active_conns ?ws = 1" "ws_trace ?ws = []" "filter (\<lambda>fd. 0 \<le> fd) [cn_fd (demo_conn 5), cn_upstream_fd (demo_conn 5), cn_file_fd (demo_conn 5)] = [5]"
    "length (takeWhile (\<lambda>t. t - 100 < drain_timeout ?cfg) [100, 101, 102, 103]) = 3"
    by (simp_all add: demo_worker_def demo_conn_def drain_timeout_def)
  from gone_client_counted [OF ok ws, of 100 ?cfg "[100, 101, 102, 103]"] show ?thesis unfolding f by auto
qed

end
