(* ===== verification/Listeners.thy ===== *)
theory Listeners
  imports Worker_Serve
begin

text \<open>
  The two loops that bind one listener for every port of the configuration: the one of
  \<^verbatim>\<open>src/src/main.c\<close>, which gives up when a port cannot be bound, and the one of
  \<^verbatim>\<open>src/src/proc/master.c\<close>, which goes on without it. The lemmas say which ports are bound and that
  the two loops bind the same sockets when nothing fails.
\<close>

section \<open>Model\<close>

text \<open>
  What the kernel answers for the \<open>i\<close>-th server: the descriptor of \<^verbatim>\<open>socket\<close> and whether \<^verbatim>\<open>bind\<close> and
  \<^verbatim>\<open>listen\<close> succeed. \<open>so_array\<close> is what the array of sockets holds before.
\<close>

record socket_env =
  so_socket :: "nat \<Rightarrow> int"
  so_bind :: "nat \<Rightarrow> u32 \<times> u16 \<Rightarrow> bool"
  so_listen :: "nat \<Rightarrow> bool"
  so_array :: "nat \<Rightarrow> np_socket_t"

text \<open>
  Both loops: \<open>i\<close> is the number of the server, \<open>ports\<close> the array \<^verbatim>\<open>bound_ports\<close> and \<open>ls\<close> the listeners
  so far. \<open>None\<close> is the return of \<^verbatim>\<open>main\<close> with 1.
\<close>

fun bind_loop ::
  "socket_env \<Rightarrow> np_config_t \<Rightarrow> nat \<Rightarrow> np_server_config_t list \<Rightarrow> u16 list \<Rightarrow> np_socket_t list \<Rightarrow> np_socket_t list option mem" where
  "bind_loop env cfg i [] ports ls = Inr (Some ls)"
| "bind_loop env cfg i (s # ss) ports ls =
     (let port = srv_listen_port s in
      if port \<in> set ports then bind_loop env cfg (i + 1) ss ports ls
      else if CONFIG_MAX_SERVERS \<le> length ls then Inl Out_of_bounds
      else
        (let (st, sock, _) = socket_create_listener (so_array env (length ls)) (Some (c_listen_addr cfg)) port
           (so_socket env i) (so_bind env i) (so_listen env i)
         in if st \<noteq> NP_OK then Inr None else bind_loop env cfg (i + 1) ss (ports @ [port]) (ls @ [sock])))"

fun rebind_loop ::
  "socket_env \<Rightarrow> np_config_t \<Rightarrow> nat \<Rightarrow> np_server_config_t list \<Rightarrow> u16 list \<Rightarrow> np_socket_t list \<Rightarrow> np_socket_t list mem" where
  "rebind_loop env cfg i [] ports ls = Inr ls"
| "rebind_loop env cfg i (s # ss) ports ls =
     (let port = srv_listen_port s in
      if port \<in> set ports then rebind_loop env cfg (i + 1) ss ports ls
      else if CONFIG_MAX_SERVERS \<le> length ls then Inl Out_of_bounds
      else
        (let (st, sock, _) = socket_create_listener (so_array env (length ls)) (Some (c_listen_addr cfg)) port
           (so_socket env i) (so_bind env i) (so_listen env i)
         in if st = NP_OK then rebind_loop env cfg (i + 1) ss (ports @ [port]) (ls @ [sock])
            else rebind_loop env cfg (i + 1) ss ports ls))"

section \<open>The ports that are bound\<close>

abbreviation port_of :: "np_socket_t \<Rightarrow> u16" where "port_of l \<equiv> snd (sk_addr l)"

text \<open>The elements of a list at their first occurrence.\<close>

definition firsts :: "'a list \<Rightarrow> 'a list" where
  "firsts xs = rev (remdups (rev xs))"

lemma firsts_distinct [simp]: "distinct xs \<Longrightarrow> firsts xs = xs"
  by (simp add: firsts_def distinct_remdups_id)

lemma remdups_skip: "x \<in> set ys \<Longrightarrow> remdups (xs @ x # ys) = remdups (xs @ ys)"
  by (induction xs) auto

lemma firsts_skip: "x \<in> set xs \<Longrightarrow> firsts (xs @ x # ys) = firsts (xs @ ys)"
  by (simp add: firsts_def remdups_skip)

lemma set_firsts [simp]: "set (firsts xs) = set xs" and distinct_firsts [simp]: "distinct (firsts xs)"
  by (simp_all add: firsts_def)

lemma create_listener_port:
  "socket_create_listener sock host port fd bind listen = (NP_OK, sock', r) \<Longrightarrow> port_of sock' = port"
  by (auto simp: socket_create_listener_def Let_def split: if_splits option.splits)

lemma bind_loop_ports:
  assumes "bind_loop env cfg i ss (map port_of ls) ls = Inr (Some ls')" "distinct (map port_of ls)"
  shows "map port_of ls' = firsts (map port_of ls @ map srv_listen_port ss)"
  using assms
proof (induction ss arbitrary: i ls)
  case (Cons s ss)
  show ?case
  proof (cases "srv_listen_port s \<in> set (map port_of ls)")
    case True
    then show ?thesis using Cons.IH [of "i + 1" ls] Cons.prems by (simp add: firsts_skip Let_def)
  next
    case False
    with Cons.prems(1) obtain sock r where s: "socket_create_listener (so_array env (length ls)) (Some (c_listen_addr cfg))
        (srv_listen_port s) (so_socket env i) (so_bind env i) (so_listen env i) = (NP_OK, sock, r)"
      "bind_loop env cfg (i + 1) ss (map port_of ls @ [srv_listen_port s]) (ls @ [sock]) = Inr (Some ls')"
      by (auto simp: Let_def split: if_split_asm prod.split_asm)
    then show ?thesis using Cons.IH [of "i + 1" "ls @ [sock]"] Cons.prems(2) False create_listener_port [OF s(1)] by auto
  qed
qed simp

lemma rebind_is_bind: "bind_loop env cfg i ss ports ls = Inr (Some ls') \<Longrightarrow> rebind_loop env cfg i ss ports ls = Inr ls'"
  by (induction env cfg i ss ports ls rule: bind_loop.induct) (auto simp: Let_def split: if_splits prod.splits)

text \<open>Within the array: a loop over at most 16 servers does not leave it.\<close>

lemma bind_loop_total: "length ls + length ss \<le> CONFIG_MAX_SERVERS \<Longrightarrow> \<exists>r. bind_loop env cfg i ss ports ls = Inr r"
  by (induction env cfg i ss ports ls rule: bind_loop.induct) (auto simp: Let_def split: prod.splits)

lemma rebind_loop_total:
  assumes "length ls + length ss \<le> CONFIG_MAX_SERVERS" "distinct (map port_of ls)"
  shows "\<exists>ls'. rebind_loop env cfg i ss (map port_of ls) ls = Inr ls' \<and> distinct (map port_of ls') \<and>
    set (map port_of ls') \<subseteq> set (map port_of ls @ map srv_listen_port ss)"
  using assms
proof (induction ss arbitrary: i ls)
  case (Cons s ss)
  obtain st sock r where s: "socket_create_listener (so_array env (length ls)) (Some (c_listen_addr cfg))
      (srv_listen_port s) (so_socket env i) (so_bind env i) (so_listen env i) = (st, sock, r)" by (cases rule: prod_cases3)
  define ls1 where "ls1 = (if srv_listen_port s \<notin> set (map port_of ls) \<and> st = NP_OK then ls @ [sock] else ls)"
  have port: "st = NP_OK \<Longrightarrow> port_of sock = srv_listen_port s" using create_listener_port s by blast
  then have d: "distinct (map port_of ls1)" "set (map port_of ls1) \<subseteq> set (map port_of ls) \<union> {srv_listen_port s}"
    using Cons.prems(2) by (auto simp: ls1_def)
  have "rebind_loop env cfg i (s # ss) (map port_of ls) ls = rebind_loop env cfg (i + 1) ss (map port_of ls1) ls1"
    using Cons.prems(1) s port by (auto simp: ls1_def Let_def)
  moreover have "length ls1 + length ss \<le> CONFIG_MAX_SERVERS" using Cons.prems(1) by (simp add: ls1_def)
  ultimately obtain ls' where "rebind_loop env cfg i (s # ss) (map port_of ls) ls = Inr ls'" "distinct (map port_of ls')"
    "set (map port_of ls') \<subseteq> set (map port_of ls1 @ map srv_listen_port ss)" using Cons.IH [of ls1 "i + 1"] d(1) by auto
  with d(2) show ?case by (intro exI [of _ ls']) (simp, blast)
qed simp

text \<open>A kernel that gives every socket and refuses no port, and an address it can read.\<close>

definition sockets_ok :: "socket_env \<Rightarrow> np_config_t \<Rightarrow> bool" where
  "sockets_ok env cfg \<longleftrightarrow> (\<forall>i. 0 \<le> so_socket env i \<and> so_bind env i = (\<lambda>_. True) \<and> so_listen env i) \<and>
     (c_listen_addr cfg = ''0.0.0.0'' \<or> inet_pton (c_listen_addr cfg) \<noteq> None)"

lemma bind_loop_succeeds:
  assumes "sockets_ok env cfg"
  shows "length ls + length ss \<le> CONFIG_MAX_SERVERS \<Longrightarrow> \<exists>ls'. bind_loop env cfg i ss ports ls = Inr (Some ls')"
proof (induction ss arbitrary: i ports ls)
  case (Cons s ss)
  have "fst (socket_create_listener (so_array env (length ls)) (Some (c_listen_addr cfg))
      (srv_listen_port s) (so_socket env i) (so_bind env i) (so_listen env i)) = NP_OK"
    using assms by (auto simp: sockets_ok_def socket_create_listener_def not_less Let_def)
  then show ?case using Cons.IH [of "ls @ _"] Cons.IH [of ls] Cons.prems by (auto simp: Let_def split: prod.splits)
qed simp

lemma rebind_ports:
  assumes "sockets_ok env cfg" "length ss \<le> CONFIG_MAX_SERVERS"
  shows "\<exists>ls. rebind_loop env cfg i ss [] [] = Inr ls \<and> map port_of ls = firsts (map srv_listen_port ss)"
proof -
  obtain ls where "bind_loop env cfg i ss [] [] = Inr (Some ls)" using bind_loop_succeeds [OF assms(1), of "[]" ss] assms(2) by auto
  with rebind_is_bind [OF this] bind_loop_ports [of env cfg i ss "[]" ls] show ?thesis by simp
qed

end
