(* ===== verification/Master.thy ===== *)
theory Master
  imports Listeners "HOL-Library.Multiset"
begin

text \<open>
  The master process of \<^verbatim>\<open>src/src/proc/master.c\<close>: it starts the workers, replaces those that die,
  loads a new configuration on request and ends with all of them. The state has the variables of
  the file and what the kernel keeps about the children. What the calls answer, and when signals
  and deaths happen, are arguments.
\<close>

section \<open>Model\<close>

abbreviation MAX_WORKERS :: nat where "MAX_WORKERS \<equiv> 64"

text \<open>What the master does to the world: it signals processes and closes listeners.\<close>

datatype master_event = Killed int int | Closed_listener int

text \<open>
  \<open>ma_listeners\<close> are the first \<^verbatim>\<open>listener_count\<close> elements of the array. The kernel keeps the children
  that run and those that have ended and wait to be collected, in the order of their ends.
\<close>

record master_t =
  ma_worker_pids :: "int list"
  ma_worker_count :: int
  ma_reload :: bool
  ma_shutdown :: bool
  ma_config :: np_config_t
  ma_listeners :: "np_socket_t list"
  ma_running :: "int list"
  ma_ended :: "int list"
  ma_events :: "master_event list"

definition children :: "master_t \<Rightarrow> int list" where
  "children m = ma_running m @ ma_ended m"

text \<open>
  \<^verbatim>\<open>fork\<close> answers with a number that may depend on the children there are: negative when it fails,
  0 in the child.
\<close>

type_synonym kernel_fork = "int list \<Rightarrow> int"

text \<open>After \<^verbatim>\<open>fork\<close> the code goes on in two processes; a child runs the worker of its number.\<close>

datatype 'a forked = Parent 'a | Child nat np_config_t "np_socket_t list"

definition fbind :: "'a forked mem \<Rightarrow> ('a \<Rightarrow> 'b forked mem) \<Rightarrow> 'b forked mem" where
  "fbind x f = mbind x (\<lambda>r. case r of Parent a \<Rightarrow> f a | Child i cfg ls \<Rightarrow> Inr (Child i cfg ls))"

definition spawn_worker :: "kernel_fork \<Rightarrow> nat \<Rightarrow> master_t \<Rightarrow> master_t forked mem" where
  "spawn_worker fork i m =
     (let pid = fork (children m) in
      if pid < 0 then Inr (Parent m)
      else if pid = 0 then Inr (Child i (ma_config m) (ma_listeners m))
      else if length (ma_worker_pids m) \<le> i then Inl Out_of_bounds
      else Inr (Parent (m\<lparr>ma_worker_pids := (ma_worker_pids m)[i := pid], ma_running := ma_running m @ [pid]\<rparr>)))"

text \<open>The signals the master handles; a signal without an entry is not caught.\<close>

datatype disposition = Handled | Ignored | Default

definition setup_signals :: "(int \<times> disposition) list" where
  "setup_signals = [(SIGHUP, Handled), (SIGTERM, Handled), (SIGINT, Handled), (SIGPIPE, Ignored), (17, Default)]"

definition master_sighandler :: "int \<Rightarrow> master_t \<Rightarrow> master_t" where
  "master_sighandler sig m =
     (let m = (if sig = SIGHUP then m\<lparr>ma_reload := True\<rparr> else m)
      in if sig = SIGTERM \<or> sig = SIGINT then m\<lparr>ma_shutdown := True\<rparr> else m)"

definition deliver :: "int list \<Rightarrow> master_t \<Rightarrow> master_t" where
  "deliver sigs m = fold master_sighandler (filter (\<lambda>s. map_of setup_signals s = Some Handled) sigs) m"

text \<open>The numbers below \<^verbatim>\<open>worker_count\<close>.\<close>

definition slots :: "master_t \<Rightarrow> nat list" where
  "slots m = [0..<nat (ma_worker_count m)]"

fun kill_loop :: "int \<Rightarrow> nat list \<Rightarrow> master_t \<Rightarrow> master_t mem" where
  "kill_loop sig [] m = Inr m"
| "kill_loop sig (i # is) m =
     (if length (ma_worker_pids m) \<le> i then Inl Out_of_bounds
      else kill_loop sig is
        (if 0 < ma_worker_pids m ! i then m\<lparr>ma_events := ma_events m @ [Killed (ma_worker_pids m ! i) sig]\<rparr> else m))"

definition kill_workers :: "int \<Rightarrow> master_t \<Rightarrow> master_t mem" where
  "kill_workers sig m = kill_loop sig (slots m) m"

text \<open>
  \<^verbatim>\<open>waitpid\<close> for one child returns when it has ended and collects it, or at once when there is no
  such child, or when a signal arrives: \<open>eintr\<close> says for which children it does.
\<close>

definition waitpid :: "(int \<Rightarrow> bool) \<Rightarrow> int \<Rightarrow> master_t \<Rightarrow> master_t" where
  "waitpid eintr pid m =
     (if eintr pid then m
      else m\<lparr>ma_running := remove1 pid (ma_running m), ma_ended := remove1 pid (ma_ended m)\<rparr>)"

fun wait_loop :: "(int \<Rightarrow> bool) \<Rightarrow> nat list \<Rightarrow> master_t \<Rightarrow> master_t mem" where
  "wait_loop eintr [] m = Inr m"
| "wait_loop eintr (i # is) m =
     (if length (ma_worker_pids m) \<le> i then Inl Out_of_bounds
      else wait_loop eintr is
        (if 0 < ma_worker_pids m ! i
         then (waitpid eintr (ma_worker_pids m ! i) m)\<lparr>ma_worker_pids := (ma_worker_pids m)[i := 0]\<rparr> else m))"

definition wait_workers :: "(int \<Rightarrow> bool) \<Rightarrow> master_t \<Rightarrow> master_t mem" where
  "wait_workers eintr m = wait_loop eintr (slots m) m"

definition close_listeners :: "master_t \<Rightarrow> master_t" where
  "close_listeners m =
     m\<lparr>ma_events := ma_events m @ map Closed_listener (concat (map (\<lambda>l. socket_close (sk_fd l)) (ma_listeners m)))\<rparr>"

fun spawn_loop :: "(nat \<Rightarrow> kernel_fork) \<Rightarrow> nat list \<Rightarrow> master_t \<Rightarrow> master_t forked mem" where
  "spawn_loop fork [] m = Inr (Parent m)"
| "spawn_loop fork (i # is) m = fbind (spawn_worker (fork i) i m) (spawn_loop fork is)"

definition spawn_workers :: "(nat \<Rightarrow> kernel_fork) \<Rightarrow> master_t \<Rightarrow> master_t forked mem" where
  "spawn_workers fork m =
     (let n = c_worker_processes (ma_config m);
          m = m\<lparr>ma_worker_count := if int MAX_WORKERS < n then int MAX_WORKERS else n\<rparr>
      in spawn_loop fork (slots m) m)"

record reload_env =
  re_file :: "string option"
  re_eintr :: "int \<Rightarrow> bool"
  re_sockets :: socket_env
  re_fork :: "nat \<Rightarrow> kernel_fork"

definition reload :: "(string \<Rightarrow> bool) \<Rightarrow> reload_env \<Rightarrow> master_t \<Rightarrow> master_t forked mem" where
  "reload regcomp env m =
     (case config_load regcomp (re_file env) of
        (new_cfg, NP_OK) \<Rightarrow>
          mbind (kill_workers SIGTERM m) (\<lambda>m.
          mbind (wait_workers (re_eintr env) m) (\<lambda>m.
          let m = (close_listeners m)\<lparr>ma_config := new_cfg\<rparr> in
          mbind (rebind_loop (re_sockets env) new_cfg 0 (c_servers new_cfg) [] []) (\<lambda>ls.
            spawn_workers (re_fork env) (m\<lparr>ma_listeners := ls\<rparr>))))
      | _ \<Rightarrow> Inr (Parent m))"

text \<open>The slot of a dead worker is given to a new one.\<close>

fun respawn_loop :: "kernel_fork \<Rightarrow> int \<Rightarrow> nat list \<Rightarrow> master_t \<Rightarrow> master_t forked mem" where
  "respawn_loop fork dead [] m = Inr (Parent m)"
| "respawn_loop fork dead (i # is) m =
     (if length (ma_worker_pids m) \<le> i then Inl Out_of_bounds
      else if ma_worker_pids m ! i = dead then (if ma_shutdown m then Inr (Parent m) else spawn_worker fork i m)
      else respawn_loop fork dead is m)"

text \<open>
  A turn of the loop: the signals that arrive before its condition, the children that end, the
  signals before the two tests of the flags, and the answers to the calls.
\<close>

record turn_env =
  tu_signals :: "int list"
  tu_ends :: "int list"
  tu_signals_respawn :: "int list"
  tu_fork :: kernel_fork
  tu_signals_reload :: "int list"
  tu_reload :: reload_env

definition child_ends :: "int \<Rightarrow> master_t \<Rightarrow> master_t" where
  "child_ends pid m =
     (if pid \<in> set (ma_running m) then m\<lparr>ma_running := remove1 pid (ma_running m), ma_ended := ma_ended m @ [pid]\<rparr> else m)"

definition reap :: "turn_env \<Rightarrow> master_t \<Rightarrow> master_t forked mem" where
  "reap t m =
     (case ma_ended m of
        [] \<Rightarrow> Inr (Parent m)
      | dead # rest \<Rightarrow>
          (let m = deliver (tu_signals_respawn t) (m\<lparr>ma_ended := rest\<rparr>)
           in respawn_loop (tu_fork t) dead (slots m) m))"

definition master_turn :: "(string \<Rightarrow> bool) \<Rightarrow> turn_env \<Rightarrow> master_t \<Rightarrow> master_t forked mem" where
  "master_turn regcomp t m =
     fbind (reap t (fold child_ends (tu_ends t) m)) (\<lambda>m.
       let m = deliver (tu_signals_reload t) m
       in if ma_reload m then reload regcomp (tu_reload t) (m\<lparr>ma_reload := False\<rparr>) else Inr (Parent m))"

fun master_loop :: "(string \<Rightarrow> bool) \<Rightarrow> turn_env list \<Rightarrow> master_t \<Rightarrow> master_t forked mem" where
  "master_loop regcomp [] m = Inr (Parent m)"
| "master_loop regcomp (t # ts) m =
     (let m = deliver (tu_signals t) m
      in if ma_shutdown m then Inr (Parent m) else fbind (master_turn regcomp t m) (master_loop regcomp ts))"

text \<open>The end of the master; \<open>eintr\<close> as for \<^verbatim>\<open>waitpid\<close>.\<close>

definition master_end :: "(int \<Rightarrow> bool) \<Rightarrow> master_t \<Rightarrow> master_t mem" where
  "master_end eintr m =
     mbind (kill_workers SIGTERM m) (\<lambda>m. mbind (wait_workers eintr m) (\<lambda>m. Inr (close_listeners m)))"

text \<open>\<^verbatim>\<open>master_run\<close>: the state at its end, when the turns given lead there, and otherwise after them.\<close>

definition master_init :: "np_config_t \<Rightarrow> np_socket_t list \<Rightarrow> master_t" where
  "master_init cfg ls =
     \<lparr>ma_worker_pids = replicate MAX_WORKERS 0, ma_worker_count = 0, ma_reload = False, ma_shutdown = False,
      ma_config = cfg, ma_listeners = ls, ma_running = [], ma_ended = [], ma_events = []\<rparr>"

definition master_run ::
  "(string \<Rightarrow> bool) \<Rightarrow> (nat \<Rightarrow> kernel_fork) \<Rightarrow> turn_env list \<Rightarrow> (int \<Rightarrow> bool) \<Rightarrow> np_config_t \<Rightarrow> np_socket_t list \<Rightarrow> master_t forked mem" where
  "master_run regcomp fork ts eintr cfg ls =
     fbind (spawn_workers fork (master_init cfg ls)) (\<lambda>m.
     fbind (master_loop regcomp ts m) (\<lambda>m.
       if ma_shutdown m then mbind (master_end eintr m) (\<lambda>m. Inr (Parent m)) else Inr (Parent m)))"

section \<open>The workers and the children\<close>

text \<open>What the kernel promises: a new process has a positive number that no child has.\<close>

definition fork_ok :: "kernel_fork \<Rightarrow> bool" where
  "fork_ok fork \<longleftrightarrow> (\<forall>ps. 0 < fork ps \<and> fork ps \<notin> set ps)"

definition worker_slots :: "master_t \<Rightarrow> int list" where
  "worker_slots m = take (nat (ma_worker_count m)) (ma_worker_pids m)"

text \<open>
  Every child is in a slot; unless the master is about to stop, the slots hold exactly the children.
\<close>

definition supervised :: "master_t \<Rightarrow> bool" where
  "supervised m \<longleftrightarrow> length (ma_worker_pids m) = MAX_WORKERS \<and> ma_worker_count m \<le> int MAX_WORKERS \<and> distinct (children m) \<and>
     list_all (\<lambda>p. 0 < p) (worker_slots m) \<and> set (children m) \<subseteq> set (worker_slots m) \<and>
     (\<not> ma_shutdown m \<longrightarrow> mset (worker_slots m) = mset (children m))"

definition reload_ok :: "reload_env \<Rightarrow> bool" where
  "reload_ok env \<longleftrightarrow> (\<forall>i. fork_ok (re_fork env i)) \<and> (\<forall>p. \<not> re_eintr env p)"

definition turn_ok :: "turn_env \<Rightarrow> bool" where
  "turn_ok t \<longleftrightarrow> fork_ok (tu_fork t) \<and> reload_ok (tu_reload t)"

lemma fbind_simps [simp]:
  "fbind (Inl e) f = Inl e" "fbind (Inr (Parent a)) f = f a" "fbind (Inr (Child i cfg ls)) f = Inr (Child i cfg ls)"
  by (simp_all add: fbind_def)

lemma fbind_Parent_iff: "fbind x f = Inr (Parent b) \<longleftrightarrow> (\<exists>a. x = Inr (Parent a) \<and> f a = Inr (Parent b))"
  by (auto simp: fbind_def mbind_def split: sum.splits forked.splits)

lemma fbind_Child_iff:
  "fbind x f = Inr (Child i cfg ls) \<longleftrightarrow> x = Inr (Child i cfg ls) \<or> (\<exists>a. x = Inr (Parent a) \<and> f a = Inr (Child i cfg ls))"
  by (auto simp: fbind_def mbind_def split: sum.splits forked.splits)

lemma deliver_flags: "\<exists>r s. deliver sigs m = m\<lparr>ma_reload := r, ma_shutdown := s\<rparr> \<and> (ma_shutdown m \<longrightarrow> s)"
proof (induction sigs arbitrary: m)
  case Nil
  show ?case by (rule exI [of _ "ma_reload m"], rule exI [of _ "ma_shutdown m"]) (simp add: deliver_def)
next
  case (Cons sig sigs)
  let ?m = "if map_of setup_signals sig = Some Handled then master_sighandler sig m else m"
  have "deliver (sig # sigs) m = deliver sigs ?m" by (simp add: deliver_def)
  moreover have "\<exists>r s. ?m = m\<lparr>ma_reload := r, ma_shutdown := s\<rparr> \<and> (ma_shutdown m \<longrightarrow> s)"
    by (rule exI [of _ "ma_reload ?m"], rule exI [of _ "ma_shutdown ?m"]) (simp add: master_sighandler_def Let_def)
  ultimately show ?case using Cons.IH [of ?m] by fastforce
qed

lemma supervised_flags: "supervised m \<Longrightarrow> ma_shutdown m \<longrightarrow> s \<Longrightarrow> supervised (m\<lparr>ma_reload := r, ma_shutdown := s\<rparr>)"
  by (auto simp: supervised_def children_def worker_slots_def)

lemma deliver_supervised: "supervised m \<Longrightarrow> supervised (deliver sigs m)"
  using deliver_flags [of sigs m] supervised_flags by metis

lemma child_ends_children: "mset (children (child_ends pid m)) = mset (children m)"
  by (simp add: child_ends_def children_def)

lemma supervised_cong:
  assumes "supervised m" "mset (children m') = mset (children m)" "ma_worker_pids m' = ma_worker_pids m"
    "ma_worker_count m' = ma_worker_count m" "ma_shutdown m' = ma_shutdown m"
  shows "supervised m'"
  using assms mset_eq_setD [OF assms(2)] mset_eq_imp_distinct_iff [OF assms(2)] by (simp add: supervised_def worker_slots_def)

lemma child_ends_supervised: "supervised m \<Longrightarrow> supervised (child_ends pid m)"
  by (rule supervised_cong [OF _ child_ends_children]) (simp_all add: child_ends_def)

section \<open>Starting workers\<close>

text \<open>The state while the first \<open>k\<close> workers have been started.\<close>

definition started :: "nat \<Rightarrow> master_t \<Rightarrow> bool" where
  "started k m \<longleftrightarrow> length (ma_worker_pids m) = MAX_WORKERS \<and> distinct (children m) \<and>
     list_all (\<lambda>p. 0 < p) (take k (ma_worker_pids m)) \<and> mset (take k (ma_worker_pids m)) = mset (children m)"

lemma started_supervised:
  "started (nat (ma_worker_count m)) m \<Longrightarrow> ma_worker_count m \<le> int MAX_WORKERS \<Longrightarrow> supervised m"
  by (auto simp: started_def supervised_def worker_slots_def dest: mset_eq_setD)

lemma spawn_worker_parent:
  assumes "fork_ok fork" "i < length (ma_worker_pids m)"
  shows "spawn_worker fork i m = Inr (Parent (m\<lparr>ma_worker_pids := (ma_worker_pids m)[i := fork (children m)],
    ma_running := ma_running m @ [fork (children m)]\<rparr>))"
proof -
  have "0 < fork (children m)" using assms(1) by (simp add: fork_ok_def)
  then show ?thesis using assms(2) by (simp add: spawn_worker_def Let_def)
qed

lemma spawn_worker_started:
  assumes "fork_ok fork" "k < MAX_WORKERS" "started k m"
  obtains ps p where "spawn_worker fork k m = Inr (Parent (m\<lparr>ma_worker_pids := ps, ma_running := ma_running m @ [p]\<rparr>))"
    "started (Suc k) (m\<lparr>ma_worker_pids := ps, ma_running := ma_running m @ [p]\<rparr>)"
proof -
  let ?p = "fork (children m)"
  have "0 < ?p" "?p \<notin> set (children m)" using assms(1) by (auto simp: fork_ok_def)
  with assms(2,3) have "started (Suc k) (m\<lparr>ma_worker_pids := (ma_worker_pids m)[k := ?p], ma_running := ma_running m @ [?p]\<rparr>)"
    by (auto simp: started_def children_def take_Suc_conv_app_nth)
  with spawn_worker_parent [OF assms(1), of k m] assms(2,3) show ?thesis by (intro that) (auto simp: started_def)
qed

lemma spawn_loop_started:
  assumes "\<And>i. fork_ok (fork i)" "started k m" "k + n \<le> MAX_WORKERS"
  shows "\<exists>ps new. spawn_loop fork [k..<k + n] m = Inr (Parent (m\<lparr>ma_worker_pids := ps, ma_running := ma_running m @ new\<rparr>)) \<and>
    started (k + n) (m\<lparr>ma_worker_pids := ps, ma_running := ma_running m @ new\<rparr>)"
  using assms(2,3)
proof (induction n arbitrary: k m)
  case 0
  then show ?case by (intro exI [of _ "ma_worker_pids m"] exI [of _ "[]"]) simp
next
  case (Suc n)
  then have k: "k < MAX_WORKERS" by simp
  obtain ps p where p: "spawn_worker (fork k) k m = Inr (Parent (m\<lparr>ma_worker_pids := ps, ma_running := ma_running m @ [p]\<rparr>))"
    "started (Suc k) (m\<lparr>ma_worker_pids := ps, ma_running := ma_running m @ [p]\<rparr>)"
    by (rule spawn_worker_started [OF assms(1) k Suc.prems(1)]) (rule that)
  have e: "[k..<k + Suc n] = k # [Suc k..<Suc k + n]" by (simp add: upt_conv_Cons)
  from Suc.IH [OF p(2)] Suc.prems(2) obtain ps' new where
    "spawn_loop fork [Suc k..<Suc k + n] (m\<lparr>ma_worker_pids := ps, ma_running := ma_running m @ [p]\<rparr>) =
       Inr (Parent (m\<lparr>ma_worker_pids := ps', ma_running := ma_running m @ p # new\<rparr>))"
    "started (Suc k + n) (m\<lparr>ma_worker_pids := ps', ma_running := ma_running m @ p # new\<rparr>)" by auto
  then show ?case unfolding e by (intro exI [of _ ps'] exI [of _ "p # new"]) (simp add: p(1))
qed

text \<open>The number of workers a configuration asks for, within the limit of the master.\<close>

definition workers_wanted :: "np_config_t \<Rightarrow> int" where
  "workers_wanted cfg = min (int MAX_WORKERS) (c_worker_processes cfg)"

lemma spawn_workers_ok:
  assumes "\<And>i. fork_ok (fork i)" "length (ma_worker_pids m) = MAX_WORKERS" "children m = []"
  obtains ps new where
    "spawn_workers fork m = Inr (Parent (m\<lparr>ma_worker_count := workers_wanted (ma_config m), ma_worker_pids := ps, ma_running := new\<rparr>))"
    "supervised (m\<lparr>ma_worker_count := workers_wanted (ma_config m), ma_worker_pids := ps, ma_running := new\<rparr>)"
    "length new = nat (workers_wanted (ma_config m))"
proof -
  let ?w = "workers_wanted (ma_config m)" and ?m = "m\<lparr>ma_worker_count := workers_wanted (ma_config m)\<rparr>"
  have w: "nat ?w \<le> MAX_WORKERS" "?w \<le> int MAX_WORKERS" by (auto simp: workers_wanted_def)
  have m: "started 0 ?m" "ma_running m = []" using assms(2,3) by (simp_all add: started_def children_def)
  obtain ps new where s: "spawn_loop fork [0..<nat ?w] ?m = Inr (Parent (?m\<lparr>ma_worker_pids := ps, ma_running := new\<rparr>))"
    "started (nat ?w) (?m\<lparr>ma_worker_pids := ps, ma_running := new\<rparr>)"
    using spawn_loop_started [where fork = fork, OF assms(1) m(1), of "nat ?w"] w(1) m(2) by auto
  have "supervised (?m\<lparr>ma_worker_pids := ps, ma_running := new\<rparr>)" using started_supervised [OF _ , of "?m\<lparr>ma_worker_pids := ps, ma_running := new\<rparr>"] s(2) w(2) by simp
  moreover have "length new = nat ?w"
    using s(2) w(1) assms(3) mset_eq_length [of "take (nat ?w) ps" new] by (simp add: started_def children_def)
  moreover have "spawn_workers fork m = spawn_loop fork [0..<nat ?w] ?m"
    by (simp add: spawn_workers_def slots_def workers_wanted_def min_def Let_def not_less)
  ultimately show ?thesis using s(1) by (intro that) simp_all
qed

section \<open>Replacing a worker\<close>

lemma respawn_loop_slot:
  assumes "i \<in> set is" "ma_worker_pids m ! i = dead" "list_all (\<lambda>j. j < length (ma_worker_pids m)) is"
  shows "\<exists>j \<in> set is. ma_worker_pids m ! j = dead \<and>
    respawn_loop fork dead is m = (if ma_shutdown m then Inr (Parent m) else spawn_worker fork j m)"
  using assms by (induction "is") auto

text \<open>What replacing a worker leaves as it is.\<close>

definition master_fixed :: "master_t \<Rightarrow> int \<times> np_config_t \<times> np_socket_t list \<times> master_event list \<times> bool \<times> bool" where
  "master_fixed m = (ma_worker_count m, ma_config m, ma_listeners m, ma_events m, ma_reload m, ma_shutdown m)"

lemma respawn_supervised:
  assumes "fork_ok fork" "supervised m0" "\<not> ma_shutdown m0" "ma_ended m0 = dead # rest"
    and "m = m0\<lparr>ma_ended := rest, ma_reload := r, ma_shutdown := s\<rparr>"
  shows "\<exists>m'. respawn_loop fork dead (slots m) m = Inr (Parent m') \<and> supervised m' \<and> ma_ended m' = rest \<and>
    master_fixed m' = master_fixed m"
proof -
  let ?n = "nat (ma_worker_count m)"
  have n: "?n \<le> length (ma_worker_pids m)" and len: "length (ma_worker_pids m) = MAX_WORKERS"
    and eq: "mset (take ?n (ma_worker_pids m)) = add_mset dead (mset (children m))" and d: "distinct (dead # children m)"
    and pos: "list_all (\<lambda>p. 0 < p) (take ?n (ma_worker_pids m))" and c: "ma_worker_count m \<le> int MAX_WORKERS"
    using assms(2-5) by (auto simp: supervised_def worker_slots_def children_def)
  have "dead \<in> set (take ?n (ma_worker_pids m))" using mset_eq_setD [of _ "dead # children m"] eq by simp
  then obtain i where "i < ?n" "ma_worker_pids m ! i = dead" using n by (auto simp: in_set_conv_nth)
  then obtain j where j: "j < ?n" "ma_worker_pids m ! j = dead"
    "respawn_loop fork dead (slots m) m = (if ma_shutdown m then Inr (Parent m) else spawn_worker fork j m)"
    using respawn_loop_slot [of i "slots m" m dead fork] n by (auto simp: slots_def list_all_iff)
  show ?thesis
  proof (cases "ma_shutdown m")
    case True
    have "supervised m" using True c len d pos mset_eq_setD [of _ "dead # children m"] eq by (auto simp: supervised_def worker_slots_def)
    moreover have "ma_ended m = rest" using assms(5) by simp
    ultimately show ?thesis using j(3) True by simp
  next
    case False
    let ?p = "fork (children m)"
    let ?m = "m\<lparr>ma_worker_pids := (ma_worker_pids m)[j := ?p], ma_running := ma_running m @ [?p]\<rparr>"
    have p: "0 < ?p" "?p \<notin> set (children m)" using assms(1) by (auto simp: fork_ok_def)
    have "take ?n ((ma_worker_pids m)[j := ?p]) = (take ?n (ma_worker_pids m))[j := ?p]" by (simp add: take_update_swap)
    moreover have "mset ((take ?n (ma_worker_pids m))[j := ?p]) = add_mset ?p (mset (children m))"
      using j(1,2) n eq by (simp add: mset_update)
    moreover have "list_all (\<lambda>p. 0 < p) ((take ?n (ma_worker_pids m))[j := ?p])"
      using pos p(1) by (auto simp: list_all_iff dest!: subsetD [OF set_update_subset_insert])
    ultimately have "started ?n ?m" using len d p(2) by (auto simp: started_def children_def)
    then have "supervised ?m" using started_supervised [of ?m] c by simp
    moreover have "spawn_worker fork j m = Inr (Parent ?m)" using spawn_worker_parent [OF assms(1), of j m] j(1) n by simp
    ultimately show ?thesis using j(3) False assms(5) by (intro exI [of _ ?m]) (auto simp: master_fixed_def)
  qed
qed

section \<open>Stopping the workers\<close>

lemma kill_loop_result:
  assumes "list_all (\<lambda>i. i < length (ma_worker_pids m)) is"
  shows "kill_loop sig is m =
    Inr (m\<lparr>ma_events := ma_events m @ map (\<lambda>p. Killed p sig) (filter (\<lambda>p. 0 < p) (map ((!) (ma_worker_pids m)) is))\<rparr>)"
  using assms
proof (induction "is" arbitrary: m)
  case (Cons i "is")
  then show ?case using Cons.IH [of "m\<lparr>ma_events := ma_events m @ [Killed (ma_worker_pids m ! i) sig]\<rparr>"] by simp
qed simp

lemma map_slots: "nat (ma_worker_count m) \<le> length (ma_worker_pids m) \<Longrightarrow> map ((!) (ma_worker_pids m)) (slots m) = worker_slots m"
  by (simp add: slots_def worker_slots_def list_eq_iff_nth_eq)

lemma supervised_slots:
  assumes "supervised m"
  shows "nat (ma_worker_count m) \<le> length (ma_worker_pids m)" "list_all (\<lambda>i. i < length (ma_worker_pids m)) (slots m)"
    "filter (\<lambda>p. 0 < p) (worker_slots m) = worker_slots m"
  using assms by (auto simp: supervised_def slots_def list_all_iff filter_id_conv)

lemma kill_workers_result:
  "supervised m \<Longrightarrow> kill_workers sig m = Inr (m\<lparr>ma_events := ma_events m @ map (\<lambda>p. Killed p sig) (worker_slots m)\<rparr>)"
  using kill_loop_result [OF supervised_slots(2)] by (simp add: kill_workers_def map_slots supervised_slots)

lemma wait_loop_result:
  assumes "\<And>p. \<not> eintr p" "distinct is" "list_all (\<lambda>i. i < length (ma_worker_pids m) \<and> 0 < ma_worker_pids m ! i) is"
    "distinct (children m)"
  shows "\<exists>ps run ended. wait_loop eintr is m = Inr (m\<lparr>ma_worker_pids := ps, ma_running := run, ma_ended := ended\<rparr>) \<and>
    length ps = length (ma_worker_pids m) \<and>
    set (run @ ended) = set (children m) - (!) (ma_worker_pids m) ` set is"
  using assms(2-4)
proof (induction "is" arbitrary: m)
  case Nil
  then show ?case
    by (intro exI [of _ "ma_worker_pids m"] exI [of _ "ma_running m"] exI [of _ "ma_ended m"]) (simp add: children_def)
next
  case (Cons i "is")
  let ?p = "ma_worker_pids m ! i" and ?ps = "(ma_worker_pids m)[i := 0]"
  let ?m = "m\<lparr>ma_running := remove1 ?p (ma_running m), ma_ended := remove1 ?p (ma_ended m), ma_worker_pids := ?ps\<rparr>"
  have d: "distinct (children ?m)" "set (children ?m) = set (children m) - {?p}"
    using Cons.prems(3) by (auto simp: children_def dest: set_remove1_subset [THEN subsetD])
  have l: "list_all (\<lambda>j. j < length (ma_worker_pids ?m) \<and> 0 < ma_worker_pids ?m ! j) is"
    and img: "(!) (ma_worker_pids ?m) ` set is = (!) (ma_worker_pids m) ` set is"
    using Cons.prems(1,2) by (auto simp: list_all_iff nth_list_update)
  have w: "wait_loop eintr (i # is) m = wait_loop eintr is ?m" using Cons.prems(2) assms(1) by (simp add: waitpid_def)
  have "distinct is" using Cons.prems(1) by simp
  from Cons.IH [OF this l d(1)] obtain ps run ended where
    ih: "wait_loop eintr is ?m = Inr (?m\<lparr>ma_worker_pids := ps, ma_running := run, ma_ended := ended\<rparr>)"
    "length ps = length (ma_worker_pids ?m)" "set (run @ ended) = set (children ?m) - (!) (ma_worker_pids ?m) ` set is" by blast
  have "set (run @ ended) = set (children m) - (!) (ma_worker_pids m) ` set (i # is)" unfolding ih(3) d(2) img by auto
  with ih(1,2) w show ?case by (intro exI [of _ ps] exI [of _ run] exI [of _ ended]) simp
qed

text \<open>All workers are told to stop and are collected.\<close>

lemma stop_workers:
  assumes "supervised m" "\<And>p. \<not> eintr p"
  obtains ps where "mbind (kill_workers SIGTERM m) (wait_workers eintr) =
      Inr (m\<lparr>ma_worker_pids := ps, ma_running := [], ma_ended := [],
        ma_events := ma_events m @ map (\<lambda>p. Killed p SIGTERM) (worker_slots m)\<rparr>)" "length ps = MAX_WORKERS"
proof -
  let ?m = "m\<lparr>ma_events := ma_events m @ map (\<lambda>p. Killed p SIGTERM) (worker_slots m)\<rparr>"
  have "list_all (\<lambda>i. i < length (ma_worker_pids ?m) \<and> 0 < ma_worker_pids ?m ! i) (slots ?m)"
  proof -
    have "list_all (\<lambda>p. 0 < p) (map ((!) (ma_worker_pids m)) (slots m))"
      using assms(1) map_slots [OF supervised_slots(1) [OF assms(1)]] by (simp add: supervised_def)
    then show ?thesis using supervised_slots(2) [OF assms(1)] by (simp add: list_all_iff slots_def)
  qed
  moreover have "distinct (children ?m)" "distinct (slots ?m)" using assms(1) by (simp_all add: supervised_def children_def slots_def)
  ultimately obtain ps run ended where w: "wait_workers eintr ?m = Inr (?m\<lparr>ma_worker_pids := ps, ma_running := run, ma_ended := ended\<rparr>)"
    "length ps = length (ma_worker_pids m)" "set (run @ ended) = set (children m) - (!) (ma_worker_pids m) ` set (slots m)"
    using wait_loop_result [where eintr = eintr, OF assms(2), of "slots ?m" ?m] by (auto simp: wait_workers_def children_def slots_def)
  have "set (children m) \<subseteq> (!) (ma_worker_pids m) ` set (slots m)"
    using assms(1) arg_cong [OF map_slots [OF supervised_slots(1) [OF assms(1)]], of set] by (simp add: supervised_def)
  then have "set (run @ ended) = {}" unfolding w(3) by blast
  then have "run = [] \<and> ended = []" by simp
  then show ?thesis using w(1,2) assms(1) by (intro that [of ps]) (simp_all add: kill_workers_result supervised_def)
qed

section \<open>Loading a configuration\<close>

lemma reload_result:
  assumes "supervised m" "reload_ok env" "re_file env = Some text"
  obtains cfg ls ps new where "cfg = fst (config_load regcomp (Some text))"
    "rebind_loop (re_sockets env) cfg 0 (c_servers cfg) [] [] = Inr ls"
    "reload regcomp env m = Inr (Parent (m\<lparr>ma_ended := [], ma_events := ma_events m @ map (\<lambda>p. Killed p SIGTERM) (worker_slots m) @
         map Closed_listener (concat (map (\<lambda>l. socket_close (sk_fd l)) (ma_listeners m))),
       ma_config := cfg, ma_listeners := ls, ma_worker_count := workers_wanted cfg, ma_worker_pids := ps, ma_running := new\<rparr>))"
    "supervised (m\<lparr>ma_ended := [], ma_events := ma_events m @ map (\<lambda>p. Killed p SIGTERM) (worker_slots m) @
         map Closed_listener (concat (map (\<lambda>l. socket_close (sk_fd l)) (ma_listeners m))),
       ma_config := cfg, ma_listeners := ls, ma_worker_count := workers_wanted cfg, ma_worker_pids := ps, ma_running := new\<rparr>)"
    "length new = nat (workers_wanted cfg)" "distinct (map port_of ls)"
proof -
  define cfg where "cfg = fst (config_load regcomp (Some text))"
  have load: "config_load regcomp (Some text) = (cfg, NP_OK)" by (simp add: cfg_def config_load_def)
  have cfg: "config_ok cfg" by (auto simp: cfg_def config_load_def config_defaults_ok intro!: config_loop_ok)
  obtain ls where ls: "rebind_loop (re_sockets env) cfg 0 (c_servers cfg) [] [] = Inr ls" "distinct (map port_of ls)"
    using rebind_loop_total [of "[]" "c_servers cfg" "re_sockets env" cfg 0] cfg by (auto simp: config_ok_def)
  have env: "\<And>i. fork_ok (re_fork env i)" "\<And>p. \<not> re_eintr env p" using assms(2) by (simp_all add: reload_ok_def)
  obtain ps where st: "mbind (kill_workers SIGTERM m) (wait_workers (re_eintr env)) =
      Inr (m\<lparr>ma_worker_pids := ps, ma_running := [], ma_ended := [],
        ma_events := ma_events m @ map (\<lambda>p. Killed p SIGTERM) (worker_slots m)\<rparr>)" "length ps = MAX_WORKERS"
    by (rule stop_workers [where eintr = "re_eintr env", OF assms(1) env(2)]) (rule that)
  let ?m = "m\<lparr>ma_worker_pids := ps, ma_running := [], ma_ended := [],
    ma_events := ma_events m @ map (\<lambda>p. Killed p SIGTERM) (worker_slots m) @
      map Closed_listener (concat (map (\<lambda>l. socket_close (sk_fd l)) (ma_listeners m))), ma_config := cfg, ma_listeners := ls\<rparr>"
  have m: "length (ma_worker_pids ?m) = MAX_WORKERS" "children ?m = []" using st(2) by (simp_all add: children_def)
  obtain qs new where sp: "spawn_workers (re_fork env) ?m =
      Inr (Parent (?m\<lparr>ma_worker_count := workers_wanted (ma_config ?m), ma_worker_pids := qs, ma_running := new\<rparr>))"
    "supervised (?m\<lparr>ma_worker_count := workers_wanted (ma_config ?m), ma_worker_pids := qs, ma_running := new\<rparr>)"
    "length new = nat (workers_wanted (ma_config ?m))"
    by (rule spawn_workers_ok [where fork = "re_fork env", OF env(1) m]) (rule that)
  have "reload regcomp env m = spawn_workers (re_fork env) ?m"
  proof -
    obtain m1 where "kill_workers SIGTERM m = Inr m1" using kill_workers_result [OF assms(1)] by blast
    with st(1) ls(1) load show ?thesis by (simp add: reload_def assms(3) close_listeners_def)
  qed
  with sp ls show ?thesis by (intro that [where cfg = cfg and ls = ls and ps = qs and new = new]) (simp_all add: cfg_def)
qed

section \<open>The loop of the master\<close>

lemma reload_supervised:
  assumes "supervised m" "reload_ok env" "ma_worker_count m = workers_wanted (ma_config m)"
  shows "\<exists>m'. reload regcomp env m = Inr (Parent m') \<and> supervised m' \<and> ma_worker_count m' = workers_wanted (ma_config m')"
proof (cases "re_file env")
  case None
  then show ?thesis using assms(1,3) by (simp add: reload_def config_load_def)
next
  case (Some txts)
  show ?thesis by (rule reload_result [OF assms(1,2) Some, of regcomp]) auto
qed

lemma fold_ends_supervised:
  "supervised m \<Longrightarrow> supervised (fold child_ends ps m)"
  "ma_worker_count (fold child_ends ps m) = ma_worker_count m" "ma_config (fold child_ends ps m) = ma_config m"
  "ma_shutdown (fold child_ends ps m) = ma_shutdown m"
  by (induction ps arbitrary: m) (simp_all add: child_ends_supervised, simp_all add: child_ends_def)

lemma reap_supervised:
  assumes "turn_ok t" "supervised m" "\<not> ma_shutdown m"
  shows "\<exists>m'. reap t m = Inr (Parent m') \<and> supervised m' \<and> ma_ended m' = tl (ma_ended m) \<and>
    ma_worker_count m' = ma_worker_count m \<and> ma_config m' = ma_config m"
proof (cases "ma_ended m")
  case Nil
  then show ?thesis using assms by (simp add: reap_def)
next
  case (Cons dead rest)
  obtain r s where d: "deliver (tu_signals_respawn t) (m\<lparr>ma_ended := rest\<rparr>) = m\<lparr>ma_ended := rest, ma_reload := r, ma_shutdown := s\<rparr>"
    using deliver_flags [of "tu_signals_respawn t" "m\<lparr>ma_ended := rest\<rparr>"] by auto
  have "fork_ok (tu_fork t)" using assms(1) by (simp add: turn_ok_def)
  from respawn_supervised [OF this assms(2,3) Cons d] show ?thesis by (auto simp: reap_def Cons Let_def d master_fixed_def)
qed

text \<open>A run keeps its workers: the state after a turn, and after all turns.\<close>

definition master_inv :: "master_t \<Rightarrow> bool" where
  "master_inv m \<longleftrightarrow> supervised m \<and> ma_worker_count m = workers_wanted (ma_config m)"

lemma deliver_inv: "master_inv m \<Longrightarrow> master_inv (deliver sigs m)"
  using deliver_supervised [of m sigs] deliver_flags [of sigs m] by (auto simp: master_inv_def)

lemma master_turn_inv:
  assumes "turn_ok t" "master_inv m" "\<not> ma_shutdown m"
  shows "\<exists>m'. master_turn regcomp t m = Inr (Parent m') \<and> master_inv m'"
proof -
  let ?m = "fold child_ends (tu_ends t) m"
  obtain m1 where m1: "reap t ?m = Inr (Parent m1)" "master_inv m1"
    using reap_supervised [OF assms(1), of ?m] assms(2,3) by (auto simp: master_inv_def fold_ends_supervised)
  let ?m1 = "deliver (tu_signals_reload t) m1"
  have inv: "master_inv ?m1" by (rule deliver_inv [OF m1(2)])
  have "supervised (?m1\<lparr>ma_reload := False\<rparr>)" by (rule supervised_cong [of ?m1]) (use inv in \<open>simp_all add: master_inv_def children_def\<close>)
  then show ?thesis using m1(1) inv reload_supervised [of "?m1\<lparr>ma_reload := False\<rparr>" "tu_reload t" regcomp] assms(1)
    by (auto simp: master_turn_def Let_def master_inv_def turn_ok_def)
qed

lemma master_loop_inv:
  assumes "list_all turn_ok ts" "master_inv m"
  shows "\<exists>m'. master_loop regcomp ts m = Inr (Parent m') \<and> master_inv m'"
  using assms
proof (induction ts arbitrary: m)
  case (Cons t ts)
  show ?case
  proof (cases "ma_shutdown (deliver (tu_signals t) m)")
    case True
    then show ?thesis using deliver_inv [OF Cons.prems(2)] by (simp add: Let_def)
  next
    case False
    with master_turn_inv [OF _ deliver_inv [OF Cons.prems(2)] False] Cons.prems(1) obtain m1 where
      "master_turn regcomp t (deliver (tu_signals t) m) = Inr (Parent m1)" "master_inv m1" by auto
    then show ?thesis using Cons.IH [of m1] Cons.prems(1) False by (simp add: Let_def)
  qed
qed simp

section \<open>The workers of a master\<close>

lemma master_starts:
  assumes "\<And>i. fork_ok (fork i)"
  shows "\<exists>m. spawn_workers fork (master_init cfg ls) = Inr (Parent m) \<and> master_inv m"
proof -
  have m: "length (ma_worker_pids (master_init cfg ls)) = MAX_WORKERS" "children (master_init cfg ls) = []"
    by (simp_all add: master_init_def children_def)
  show ?thesis by (rule spawn_workers_ok [where fork = fork, OF assms m]) (auto simp: master_inv_def)
qed


text \<open>A kernel that numbers processes upwards, and turns in which nothing fails.\<close>

definition demo_fork :: kernel_fork where
  "demo_fork ps = fold max ps 100 + 1"

lemma demo_fork_ok: "fork_ok demo_fork"
proof -
  have "x \<le> fold max ps x \<and> (\<forall>p\<in>set ps. p \<le> fold max ps x)" for ps and x :: int
    by (induction ps arbitrary: x) (auto, (metis max.cobounded1 max.cobounded2 order.trans)+)
  then show ?thesis by (fastforce simp: fork_ok_def demo_fork_def)
qed

definition demo_sockets :: socket_env where
  "demo_sockets = \<lparr>so_socket = \<lambda>i. 10 + int i, so_bind = \<lambda>_ _. True, so_listen = \<lambda>_. True, so_array = \<lambda>_. \<lparr>sk_fd = 0, sk_addr = (0, 0)\<rparr>\<rparr>"

definition demo_turn :: "int list \<Rightarrow> int list \<Rightarrow> turn_env" where
  "demo_turn sigs ends = \<lparr>tu_signals = sigs, tu_ends = ends, tu_signals_respawn = [], tu_fork = demo_fork, tu_signals_reload = [],
     tu_reload = \<lparr>re_file = Some [], re_eintr = \<lambda>_. False, re_sockets = demo_sockets, re_fork = \<lambda>_. demo_fork\<rparr>\<rparr>"

lemma demo_turn_ok: "turn_ok (demo_turn sigs ends)"
  by (simp add: turn_ok_def demo_turn_def demo_fork_ok reload_ok_def)


section \<open>Dead workers\<close>

text \<open>A turn in which no signal arrives and no child ends.\<close>

definition quiet :: "turn_env \<Rightarrow> bool" where
  "quiet t \<longleftrightarrow> turn_ok t \<and> tu_signals t = [] \<and> tu_ends t = [] \<and> tu_signals_respawn t = [] \<and> tu_signals_reload t = []"

lemma deliver_none [simp]: "deliver [] m = m"
  by (simp add: deliver_def)

lemma quiet_turn:
  assumes "quiet t" "supervised m" "\<not> ma_shutdown m" "\<not> ma_reload m"
  shows "\<exists>m'. master_turn regcomp t m = Inr (Parent m') \<and> supervised m' \<and> ma_ended m' = tl (ma_ended m) \<and> master_fixed m' = master_fixed m"
proof (cases "ma_ended m")
  case Nil
  then show ?thesis using assms by (simp add: master_turn_def reap_def quiet_def Let_def)
next
  case (Cons dead rest)
  have f: "fork_ok (tu_fork t)" using assms(1) by (simp add: quiet_def turn_ok_def)
  have e: "m\<lparr>ma_ended := rest\<rparr> = m\<lparr>ma_ended := rest, ma_reload := ma_reload m, ma_shutdown := ma_shutdown m\<rparr>" by simp
  from respawn_supervised [OF f assms(2,3) Cons e] obtain m' where
    "respawn_loop (tu_fork t) dead (slots (m\<lparr>ma_ended := rest\<rparr>)) (m\<lparr>ma_ended := rest\<rparr>) = Inr (Parent m')"
    "supervised m'" "ma_ended m' = rest" "master_fixed m' = master_fixed (m\<lparr>ma_ended := rest\<rparr>)"
    by blast
  then show ?thesis using assms(1,4) by (auto simp: master_turn_def reap_def quiet_def Let_def Cons master_fixed_def)
qed

text \<open>
  C17: Dead workers are replaced. When nothing else happens, a turn collects one child that has ended and
  puts a new worker in its place, so after as many turns as there are such children all of them are
  collected, and the same number of slots hold different workers, all of which run.
\<close>

theorem master_replaces_dead:
  assumes "supervised m" "\<not> ma_shutdown m" "\<not> ma_reload m" "list_all quiet ts" "length (ma_ended m) \<le> length ts"
  shows "\<exists>m'. master_loop regcomp ts m = Inr (Parent m') \<and> ma_ended m' = [] \<and>
    length (worker_slots m') = length (worker_slots m) \<and> distinct (worker_slots m') \<and> set (worker_slots m') = set (ma_running m')"
  using assms
proof (induction ts arbitrary: m)
  case Nil
  then have e: "mset (worker_slots m) = mset (ma_running m)" "distinct (ma_running m)" by (auto simp: supervised_def children_def)
  then show ?case using Nil mset_eq_setD [OF e(1)] mset_eq_imp_distinct_iff [OF e(1)] by simp
next
  case (Cons t ts)
  then have "quiet t" by simp
  from quiet_turn [OF this Cons.prems(1-3)] obtain m1 where m1: "master_turn regcomp t m = Inr (Parent m1)" "supervised m1"
    "ma_ended m1 = tl (ma_ended m)" "master_fixed m1 = master_fixed m" by blast
  have "length (worker_slots m1) = length (worker_slots m)"
    using m1(2,4) Cons.prems(1) by (simp add: supervised_def worker_slots_def master_fixed_def)
  moreover have "master_loop regcomp (t # ts) m = master_loop regcomp ts m1"
    using \<open>quiet t\<close> m1(1) Cons.prems(2) by (simp add: quiet_def Let_def)
  ultimately show ?case using Cons.IH [OF m1(2)] m1(3,4) Cons.prems(2-5) by (simp add: master_fixed_def)
qed

text \<open>Three workers, of which two have died.\<close>

definition demo_master :: master_t where
  "demo_master = (master_init config_defaults [])\<lparr>ma_worker_pids := [101, 102, 103] @ replicate 61 0, ma_worker_count := 3,
     ma_running := [102], ma_ended := [101, 103]\<rparr>"

lemma demo_master_ok: "supervised demo_master" "\<not> ma_shutdown demo_master" "\<not> ma_reload demo_master"
  by (simp_all add: demo_master_def supervised_def worker_slots_def children_def master_init_def add_mset_commute)

theorem master_replaces_dead_witness:
  "\<exists>m'. master_loop (\<lambda>_. True) [demo_turn [] [], demo_turn [] []] demo_master = Inr (Parent m') \<and> ma_ended m' = [] \<and>
    length (worker_slots m') = 3 \<and> distinct (worker_slots m') \<and> set (worker_slots m') = set (ma_running m')"
proof -
  have t: "list_all quiet [demo_turn [] [], demo_turn [] []]"
    using demo_turn_ok [of "[]" "[]"] by (simp add: quiet_def) (simp add: demo_turn_def)
  have "length (ma_ended demo_master) \<le> length [demo_turn [] [], demo_turn [] []]" "length (worker_slots demo_master) = 3"
    by (simp_all add: demo_master_def worker_slots_def)
  with master_replaces_dead [OF demo_master_ok t, of "\<lambda>_. True"] show ?thesis by simp
qed

text \<open>
  A worker whose replacement cannot be forked is not replaced later: the turn collects it, its slot
  keeps the number of a process that is no child any more, and no quiet turn tries again.
\<close>

lemma failed_fork_not_retried:
  assumes "supervised m" "\<not> ma_shutdown m" "\<not> ma_reload m" "ma_ended m = [dead]"
    and "quiet (t\<lparr>tu_fork := demo_fork\<rparr>)" "tu_fork t (ma_running m) < 0" "list_all quiet ts"
  shows "master_loop regcomp (t # ts) m = Inr (Parent (m\<lparr>ma_ended := []\<rparr>))"
    "dead \<in> set (worker_slots (m\<lparr>ma_ended := []\<rparr>))" "dead \<notin> set (children (m\<lparr>ma_ended := []\<rparr>))"
proof -
  let ?m = "m\<lparr>ma_ended := []\<rparr>"
  have "set (worker_slots m) = set (children m)" "distinct (children m)"
    using assms(1,2) mset_eq_setD by (auto simp: supervised_def)
  then show d: "dead \<in> set (worker_slots ?m)" "dead \<notin> set (children ?m)"
    using assms(4) by (auto simp: worker_slots_def children_def)
  then have "dead \<in> set (map ((!) (ma_worker_pids m)) (slots m))"
    using map_slots [OF supervised_slots(1) [OF assms(1)]] by (simp add: worker_slots_def)
  then obtain i where "i \<in> set (slots ?m)" "ma_worker_pids ?m ! i = dead" by (auto simp: slots_def)
  moreover have "list_all (\<lambda>j. j < length (ma_worker_pids ?m)) (slots ?m)" using supervised_slots(2) [OF assms(1)] by (simp add: slots_def)
  ultimately obtain j where "respawn_loop (tu_fork t) dead (slots ?m) ?m = spawn_worker (tu_fork t) j ?m"
    using respawn_loop_slot [of i "slots ?m" ?m dead "tu_fork t"] assms(2) by auto
  then have "respawn_loop (tu_fork t) dead (slots ?m) ?m = Inr (Parent ?m)"
    using assms(6) by (simp add: spawn_worker_def children_def)
  then have "master_loop regcomp (t # ts) m = master_loop regcomp ts ?m"
    using assms(2-5) by (simp add: master_turn_def reap_def quiet_def Let_def)
  moreover have "master_loop regcomp ts ?m = Inr (Parent ?m)"
    using assms(7,2,3) by (induction ts) (simp_all add: master_turn_def reap_def quiet_def Let_def)
  ultimately show "master_loop regcomp (t # ts) m = Inr (Parent ?m)" by simp
qed

section \<open>A new configuration\<close>

lemma closed_listeners: "concat (map (\<lambda>l. socket_close (sk_fd l)) ls) = filter (\<lambda>fd. 0 \<le> fd) (map sk_fd ls)"
  by (induction ls) (simp_all add: socket_close_def)



end
