(* ===== verification/Master_Run.thy ===== *)
theory Master_Run
  imports Master
begin

text \<open>
  Whole runs of the master of \<^verbatim>\<open>src/src/proc/master.c\<close>: how they end, what they leave unchanged when
  no configuration is loaded, and what a worker is started with.
\<close>

section \<open>The end\<close>

lemma deliver_stops:
  assumes "sig \<in> set sigs" "sig = SIGTERM \<or> sig = SIGINT"
  shows "ma_shutdown (deliver sigs m)"
  using assms(1)
proof (induction sigs arbitrary: m)
  case (Cons s sigs)
  let ?m = "if map_of setup_signals s = Some Handled then master_sighandler s m else m"
  have e: "deliver (s # sigs) m = deliver sigs ?m" by (simp add: deliver_def)
  show ?case
  proof (cases "s = sig")
    case True
    then have "ma_shutdown ?m" using assms(2) by (auto simp: setup_signals_def master_sighandler_def Let_def)
    then show ?thesis using deliver_flags [of sigs ?m] unfolding e by auto
  qed (use Cons in \<open>simp add: e\<close>)
qed simp

lemma master_loop_stops:
  assumes "list_all turn_ok ts" "master_inv m" "t \<in> set ts" "sig \<in> set (tu_signals t)" "sig = SIGTERM \<or> sig = SIGINT"
  shows "\<exists>m'. master_loop regcomp ts m = Inr (Parent m') \<and> master_inv m' \<and> ma_shutdown m'"
  using assms(1-3)
proof (induction ts arbitrary: m)
  case (Cons u ts)
  show ?case
  proof (cases "ma_shutdown (deliver (tu_signals u) m)")
    case True
    then show ?thesis using deliver_inv [OF Cons.prems(2)] by (simp add: Let_def)
  next
    case False
    then have "u \<noteq> t" using deliver_stops [OF assms(4,5), of m] by auto
    moreover obtain m1 where "master_turn regcomp u (deliver (tu_signals u) m) = Inr (Parent m1)" "master_inv m1"
      using master_turn_inv [OF _ deliver_inv [OF Cons.prems(2)] False] Cons.prems(1) by auto
    ultimately show ?thesis using Cons.IH [of m1] Cons.prems(1,3) False by (simp add: Let_def)
  qed
qed simp

text \<open>Turns in which no configuration is loaded leave configuration and listeners as they are.\<close>

definition no_reload :: "turn_env \<Rightarrow> bool" where
  "no_reload t \<longleftrightarrow> SIGHUP \<notin> set (tu_signals t @ tu_signals_respawn t @ tu_signals_reload t)"

definition master_setup :: "master_t \<Rightarrow> np_config_t \<times> np_socket_t list \<times> master_event list \<times> bool" where
  "master_setup m = (ma_config m, ma_listeners m, ma_events m, ma_reload m)"

lemma deliver_setup: "SIGHUP \<notin> set sigs \<Longrightarrow> master_setup (deliver sigs m) = master_setup m"
  by (induction sigs arbitrary: m) (simp_all add: deliver_def master_sighandler_def Let_def master_setup_def)

lemma spawn_worker_setup: "spawn_worker fork i m = Inr (Parent m') \<Longrightarrow> master_setup m' = master_setup m"
  by (auto simp: spawn_worker_def Let_def master_setup_def split: if_splits)

lemma spawn_loop_setup: "spawn_loop fork is m = Inr (Parent m') \<Longrightarrow> master_setup m' = master_setup m"
proof (induction "is" arbitrary: m)
  case (Cons i "is")
  then obtain m1 where "spawn_worker (fork i) i m = Inr (Parent m1)" "spawn_loop fork is m1 = Inr (Parent m')"
    by (auto simp: fbind_Parent_iff)
  then show ?case using Cons.IH [of m1] spawn_worker_setup by simp
qed simp

lemma spawn_workers_setup: "spawn_workers fork m = Inr (Parent m') \<Longrightarrow> master_setup m' = master_setup m"
  using spawn_loop_setup by (fastforce simp: spawn_workers_def Let_def master_setup_def)

lemma respawn_loop_setup: "respawn_loop fork dead is m = Inr (Parent m') \<Longrightarrow> master_setup m' = master_setup m"
  by (induction "is") (auto dest: spawn_worker_setup split: if_splits)

lemma fold_ends_setup: "master_setup (fold child_ends ps m) = master_setup m"
  by (induction ps arbitrary: m) (simp_all add: child_ends_def master_setup_def)

lemma reap_setup:
  assumes "SIGHUP \<notin> set (tu_signals_respawn t)" "reap t m = Inr (Parent m')"
  shows "master_setup m' = master_setup m"
proof (cases "ma_ended m")
  case (Cons dead rest)
  then show ?thesis using assms respawn_loop_setup [of "tu_fork t" dead _ _ m'] deliver_setup [OF assms(1), of "m\<lparr>ma_ended := rest\<rparr>"]
    by (fastforce simp: reap_def Let_def master_setup_def)
qed (use assms in \<open>simp add: reap_def\<close>)

lemma master_loop_setup:
  assumes "list_all no_reload ts" "master_loop regcomp ts m = Inr (Parent m')" "\<not> ma_reload m"
  shows "master_setup m' = master_setup m"
  using assms
proof (induction ts arbitrary: m)
  case (Cons t ts)
  let ?m = "deliver (tu_signals t) m"
  have s: "SIGHUP \<notin> set (tu_signals t)" "SIGHUP \<notin> set (tu_signals_respawn t)" "SIGHUP \<notin> set (tu_signals_reload t)"
    using Cons.prems(1) by (simp_all add: no_reload_def)
  have m: "master_setup ?m = master_setup m" by (rule deliver_setup [OF s(1)])
  show ?case
  proof (cases "ma_shutdown ?m")
    case False
    then obtain m1 where m1: "master_turn regcomp t ?m = Inr (Parent m1)" "master_loop regcomp ts m1 = Inr (Parent m')"
      using Cons.prems(2) by (auto simp: fbind_Parent_iff Let_def)
    then obtain m2 where m2: "reap t (fold child_ends (tu_ends t) ?m) = Inr (Parent m2)"
      by (auto simp: master_turn_def fbind_Parent_iff)
    have s2: "master_setup m2 = master_setup m" using reap_setup [OF s(2) m2] fold_ends_setup m by simp
    have s3: "master_setup (deliver (tu_signals_reload t) m2) = master_setup m" using deliver_setup [OF s(3)] s2 by simp
    then have "\<not> ma_reload (deliver (tu_signals_reload t) m2)" using Cons.prems(3) by (simp add: master_setup_def)
    then have "m1 = deliver (tu_signals_reload t) m2" using m1(1) m2 by (simp add: master_turn_def Let_def)
    then show ?thesis using Cons.IH [OF _ m1(2)] Cons.prems(1,3) s3 by (simp add: master_setup_def)
  qed (use Cons.prems m in \<open>simp add: Let_def\<close>)
qed simp

text \<open>
  A master that is told to stop leaves nothing behind. Whatever happened before, once \<^verbatim>\<open>SIGTERM\<close> or
  \<^verbatim>\<open>SIGINT\<close> arrives the loop ends; every slot is sent \<^verbatim>\<open>SIGTERM\<close>, every child is collected, and then
  all listeners are closed.
\<close>

lemma master_run_stops:
  assumes "\<And>i. fork_ok (fork i)" "list_all turn_ok ts" "\<And>p. \<not> eintr p"
    and "t \<in> set ts" "sig \<in> set (tu_signals t)" "sig = SIGTERM \<or> sig = SIGINT"
  shows "\<exists>m before workers. master_run regcomp fork ts eintr cfg ls = Inr (Parent m) \<and> ma_shutdown m \<and> children m = [] \<and>
    length workers = nat (min (int MAX_WORKERS) (c_worker_processes (ma_config m))) \<and>
    ma_events m = before @ map (\<lambda>p. Killed p SIGTERM) workers @
      map Closed_listener (filter (\<lambda>fd. 0 \<le> fd) (map sk_fd (ma_listeners m))) \<and>
    (list_all no_reload ts \<longrightarrow> ma_config m = cfg \<and> ma_listeners m = ls \<and> before = [])"
proof -
  obtain m0 where m0: "spawn_workers fork (master_init cfg ls) = Inr (Parent m0)" "master_inv m0"
    using master_starts [where fork = fork, OF assms(1)] by blast
  obtain m1 where m1: "master_loop regcomp ts m0 = Inr (Parent m1)" "master_inv m1" "ma_shutdown m1"
    using master_loop_stops [OF assms(2) m0(2) assms(4-6)] by blast
  then have sup: "supervised m1" by (simp add: master_inv_def)
  obtain ps where st: "mbind (kill_workers SIGTERM m1) (wait_workers eintr) =
      Inr (m1\<lparr>ma_worker_pids := ps, ma_running := [], ma_ended := [],
        ma_events := ma_events m1 @ map (\<lambda>p. Killed p SIGTERM) (worker_slots m1)\<rparr>)" "length ps = MAX_WORKERS"
    by (rule stop_workers [where eintr = eintr, OF sup assms(3)]) (rule that)
  have "length (worker_slots m1) = nat (workers_wanted (ma_config m1))"
    using m1(2) supervised_slots(1) [OF sup] by (simp add: master_inv_def worker_slots_def)
  moreover have "ma_config m1 = cfg \<and> ma_listeners m1 = ls \<and> ma_events m1 = []" if "list_all no_reload ts"
    using master_loop_setup [OF that m1(1)] spawn_workers_setup [OF m0(1)] by (simp add: master_init_def master_setup_def)
  ultimately show ?thesis
    using m0(1) m1(1,3) st(1) kill_workers_result [OF sup, of SIGTERM]
    by (auto simp: master_run_def master_end_def close_listeners_def closed_listeners children_def workers_wanted_def)
qed

section \<open>What a worker is started with\<close>

definition setup_ok :: "np_config_t \<Rightarrow> np_socket_t list \<Rightarrow> bool" where
  "setup_ok cfg ls \<longleftrightarrow> config_ok cfg \<and> distinct (map port_of ls) \<and> set (map port_of ls) \<subseteq> set (map srv_listen_port (c_servers cfg))"

text \<open>In both processes a call may go on in, the configuration and the listeners fit each other.\<close>

definition forked_ok :: "master_t forked mem \<Rightarrow> bool" where
  "forked_ok x \<longleftrightarrow>
     (case x of
        Inl e \<Rightarrow> True
      | Inr (Parent m) \<Rightarrow> setup_ok (ma_config m) (ma_listeners m)
      | Inr (Child i cfg ls) \<Rightarrow> setup_ok cfg ls)"

lemma forked_ok_simps [simp]:
  "forked_ok (Inr (Parent m)) = setup_ok (ma_config m) (ma_listeners m)" "forked_ok (Inr (Child i cfg ls)) = setup_ok cfg ls"
  "forked_ok (Inl e)"
  by (simp_all add: forked_ok_def)

lemma fbind_ok:
  "forked_ok x \<Longrightarrow> (\<And>m. setup_ok (ma_config m) (ma_listeners m) \<Longrightarrow> forked_ok (f m)) \<Longrightarrow> forked_ok (fbind x f)"
  by (cases x; cases "projr x") auto

lemma mbind_forked_ok: "(\<And>a. x = Inr a \<Longrightarrow> forked_ok (f a)) \<Longrightarrow> forked_ok (mbind x f)"
  by (cases x) simp_all

lemma spawn_worker_ok: "setup_ok (ma_config m) (ma_listeners m) \<Longrightarrow> forked_ok (spawn_worker fork i m)"
  by (simp add: spawn_worker_def Let_def)

lemma spawn_loop_ok: "setup_ok (ma_config m) (ma_listeners m) \<Longrightarrow> forked_ok (spawn_loop fork is m)"
  by (induction "is" arbitrary: m) (simp_all add: fbind_ok spawn_worker_ok)

lemma spawn_workers_forked_ok: "setup_ok (ma_config m) (ma_listeners m) \<Longrightarrow> forked_ok (spawn_workers fork m)"
  by (simp add: spawn_workers_def Let_def spawn_loop_ok)

lemma respawn_loop_ok: "setup_ok (ma_config m) (ma_listeners m) \<Longrightarrow> forked_ok (respawn_loop fork dead is m)"
  by (induction "is") (simp_all add: spawn_worker_ok)

lemma deliver_same: "ma_config (deliver sigs m) = ma_config m" "ma_listeners (deliver sigs m) = ma_listeners m"
  using deliver_flags [of sigs m] by auto

lemma reload_forked_ok:
  assumes "setup_ok (ma_config m) (ma_listeners m)"
  shows "forked_ok (reload regcomp env m)"
proof (cases "re_file env")
  case None
  then show ?thesis using assms by (simp add: reload_def config_load_def)
next
  case (Some src)
  define cfg where "cfg = fst (config_load regcomp (Some src))"
  have load: "config_load regcomp (Some src) = (cfg, NP_OK)" by (simp add: cfg_def config_load_def)
  have cfg: "config_ok cfg" by (auto simp: cfg_def config_load_def config_defaults_ok intro!: config_loop_ok)
  then have "setup_ok cfg ls" if "rebind_loop (re_sockets env) cfg 0 (c_servers cfg) [] [] = Inr ls" for ls
    using that rebind_loop_total [of "[]" "c_servers cfg" "re_sockets env" cfg 0] by (auto simp: config_ok_def setup_ok_def)
  then show ?thesis by (auto simp: reload_def Some load Let_def intro!: mbind_forked_ok spawn_workers_forked_ok)
qed

lemma master_turn_forked_ok:
  assumes "setup_ok (ma_config m) (ma_listeners m)"
  shows "forked_ok (master_turn regcomp t m)"
proof -
  have "ma_config (fold child_ends ps m) = ma_config m \<and> ma_listeners (fold child_ends ps m) = ma_listeners m" for ps
    by (induction ps arbitrary: m) (simp_all add: child_ends_def)
  then have "forked_ok (reap t (fold child_ends (tu_ends t) m))"
    using assms by (auto simp: reap_def Let_def deliver_same intro!: respawn_loop_ok split: list.split)
  then show ?thesis unfolding master_turn_def by (rule fbind_ok) (simp add: Let_def deliver_same reload_forked_ok)
qed

lemma master_loop_forked_ok: "setup_ok (ma_config m) (ma_listeners m) \<Longrightarrow> forked_ok (master_loop regcomp ts m)"
  by (induction ts arbitrary: m) (auto simp: Let_def deliver_same intro!: fbind_ok master_turn_forked_ok)

lemma master_run_forked_ok:
  assumes "setup_ok cfg ls" "master_run regcomp fork ts eintr cfg ls = Inr (Child i cfg' ls')"
  shows "setup_ok cfg' ls'"
proof -
  have "forked_ok (fbind (spawn_workers fork (master_init cfg ls)) (master_loop regcomp ts))"
    by (intro fbind_ok spawn_workers_forked_ok master_loop_forked_ok) (use assms(1) in \<open>simp_all add: master_init_def\<close>)
  moreover have "fbind (spawn_workers fork (master_init cfg ls)) (master_loop regcomp ts) = Inr (Child i cfg' ls')"
    using assms(2) by (auto simp: master_run_def fbind_Child_iff mbind_Inr_iff split: if_splits)
  ultimately show ?thesis by simp
qed

end
