(* ===== verification/Daemon.thy ===== *)
theory Daemon
  imports Cache
begin

text \<open>
  \<^verbatim>\<open>src/src/proc/daemon.c\<close>: leaving the terminal and the file with the number of the process. The
  state is what the kernel keeps of the process that goes on: the file behind every descriptor, its
  mask for new files, its number and the files. What \<^verbatim>\<open>fork\<close>, \<^verbatim>\<open>setsid\<close>, \<^verbatim>\<open>open\<close> and \<^verbatim>\<open>fopen\<close> answer
  are arguments.
\<close>

section \<open>Model\<close>

record process_t =
  pr_pid :: int
  pr_fds :: "int \<rightharpoonup> string"
  pr_umask :: nat
  pr_fs :: fs

text \<open>
  A call of \<^verbatim>\<open>fork\<close>: 0 in the child, which has a new number, positive in the parent, negative on
  failure. The second component is the number of the child.
\<close>

record daemon_env =
  da_fork1 :: "int \<times> int"
  da_setsid :: int
  da_fork2 :: "int \<times> int"
  da_devnull :: int
  da_fopen :: bool

text \<open>The function returns with a status, or the process has ended in \<^verbatim>\<open>_exit\<close>.\<close>

datatype daemon_result = Returned np_status_t process_t | Exited int

definition dup2 :: "int \<Rightarrow> int \<Rightarrow> process_t \<Rightarrow> process_t" where
  "dup2 a b p = p\<lparr>pr_fds := (pr_fds p)(b := pr_fds p a)\<rparr>"

definition redirect :: "int \<Rightarrow> process_t \<Rightarrow> process_t" where
  "redirect devnull p =
     (if 0 \<le> devnull then
        (let p = p\<lparr>pr_fds := (pr_fds p)(devnull \<mapsto> ''/dev/null'')\<rparr>;
             p = dup2 devnull 2 (dup2 devnull 1 (dup2 devnull 0 p))
         in if 2 < devnull then p\<lparr>pr_fds := (pr_fds p)(devnull := None)\<rparr> else p)
      else p)"

definition write_pid_file :: "string option \<Rightarrow> bool \<Rightarrow> process_t \<Rightarrow> process_t" where
  "write_pid_file pid_file fopen p =
     (case pid_file of
        None \<Rightarrow> p
      | Some f \<Rightarrow> if f \<noteq> [] \<and> fopen then p\<lparr>pr_fs := (pr_fs p)(f \<mapsto> dec_int (pr_pid p) @ LF)\<rparr> else p)"

definition daemonize :: "string option \<Rightarrow> daemon_env \<Rightarrow> process_t \<Rightarrow> daemon_result" where
  "daemonize pid_file env p =
     (if fst (da_fork1 env) < 0 then Returned NP_ERR p
      else if fst (da_fork1 env) > 0 then Exited 0
      else
        (let p = p\<lparr>pr_pid := snd (da_fork1 env)\<rparr> in
         if da_setsid env < 0 then Returned NP_ERR p
         else if fst (da_fork2 env) < 0 then Returned NP_ERR p
         else if fst (da_fork2 env) > 0 then Exited 0
         else
           (let p = p\<lparr>pr_pid := snd (da_fork2 env)\<rparr>;
                p = p\<lparr>pr_umask := 0\<rparr>;
                p = redirect (da_devnull env) p
            in Returned NP_OK (write_pid_file pid_file (da_fopen env) p))))"

definition pid_file_remove :: "string option \<Rightarrow> fs \<Rightarrow> fs" where
  "pid_file_remove pid_file files =
     (case pid_file of None \<Rightarrow> files | Some f \<Rightarrow> if f \<noteq> [] then files(f := None) else files)"

text \<open>\<^verbatim>\<open>fscanf\<close> with \<^verbatim>\<open>%d\<close>: the number converted to \<^verbatim>\<open>int\<close>, or none when no digits come first.\<close>

definition fscanf_d :: "string \<Rightarrow> int option" where
  "fscanf_d s =
     (let s1 = dropWhile isspace s;
          s2 = (case s1 of c # r \<Rightarrow> if c = CHR ''-'' \<or> c = CHR ''+'' then r else s1 | [] \<Rightarrow> [])
      in if takeWhile isdigit s2 = [] then None else Some (sint (word_of_int (fst (strtoll s)) :: 32 word)))"

definition pid_file_read :: "string option \<Rightarrow> fs \<Rightarrow> int" where
  "pid_file_read pid_file files =
     (case pid_file of
        None \<Rightarrow> -1
      | Some f \<Rightarrow>
          if f = [] then -1
          else
            (case files f of
               None \<Rightarrow> -1
             | Some content \<Rightarrow> (case fscanf_d content of None \<Rightarrow> -1 | Some pid \<Rightarrow> pid)))"

section \<open>The file with the number\<close>

lemma fscanf_d_pid:
  assumes "0 \<le> i" "i \<le> INT_MAX"
  shows "fscanf_d (dec_int i @ LF) = Some i"
proof -
  let ?d = "dec_nat (nat i)"
  obtain c r where cr: "?d = c # r" by (cases ?d) auto
  have all: "\<forall>x \<in> set ?d. isdigit x" using dec_nat_digits by (simp add: list_all_iff)
  then have c: "\<not> isspace c" "c \<noteq> CHR ''-''" "c \<noteq> CHR ''+''" using isdigit_not_space [of c] isdigit_not_sign [of c] by (simp_all add: cr)
  have d: "dropWhile isspace (?d @ LF) = ?d @ LF" using c(1) by (simp add: cr)
  have sg: "(case ?d @ LF of c # r \<Rightarrow> if c = CHR ''-'' \<or> c = CHR ''+'' then r else ?d @ LF | [] \<Rightarrow> []) = ?d @ LF" using c by (simp add: cr)
  have ng: "(case ?d @ LF of c # _ \<Rightarrow> c = CHR ''-'' | [] \<Rightarrow> False) = False" using c by (simp add: cr)
  have tk: "takeWhile isdigit (?d @ LF) = ?d" using all by (simp add: takeWhile_append2 isdigit_def)
  have "digits_val ?d = i" using assms(1) by (simp add: digits_val_dec_nat)
  then have "fst (strtoll (?d @ LF)) = i" unfolding strtoll_def Let_def d sg ng tk using assms by (simp add: cr)
  moreover have "sint (word_of_int i :: 32 word) = i" using assms by (simp add: sint_word_of_int_32)
  moreover have "dec_int i = ?d" using assms(1) by (simp add: dec_int_def)
  moreover have "?d \<noteq> []" by (simp add: cr)
  ultimately show ?thesis unfolding fscanf_d_def Let_def by (simp only: d sg tk if_False)
qed

text \<open>
  C40: A process that has become a daemon is a grandchild: it has the number of the second child, its mask is cleared,
  and when the null device opens, the three standard streams go there and no descriptor is left
  over. The number it writes to its file is the one that is read back, and after the file is removed
  there is none to read.
\<close>

theorem daemonize_pid_file:
  assumes "daemonize (Some f) env p = Returned NP_OK p'" "f \<noteq> []" "da_fopen env" "0 < snd (da_fork2 env)" "snd (da_fork2 env) \<le> INT_MAX"
  shows "pid_file_read (Some f) (pr_fs p') = pr_pid p' \<and> pr_pid p' = snd (da_fork2 env) \<and> pr_umask p' = 0 \<and>
    pid_file_read (Some f) (pid_file_remove (Some f) (pr_fs p')) = -1 \<and>
    (0 \<le> da_devnull env \<longrightarrow> (\<forall>fd. pr_fds p' fd =
       (if fd = 0 \<or> fd = 1 \<or> fd = 2 then Some ''/dev/null'' else if fd = da_devnull env then None else pr_fds p fd)))"
proof -
  let ?p = "redirect (da_devnull env) (p\<lparr>pr_pid := snd (da_fork2 env), pr_umask := 0\<rparr>)"
  have p': "p' = write_pid_file (Some f) True ?p"
    using assms(1,3) by (auto simp: daemonize_def Let_def split: if_splits)
  have r: "pr_pid ?p = snd (da_fork2 env)" "pr_umask ?p = 0" by (simp_all add: redirect_def Let_def dup2_def)
  have "pr_fds ?p fd = (if fd = 0 \<or> fd = 1 \<or> fd = 2 then Some ''/dev/null'' else if fd = da_devnull env then None else pr_fds p fd)"
    if "0 \<le> da_devnull env" for fd using that by (auto simp: redirect_def Let_def dup2_def)
  then show ?thesis using assms(2,4,5) r fscanf_d_pid [of "snd (da_fork2 env)"]
    by (simp add: p' write_pid_file_def pid_file_read_def pid_file_remove_def)
qed

definition demo_daemon :: daemon_env where
  "demo_daemon = \<lparr>da_fork1 = (0, 200), da_setsid = 200, da_fork2 = (0, 201), da_devnull = 3, da_fopen = True\<rparr>"

definition demo_process :: process_t where
  "demo_process = \<lparr>pr_pid = 100, pr_fds = [0 \<mapsto> ''tty'', 1 \<mapsto> ''tty'', 2 \<mapsto> ''tty''], pr_umask = 18, pr_fs = Map.empty\<rparr>"

theorem daemonize_pid_file_witness:
  "\<exists>p'. daemonize (Some ''pid'') demo_daemon demo_process = Returned NP_OK p' \<and>
    pid_file_read (Some ''pid'') (pr_fs p') = 201 \<and> pr_fds p' 1 = Some ''/dev/null'' \<and> pr_fds p' 3 = None"
proof -
  let ?e = demo_daemon
  have e: "da_fopen ?e" "0 < snd (da_fork2 ?e)" "snd (da_fork2 ?e) \<le> INT_MAX" "0 \<le> da_devnull ?e" "snd (da_fork2 ?e) = 201" "da_devnull ?e = 3"
    by (simp_all add: demo_daemon_def)
  obtain p' where p': "daemonize (Some ''pid'') ?e demo_process = Returned NP_OK p'"
    by (simp add: daemonize_def demo_daemon_def Let_def)
  have "''pid'' \<noteq> []" by simp
  from daemonize_pid_file [OF p' this e(1-3)] p' e(4-6) show ?thesis by auto
qed

end
