(* ===== verification/Nproxy_Main.thy ===== *)
theory Nproxy_Main
  imports Master_Run Daemon
begin

text \<open>
  The program of \<^verbatim>\<open>src/src/main.c\<close>: the command line, the start of the server and its end. The state
  is that of the process with its files, the error log, the modules and the listeners; what the
  kernel answers, and what the worker or the master meets, is one record of arguments. The lines of
  \<^verbatim>\<open>config_print\<close> and the messages in the error log are left out.
\<close>

section \<open>The command line\<close>

record options_t =
  op_config_path :: string
  op_test_only :: bool
  op_single_worker :: bool
  op_daemon_mode :: bool

datatype command_line = Options options_t | Show_version | Show_usage

text \<open>
  The loop over \<^verbatim>\<open>getopt\<close> with \<^verbatim>\<open>c:twdv\<close>: \<open>cluster\<close> is the rest of the current argument. Options may share an
  argument, the value of an option is the rest of its argument or the next one, arguments that
  are no options are skipped, and two dashes end the options.
\<close>

function getopt_loop :: "string \<Rightarrow> string list \<Rightarrow> options_t \<Rightarrow> command_line" where
  "getopt_loop [] [] opts = Options opts"
| "getopt_loop [] (a # args) opts =
     (if a = ''--'' then Options opts
      else if prefix ''-'' a \<and> 1 < length a then getopt_loop (tl a) args opts
      else getopt_loop [] args opts)"
| "getopt_loop (c # cs) args opts =
     (if c = CHR ''c'' then
        (if cs \<noteq> [] then getopt_loop [] args (opts\<lparr>op_config_path := cs\<rparr>)
         else (case args of [] \<Rightarrow> Show_usage | a # args \<Rightarrow> getopt_loop [] args (opts\<lparr>op_config_path := a\<rparr>)))
      else if c = CHR ''t'' then getopt_loop cs args (opts\<lparr>op_test_only := True\<rparr>)
      else if c = CHR ''w'' then getopt_loop cs args (opts\<lparr>op_single_worker := True\<rparr>)
      else if c = CHR ''d'' then getopt_loop cs args (opts\<lparr>op_daemon_mode := True\<rparr>)
      else if c = CHR ''v'' then Show_version
      else Show_usage)"
  by pat_completeness auto
termination
  by (relation "measure (\<lambda>(cluster, args, _). length cluster + (\<Sum>a\<leftarrow>args. length a + 1))") auto

definition default_options :: options_t where
  "default_options = \<lparr>op_config_path = ''nproxy.conf'', op_test_only = False, op_single_worker = False, op_daemon_mode = False\<rparr>"

definition print_usage :: "string \<Rightarrow> string" where
  "print_usage prog =
     ''Usage: '' @ prog @ '' [-c config] [-t] [-w] [-d] [-v]'' @ LF @
     ''  -c <file>   configuration file (default: nproxy.conf)'' @ LF @
     ''  -t          test configuration and exit'' @ LF @
     ''  -w          single worker mode (no fork, for development)'' @ LF @
     ''  -d          run as daemon'' @ LF @
     ''  -v          print version and exit'' @ LF"

section \<open>The program\<close>

record main_state =
  mn_process :: process_t
  mn_log :: log_state
  mn_modules :: "loaded_module_t list"
  mn_listeners :: "np_socket_t list"
  mn_master :: "master_t option"
  mn_out :: string

record main_env =
  me_regcomp :: "string \<Rightarrow> bool"
  me_log_fd :: int
  me_dl :: dl
  me_sockets :: socket_env
  me_daemon :: daemon_env
  me_boot :: boot_env
  me_answers :: "nat \<Rightarrow> worker_answers"
  me_waits :: "wait_result list"
  me_del :: bool
  me_clock :: "int \<times> int list"
  me_fork :: "nat \<Rightarrow> kernel_fork"
  me_turns :: "turn_env list"
  me_eintr :: "int \<Rightarrow> bool"

text \<open>
  How the program goes on: it has returned from \<^verbatim>\<open>main\<close>, it is a parent that \<^verbatim>\<open>daemonize\<close> has ended, it is a
  worker that the master has forked, or the turns are used up and the master still runs.
\<close>

datatype main_end =
    Returned_with int main_state
  | Left_behind int
  | Worker_process nat np_config_t "np_socket_t list" "loaded_module_t list"
  | Running master_t

definition main_close_log :: "main_state \<Rightarrow> main_state" where
  "main_close_log st = st\<lparr>mn_log := fst (log_close (mn_log st))\<rparr>"

definition main_cleanup :: "int \<Rightarrow> np_config_t \<Rightarrow> main_state \<Rightarrow> main_end" where
  "main_cleanup rc cfg st =
     (let p = mn_process st;
          p = (if c_pid_file cfg \<noteq> [] then p\<lparr>pr_fs := pid_file_remove (Some (c_pid_file cfg)) (pr_fs p)\<rparr> else p);
          st = st\<lparr>mn_process := p, mn_modules := fst (module_unload_all (mn_modules st))\<rparr>
      in Returned_with rc (main_close_log st))"

definition main_serve :: "main_env \<Rightarrow> options_t \<Rightarrow> np_config_t \<Rightarrow> main_state \<Rightarrow> main_end mem option" where
  "main_serve env opts cfg st =
     (if op_single_worker opts then
        map_option (map_sum id (\<lambda>(rc, _). main_cleanup rc cfg st))
          (worker_run (me_boot env) (me_answers env) (me_waits env) (me_del env) (me_clock env) cfg (mn_listeners st) (mn_modules st)
             (pr_fs (mn_process st)))
      else
        Some (mbind (master_run (me_regcomp env) (me_fork env) (me_turns env) (me_eintr env) cfg (mn_listeners st)) (\<lambda>r.
          case r of
            Child i cfg ls \<Rightarrow> Inr (Worker_process i cfg ls (mn_modules st))
          | Parent m \<Rightarrow> Inr (if ma_shutdown m then main_cleanup 0 (ma_config m) (st\<lparr>mn_master := Some m\<rparr>) else Running m))))"

definition main_listen :: "main_env \<Rightarrow> options_t \<Rightarrow> np_config_t \<Rightarrow> main_state \<Rightarrow> main_end mem option" where
  "main_listen env opts cfg st =
     (case bind_loop (me_sockets env) cfg 0 (c_servers cfg) [] [] of
        Inl e \<Rightarrow> Some (Inl e)
      | Inr None \<Rightarrow> Some (Inr (Returned_with 1 (main_close_log st)))
      | Inr (Some ls) \<Rightarrow>
          (let st = st\<lparr>mn_listeners := ls\<rparr> in
           if op_daemon_mode opts \<or> c_daemon cfg then
             (case daemonize (Some (c_pid_file cfg)) (me_daemon env) (mn_process st) of
                Exited rc \<Rightarrow> Some (Inr (Left_behind rc))
              | Returned status p \<Rightarrow>
                  (let st = st\<lparr>mn_process := p\<rparr>
                   in if status \<noteq> NP_OK then Some (Inr (Returned_with 1 (main_close_log st))) else main_serve env opts cfg st))
           else main_serve env opts cfg st))"

definition main_configured :: "main_env \<Rightarrow> options_t \<Rightarrow> np_config_t \<Rightarrow> main_state \<Rightarrow> main_end mem option" where
  "main_configured env opts cfg st =
     (let st = st\<lparr>mn_log := log_init (mn_log st) (Some (c_error_log cfg)) (c_log_level cfg) (me_log_fd env)\<rparr>
      in case module_load_all (me_dl env) cfg of
           Inl e \<Rightarrow> Some (Inl e)
         | Inr (ms, rc, _) \<Rightarrow>
             (let st = st\<lparr>mn_modules := ms\<rparr> in
              if rc \<noteq> 0 then Some (Inr (Returned_with 1 (st\<lparr>mn_out := mn_out st @ ''nproxy: failed to load one or more modules'' @ LF\<rparr>)))
              else if op_test_only opts then
                Some (Inr (Returned_with 0 (main_close_log (st\<lparr>mn_out := mn_out st @ ''configuration test successful'' @ LF\<rparr>))))
              else main_listen env opts cfg st))"

definition main_nproxy :: "main_env \<Rightarrow> string list \<Rightarrow> main_state \<Rightarrow> main_end mem option" where
  "main_nproxy env argv st =
     (case getopt_loop [] (tl argv) default_options of
        Show_version \<Rightarrow> Some (Inr (Returned_with 0 (st\<lparr>mn_out := mn_out st @ ''nproxy 1.0.0'' @ LF\<rparr>)))
      | Show_usage \<Rightarrow> Some (Inr (Returned_with 1 (st\<lparr>mn_out := mn_out st @ print_usage (hd argv)\<rparr>)))
      | Options opts \<Rightarrow>
          (case config_load (me_regcomp env) (pr_fs (mn_process st) (op_config_path opts)) of
             (cfg, status) \<Rightarrow>
               if status \<noteq> NP_OK then Some (Inr (Returned_with 1 (st\<lparr>mn_out := mn_out st @ ''nproxy: configuration error'' @ LF\<rparr>)))
               else main_configured env opts cfg st))"

section \<open>Options\<close>

text \<open>Options may be given together or apart.\<close>

lemma getopt_flags:
  assumes "list_all (\<lambda>c. c \<in> {CHR ''t'', CHR ''w'', CHR ''d''}) flags"
  shows "getopt_loop flags args opts = getopt_loop [] (map (\<lambda>c. [CHR ''-'', c]) flags @ args) opts"
  using assms by (induction flags arbitrary: opts) auto

text \<open>Testing a configuration binds no port, starts no process and writes no file.\<close>

lemma main_test_only:
  assumes "op_test_only opts" "module_load_all (me_dl env) cfg = Inr (ms, 0, closed)"
  shows "\<exists>st'. main_configured env opts cfg st = Some (Inr (Returned_with 0 st')) \<and> mn_process st' = mn_process st \<and>
    mn_listeners st' = mn_listeners st \<and> mn_master st' = mn_master st"
  using assms by (simp add: main_configured_def Let_def main_close_log_def)

section \<open>What a worker is started with\<close>

lemma bind_loop_setup:
  assumes "config_ok cfg" "bind_loop env cfg 0 (c_servers cfg) [] [] = Inr (Some ls)"
  shows "setup_ok cfg ls"
  using bind_loop_ports [of env cfg 0 "c_servers cfg" "[]" ls] assms by (simp add: setup_ok_def)

lemma main_cleanup_returns: "main_cleanup rc cfg st \<noteq> Worker_process i c ls ms"
  by (simp add: main_cleanup_def Let_def)

lemma main_serve_setup:
  assumes "main_serve env opts c st = Some (Inr (Worker_process i cfg ls ms))" "setup_ok c (mn_listeners st)"
  shows "setup_ok cfg ls"
proof (cases "op_single_worker opts")
  case True
  then obtain z :: "(int \<times> nat) mem" where "map_sum id (\<lambda>(rc, _). main_cleanup rc c st) z = Inr (Worker_process i cfg ls ms)"
    using assms(1) by (auto simp: main_serve_def)
  then show ?thesis using main_cleanup_returns by (cases z) (auto split: prod.splits)
next
  case False
  then obtain r where r: "master_run (me_regcomp env) (me_fork env) (me_turns env) (me_eintr env) c (mn_listeners st) = Inr r"
    "(case r of Child i cfg ls \<Rightarrow> Inr (Worker_process i cfg ls (mn_modules st))
      | Parent m \<Rightarrow> Inr (if ma_shutdown m then main_cleanup 0 (ma_config m) (st\<lparr>mn_master := Some m\<rparr>) else Running m)) =
     (Inr (Worker_process i cfg ls ms) :: main_end mem)"
    using assms(1) by (auto simp: main_serve_def mbind_Inr_iff)
  then have "r = Child i cfg ls" using main_cleanup_returns by (cases r) (auto split: if_splits)
  then show ?thesis using master_run_forked_ok [OF assms(2)] r(1) by blast
qed

lemma main_listen_setup:
  assumes "main_listen env opts c st = Some (Inr (Worker_process i cfg ls ms))" "config_ok c"
  shows "setup_ok cfg ls"
proof -
  from assms(1) obtain l where l: "bind_loop (me_sockets env) c 0 (c_servers c) [] [] = Inr (Some l)"
    by (cases "bind_loop (me_sockets env) c 0 (c_servers c) [] []") (auto simp: main_listen_def split: option.split_asm)
  have serve: "setup_ok cfg ls" if "main_serve env opts c s = Some (Inr (Worker_process i cfg ls ms))" "mn_listeners s = l" for s
    using main_serve_setup [OF that(1)] that(2) bind_loop_setup [OF assms(2) l] by simp
  let ?p = "daemonize (Some (c_pid_file c)) (me_daemon env) (mn_process st)"
  show ?thesis
  proof (cases "op_daemon_mode opts \<or> c_daemon c")
    case True
    then obtain p where "?p = Returned NP_OK p" "main_serve env opts c (st\<lparr>mn_listeners := l, mn_process := p\<rparr>) = Some (Inr (Worker_process i cfg ls ms))"
      using assms(1) l by (cases ?p) (auto simp: main_listen_def Let_def split: if_split_asm)
    then show ?thesis using serve by simp
  next
    case False
    then show ?thesis using assms(1) l serve [of "st\<lparr>mn_listeners := l\<rparr>"] by (simp add: main_listen_def Let_def)
  qed
qed

lemma main_worker_setup:
  assumes "main_nproxy env argv st = Some (Inr (Worker_process i cfg ls ms))"
  shows "setup_ok cfg ls"
proof -
  obtain opts where o: "getopt_loop [] (tl argv) default_options = Options opts"
    using assms by (cases "getopt_loop [] (tl argv) default_options") (simp_all add: main_nproxy_def)
  obtain c status where c: "config_load (me_regcomp env) (pr_fs (mn_process st) (op_config_path opts)) = (c, status)" by fastforce
  then have "config_ok (fst (c, status))" unfolding c [symmetric]
    by (auto simp: config_load_def config_defaults_ok intro!: config_loop_ok split: option.splits)
  moreover have "main_configured env opts c st = Some (Inr (Worker_process i cfg ls ms))"
    using assms by (simp add: main_nproxy_def o c split: if_split_asm)
  then obtain st' where "main_listen env opts c st' = Some (Inr (Worker_process i cfg ls ms))"
    by (cases "module_load_all (me_dl env) c") (auto simp: main_configured_def Let_def split: prod.split_asm if_split_asm)
  ultimately show ?thesis using main_listen_setup by simp
qed

section \<open>From the start to the end\<close>

lemma bind_loop_fds:
  assumes "bind_loop env cfg i ss ports ls = Inr (Some ls')" "list_all (\<lambda>l. 0 \<le> sk_fd l) ls"
  shows "list_all (\<lambda>l. 0 \<le> sk_fd l) ls'"
  using assms
proof (induction env cfg i ss ports ls rule: bind_loop.induct)
  case (2 env cfg i s ss ports ls)
  obtain st sock r1 r2 where c: "socket_create_listener (so_array env (length ls)) (Some (c_listen_addr cfg)) (srv_listen_port s)
      (so_socket env i) (so_bind env i) (so_listen env i) = (st, sock, r1, r2)" by (cases rule: prod_cases4)
  show ?case using 2 create_listener_fd(1,2) [OF c] by (auto simp: Let_def c split: if_split_asm)
qed simp

text \<open>The files after the program has become a daemon and returned from the master.\<close>

lemma main_serve_stops:
  assumes "\<not> op_single_worker opts" "\<And>i. fork_ok (me_fork env i)" "list_all turn_ok (me_turns env)" "list_all no_reload (me_turns env)"
    and "\<And>p. \<not> me_eintr env p" "t \<in> set (me_turns env)" "sig \<in> set (tu_signals t)" "sig = SIGTERM \<or> sig = SIGINT"
  obtains m workers where "main_serve env opts cfg st = Some (Inr (main_cleanup 0 cfg (st\<lparr>mn_master := Some m\<rparr>)))"
    "children m = []" "length workers = nat (min (int MAX_WORKERS) (c_worker_processes cfg))"
    "ma_events m = map (\<lambda>p. Killed p SIGTERM) workers @ map Closed_listener (filter (\<lambda>fd. 0 \<le> fd) (map sk_fd (mn_listeners st)))"
proof -
  obtain m before workers where m: "master_run (me_regcomp env) (me_fork env) (me_turns env) (me_eintr env) cfg (mn_listeners st) = Inr (Parent m)"
    "ma_shutdown m" "children m = []" "length workers = nat (min (int MAX_WORKERS) (c_worker_processes (ma_config m)))"
    "ma_events m = before @ map (\<lambda>p. Killed p SIGTERM) workers @ map Closed_listener (filter (\<lambda>fd. 0 \<le> fd) (map sk_fd (ma_listeners m)))"
    "list_all no_reload (me_turns env) \<longrightarrow> ma_config m = cfg \<and> ma_listeners m = mn_listeners st \<and> before = []"
    using master_run_stops [where fork = "me_fork env" and eintr = "me_eintr env", OF assms(2,3,5-8)] by blast
  then show ?thesis using assms(1,4) by (intro that [of m workers]) (simp_all add: main_serve_def)
qed

end
