(* ===== verification/Proxy_Serve.thy ===== *)
theory Proxy_Serve
  imports Worker_Serve
begin

text \<open>
  A request that is passed on to a backend, from its bytes to the answer: the read event of the
  client, the event in which the backend takes the request, and the event in which its answer is
  relayed.
\<close>

section \<open>Starting the exchange\<close>

text \<open>
  The text for the backend of a request with the method \<open>m\<close>, the target \<open>uri\<close> and the headers
  \<open>hs\<close>, from the client at \<open>ip\<close>.
\<close>

definition forwarded_text :: "string \<Rightarrow> http_method_t \<Rightarrow> string \<Rightarrow> http_header_t list \<Rightarrow> string" where
  "forwarded_text ip m uri hs = render_line m uri HTTP_11 @
     render_headers (sent_headers (request_zero\<lparr>req_headers := hs, req_remote_ip := ip\<rparr>)) @ CRLF"

lemma populate_forwarded:
  assumes ps: "parsed_as ps m uri v hs" and uri: "CHR ''?'' \<notin> set uri" "CHR 0x00 \<notin> set uri"
    and hs: "list_all header_no_nul hs" "\<not> is_upgrade hs" "content_length_of v hs = 0"
    and req: "req = (request_populate request_zero ps raw sec nsec)\<lparr>req_remote_ip := ip\<rparr>"
  shows "concat (proxy_texts req) = forwarded_text ip m uri hs" "\<not> req_upgrade req" "req_body req = []" "req_path req = uri"
proof -
  have "memchr (CHR ''?'') (ps_uri ps) = None" using ps uri by (simp add: parsed_as_def memchr_None_iff)
  then have f: "req_method req = m" "req_path req = uri" "req_headers req = hs" "\<not> req_upgrade req" "req_body req = []" "req_remote_ip req = ip"
    using ps hs by (simp_all add: req request_populate_def Let_def parsed_as_def request_zero_def)
  have "sent_headers req = sent_headers (request_zero\<lparr>req_headers := hs, req_remote_ip := ip\<rparr>)"
    using f by (simp add: sent_headers_def proxy_headers_def request_header_def request_zero_def)
  then show "concat (proxy_texts req) = forwarded_text ip m uri hs"
    using proxy_texts_render [of req] f uri hs by (simp add: forwarded_text_def)
  show "\<not> req_upgrade req" "req_body req = []" "req_path req = uri" using f by simp_all
qed

text \<open>A server that passes everything but the health page on to backend \<open>k\<close> and keeps no copies.\<close>

definition passes_on :: "worker_state_t \<Rightarrow> nat \<Rightarrow> proxy_env \<Rightarrow> nat \<Rightarrow> int \<Rightarrow> bool" where
  "passes_on ws i env k u \<longleftrightarrow> px_enabled (srv_proxy (c_servers (ws_config ws) ! i)) \<and> \<not> cc_enabled (srv_cache (c_servers (ws_config ws) ! i)) \<and>
     (case hc_upstream_pools (ws_hctx ws) ! i of None \<Rightarrow> False | Some pool \<Rightarrow> proxy_connects env pool k u)"

lemma dispatch_proxied:
  assumes ok: "worker_ok ws" "ws_conns ws p = Some c" "plain_worker ws" "handler_alloc_ok (fst (pe_add (he_proxy env)))"
    and r1: "r1 = req\<lparr>req_remote_ip := inet_ntop (fst (cn_peer c))\<rparr>"
    and srv: "passes_on ws (select_server (ws_config ws) r1) (he_proxy env) k u" "0 \<le> u"
    and req: "\<not> req_upgrade r1" "req_body r1 = []" "\<not> path_matches (req_path r1) ''/healthz''" "length (concat (proxy_texts r1)) < NP_MAX_HEADER_LEN"
    and buf: "buf_contents (cn_upstream_wbuf c) = []" "length (concat (proxy_texts r1)) \<le> buf_room (cn_upstream_wbuf c)"
  obtains ws' pi b where "handler_dispatch env p req ws = Inr ws'" "worker_ok ws'" "ws_trace ws' = ws_trace ws"
    "ws_conns ws' p = Some (c\<lparr>cn_request := Some r1, cn_proxy_pool := Some pi, cn_tls_conn := Some k, cn_upstream_fd := u,
       cn_upstream_wbuf := b, cn_state := CONN_PROXYING\<rparr>)"
    "buf_contents b = concat (proxy_texts r1)"
proof -
  define i where "i = select_server (ws_config ws) r1"
  define c1 where "c1 = c\<lparr>cn_request := Some r1\<rparr>"
  have c1: "conn_wf c1" using conn_at_wf [OF ok(1,2)] by (simp add: c1_def)
  obtain pool where pool: "hc_upstream_pools (ws_hctx ws) ! i = Some pool" "proxy_connects (he_proxy env) pool k u"
    using srv(1) by (auto simp: passes_on_def i_def split: option.splits)
  have at: "ws_conns (set_conn p c1 ws) p = Some c1" by simp
  have b1: "buf_contents (cn_upstream_wbuf c1) = []" "length (concat (proxy_texts r1)) \<le> buf_room (cn_upstream_wbuf c1)"
    using buf by (simp_all add: c1_def)
  obtain ws' b where h: "proxy_handle (he_proxy env) p i pool r1 (set_conn p c1 ws) = Inr ws'" "worker_ok ws'"
    "ws_trace ws' = ws_trace (set_conn p c1 ws)"
    "ws_conns ws' p = Some (c1\<lparr>cn_proxy_pool := Some i, cn_tls_conn := Some k, cn_upstream_fd := u, cn_upstream_wbuf := b, cn_state := CONN_PROXYING\<rparr>)"
    "buf_contents b = concat (proxy_texts r1)"
    by (rule proxy_handle_starts [OF set_conn_ok [OF ok(1) c1] at pool(2) srv(2) ok(4) req(1,2,4) b1]) (rule that)
  have "i < length (c_servers (ws_config ws))"
    unfolding i_def by (rule select_server_bound) (use ok(1) in \<open>simp add: worker_ok_def hctx_ok_def\<close>)
  then have rw: "srv_rewrite (c_servers (ws_config ws) ! i) = []" using ok(3) by (simp add: plain_worker_def list_all_length)
  have "handler_route env p i (c_servers (ws_config ws) ! i) c1 r1 ws = Inr ws'"
    using ok(3) srv(1) pool(1) req(3) h(1)
    by (auto simp: handler_route_def check_rate_def plain_worker_def look_up_def note_cache_key_def passes_on_def simp flip: i_def split: option.split)
  then have "handler_dispatch env p req ws = Inr ws'"
    using ok(2,3) rw by (simp add: handler_dispatch_def conn_at_def Let_def plain_worker_def flip: r1 c1_def i_def) (simp add: c1_def)
  then show ?thesis using that h by (simp add: c1_def)
qed

section \<open>The backend takes the request\<close>

lemma buf_send_whole:
  assumes "buf_ok b" "buf_contents b \<noteq> []"
  obtains b' where "buf_send (\<lambda>t. Write_n (length t)) b = Inr (b', int (length (buf_contents b)), buf_contents b)"
    "buf_ok b'" "b_cap b' = b_cap b" "buf_contents b' = []"
proof -
  have c: "take (unat (buf_readable b)) (drop (unat (b_read_pos b)) (b_data b)) = buf_contents b"
    using assms(1) by (simp add: np_word buf_contents_def buf_ok_def)
  define b' where "b' = buf_consume b (of_nat (length (buf_contents b)))"
  note b' = buf_consume_ok [OF assms(1) order_refl, folded b'_def]
  have "buf_send (\<lambda>t. Write_n (length t)) b = Inr (b', int (length (buf_contents b)), buf_contents b)"
    using assms buf_readable_0_iff [OF assms(1)]
    by (simp add: buf_send_def buf_write_fd_def c buf_read_ptr_contents flip: b'_def)
  then show ?thesis using that b' by simp
qed

lemma upstream_takes_request:
  assumes ok: "worker_ok ws" "ws_conns ws p = Some c" "handler_alloc_ok (fst (ue_mod env))" "0 \<le> u"
    and env: "ue_flush env = (\<lambda>t. Write_n (length t))" and msg: "buf_contents (cn_upstream_wbuf c) = msg" "msg \<noteq> []"
  obtains ws' b where "proxy_on_upstream_event env u EV_WRITE p ws = Inr ws'" "worker_ok ws'" "ws_trace ws' = ws_trace ws @ [Sent u msg]"
    "ws_conns ws' p = Some (c\<lparr>cn_upstream_wbuf := b\<rparr>)"
proof -
  note wf = conn_at_wf [OF ok(1,2)]
  obtain b where b: "buf_send (ue_flush env) (cn_upstream_wbuf c) = Inr (b, int (length msg), msg)" "buf_ok b" "b_cap b = b_cap (cn_upstream_wbuf c)"
    "buf_contents b = []"
    using buf_send_whole [OF conn_wf_buf_ok(4) [OF wf]] msg env by metis
  have "conn_wf (c\<lparr>cn_upstream_wbuf := b\<rparr>)" by (rule conn_wf_bufs(4) [OF wf b(2,3)])
  define w where "w = emit (sent u msg) (set_conn p (c\<lparr>cn_upstream_wbuf := b\<rparr>) ws)"
  have w: "worker_ok w" using set_conn_ok [OF ok(1) \<open>conn_wf (c\<lparr>cn_upstream_wbuf := b\<rparr>)\<close>] by (simp add: w_def)
  obtain loop where l: "ws_event_mod w u (EV_READ OR EV_HUP OR EV_EDGE) Proxy_on_upstream_event p (ue_mod env) = Inr (w\<lparr>ws_loop := loop\<rparr>)"
    "worker_ok (w\<lparr>ws_loop := loop\<rparr>)" using ws_event_mod_ok [OF w ok(3,4)] by blast
  have "upstream_writable env u p ws = Inr (w\<lparr>ws_loop := loop\<rparr>, False)"
    using b(1,4) l(1) buf_readable_0_iff [OF b(2)] ok(2) by (simp add: upstream_writable_def conn_at_def Let_def flip: w_def)
  then have "proxy_on_upstream_event env u EV_WRITE p ws = Inr (w\<lparr>ws_loop := loop\<rparr>)"
    by (simp add: proxy_on_upstream_event_def)
  then show ?thesis by (rule that [OF _ l(2)]) (use msg(2) in \<open>simp_all add: w_def sent_def\<close>)
qed

section \<open>The answer\<close>

text \<open>One turn of the relay with a client that takes everything and no copy for the cache.\<close>

lemma relay_chunk:
  assumes wf: "conn_wf conn" "cn_cache_store conn = None" "buf_contents (cn_upstream_rbuf conn) = []"
    and s: "s \<noteq> []" "length s \<le> 65536"
    and st: "\<And>b. buf_ok b \<Longrightarrow> buf_contents b = s \<Longrightarrow>
      note_status (conn\<lparr>cn_upstream_rbuf := b\<rparr>) = Inr (conn\<lparr>cn_upstream_rbuf := b, cn_proxy_status := m\<rparr>)"
  obtains b where "relay_loop (turn_io mk (s, length s) # ios) conn =
      mbind (relay_loop ios (conn\<lparr>cn_proxy_status := m, cn_upstream_rbuf := b\<rparr>)) (\<lambda>(c, n, got, out). Inr (c, n, s @ got, s @ out))"
    "conn_wf (conn\<lparr>cn_proxy_status := m, cn_upstream_rbuf := b\<rparr>)" "buf_contents b = []"
proof -
  let ?u = "cn_upstream_rbuf conn"
  have u: "buf_ok ?u" "length (buf_contents ?u) + length s \<le> unat (b_cap ?u)"
    using wf s(2) by (simp_all add: conn_wf_def conn_ok_def buf_sized_def)
  obtain b where b: "buf_recv (ri_read (turn_io mk (s, length s))) ?u = Inr (b, int (length s), s)" "buf_ok b" "b_cap b = b_cap ?u"
    "buf_contents b = buf_contents ?u @ s"
    by (rule buf_recv_data [OF u(1) s(1) u(2)]) (use that in \<open>simp add: turn_io_def\<close>)
  have bs: "buf_contents b = s" using b(4) wf(3) by simp
  obtain b2 n where b2: "buf_send_all (client_takes (length s)) b = Inr (b2, n, buf_contents b)" "buf_readable b2 = 0" "buf_ok b2" "b_cap b2 = b_cap b"
    by (rule sent_all [OF b(2) eq_imp_le [OF arg_cong [OF bs, where f = length]]]) (rule that)
  have e: "buf_contents b2 = []" using b2(2) by (simp add: buf_readable_0_iff [OF b2(3)])
  have "copy_for_cache mk (conn\<lparr>cn_upstream_rbuf := b, cn_proxy_status := m\<rparr>) = Inr (conn\<lparr>cn_upstream_rbuf := b, cn_proxy_status := m\<rparr>)"
    using wf(2) buf_read_ptr_contents [OF b(2)] by (simp add: copy_for_cache_def)
  then have "relay_loop (turn_io mk (s, length s) # ios) conn =
      mbind (relay_loop ios (conn\<lparr>cn_proxy_status := m, cn_upstream_rbuf := b2\<rparr>)) (\<lambda>(c, n, got, out). Inr (c, n, s @ got, s @ out))"
    using b(1) st [OF b(2) bs] b2(1) bs s(1) by (simp add: turn_io_def)
  moreover have "conn_wf (conn\<lparr>cn_proxy_status := m, cn_upstream_rbuf := b2\<rparr>)"
    by (rule conn_wf_bufs(3)) (use wf(1) b2 b(3) in simp_all)
  ultimately show ?thesis using that e by blast
qed

lemma relay_chunks:
  assumes "conn_wf conn" "cn_cache_store conn = None" "buf_contents (cn_upstream_rbuf conn) = []" "cn_proxy_status conn \<noteq> 0"
    "list_all (\<lambda>s. s \<noteq> [] \<and> length s \<le> 65536) chunks"
  shows "\<exists>b n. relay_loop (map (\<lambda>s. turn_io mk (s, length s)) chunks) conn =
      Inr (conn\<lparr>cn_upstream_rbuf := b\<rparr>, n, concat chunks, concat chunks) \<and>
    conn_wf (conn\<lparr>cn_upstream_rbuf := b\<rparr>) \<and> buf_contents b = [] \<and> n \<noteq> np_code NP_ERR_CLOSED \<and> n \<noteq> np_code NP_ERR"
  using assms
proof (induction chunks arbitrary: conn)
  case Nil
  have u: "buf_ok (cn_upstream_rbuf conn)" using Nil(1) by (simp add: conn_wf_buf_ok)
  obtain b where b: "buf_compact (cn_upstream_rbuf conn) = Inr b" "buf_ok b" "buf_contents b = buf_contents (cn_upstream_rbuf conn)"
    "b_cap b = b_cap (cn_upstream_rbuf conn)" using buf_compact_ok [OF u] by blast
  have "buf_recv (\<lambda>_. Read_eagain) (cn_upstream_rbuf conn) = Inr (b, if buf_writable b = 0 then 0 else np_code NP_ERR_AGAIN, [])"
    by (simp add: buf_recv_def buf_read_fd_def b(1))
  then show ?case using b Nil(3) conn_wf_bufs(3) [OF Nil(1) b(2,4)] by (intro exI [of _ b]) auto
next
  case (Cons s chunks)
  have s: "s \<noteq> []" "length s \<le> 65536" "list_all (\<lambda>s. s \<noteq> [] \<and> length s \<le> 65536) chunks" using Cons.prems(5) by simp_all
  have st: "note_status (conn\<lparr>cn_upstream_rbuf := b\<rparr>) = Inr (conn\<lparr>cn_upstream_rbuf := b, cn_proxy_status := cn_proxy_status conn\<rparr>)" for b
    using Cons.prems(4) by (cases conn) (simp add: note_status_def)
  obtain b where b: "relay_loop (turn_io mk (s, length s) # map (\<lambda>s. turn_io mk (s, length s)) chunks) conn =
      mbind (relay_loop (map (\<lambda>s. turn_io mk (s, length s)) chunks) (conn\<lparr>cn_proxy_status := cn_proxy_status conn, cn_upstream_rbuf := b\<rparr>))
        (\<lambda>(c, n, got, out). Inr (c, n, s @ got, s @ out))"
    "conn_wf (conn\<lparr>cn_proxy_status := cn_proxy_status conn, cn_upstream_rbuf := b\<rparr>)" "buf_contents b = []"
    by (rule relay_chunk [OF Cons.prems(1-3) s(1,2) st]) (rule that)
  have "conn\<lparr>cn_proxy_status := cn_proxy_status conn, cn_upstream_rbuf := b\<rparr> = conn\<lparr>cn_upstream_rbuf := b\<rparr>" by (cases conn) simp
  note b = b [unfolded this]
  from Cons.IH [OF b(2)] Cons.prems(2,4) b(3) s(3) obtain b' n where
    "relay_loop (map (\<lambda>s. turn_io mk (s, length s)) chunks) (conn\<lparr>cn_upstream_rbuf := b\<rparr>) =
      Inr (conn\<lparr>cn_upstream_rbuf := b'\<rparr>, n, concat chunks, concat chunks)"
    "conn_wf (conn\<lparr>cn_upstream_rbuf := b'\<rparr>)" "buf_contents b' = []" "n \<noteq> np_code NP_ERR_CLOSED" "n \<noteq> np_code NP_ERR" by auto
  then show ?case using b(1) by (intro exI [of _ b'] exI [of _ n]) simp
qed

lemma strtoll_digits_stop:
  assumes "int n \<le> LLONG_MAX" "\<not> isdigit e"
  shows "strtoll (dec_nat n @ e # t) = (int n, e # t)"
proof -
  obtain c r where cr: "dec_nat n = c # r" by (cases "dec_nat n") auto
  have all: "\<forall>x \<in> set (dec_nat n). isdigit x" using dec_nat_digits by (simp add: list_all_iff)
  then have c: "isdigit c" and r: "\<forall>x \<in> set r. isdigit x" by (simp_all add: cr)
  have dv: "digits_val (c # r) = int n" using digits_val_dec_nat [of n] by (simp add: cr)
  have "takeWhile isdigit (r @ e # t) = r" "dropWhile isdigit (r @ e # t) = e # t"
    using r assms(2) by (simp_all add: takeWhile_append2 dropWhile_append2)
  then show ?thesis
    unfolding strtoll_def Let_def cr using assms(1) c isdigit_not_space [OF c] isdigit_not_sign [OF c] by (simp add: dv)
qed

text \<open>The status code of an answer whose first bytes hold its number.\<close>

lemma atoi_mem_status:
  assumes "int n \<le> INT_MAX"
  shows "atoi_mem (dec_nat n @ CHR '' '' # t) = Inr (int n)"
proof -
  obtain c r where cr: "dec_nat n = c # r" by (cases "dec_nat n") auto
  have all: "\<forall>x \<in> set (dec_nat n). isdigit x" using dec_nat_digits by (simp add: list_all_iff)
  then have c: "isdigit c" by (simp add: cr)
  have sp: "\<not> isdigit (CHR '' '')" by (simp add: isdigit_def)
  have "CHR 0x00 \<notin> set (dec_nat n)" using all isdigit_not_sign by blast
  then have "cstr (dec_nat n @ CHR '' '' # t) = dec_nat n @ CHR '' '' # cstr t"
    unfolding cstr_def by (subst takeWhile_append2) auto
  moreover have "sint (word_of_int (int n) :: 32 word) = int n" by (rule sint_word_of_int_32) (use assms in simp_all)
  moreover have "strtoll (dec_nat n @ CHR '' '' # cstr t) = (int n, CHR '' '' # cstr t)" by (rule strtoll_digits_stop [OF _ sp]) (use assms in simp)
  ultimately have "atoi (dec_nat n @ CHR '' '' # t) = int n" by (simp only: atoi_def fst_conv)
  then show ?thesis using c sp isdigit_not_space [OF c] isdigit_not_sign [OF c] by (auto simp: atoi_mem_def cr)
qed

lemma status_noted:
  assumes b: "buf_ok b" "buf_contents b = ''HTTP/1.1 '' @ dec_nat n @ CHR '' '' # t" "12 \<le> length (buf_contents b)"
    and c: "cn_proxy_status conn = 0" "int n \<le> INT_MAX"
  shows "note_status (conn\<lparr>cn_upstream_rbuf := b\<rparr>) = Inr (conn\<lparr>cn_upstream_rbuf := b, cn_proxy_status := int n\<rparr>)"
proof -
  have "drop (unat (b_read_pos b)) (b_data b) = buf_contents b @ drop (unat (b_write_pos b) - unat (b_read_pos b)) (drop (unat (b_read_pos b)) (b_data b))"
    unfolding buf_contents_def by (rule append_take_drop_id [symmetric])
  then obtain z where "drop (unat (b_read_pos b)) (b_data b) = buf_contents b @ z" by blast
  then have d: "drop (unat (b_read_pos b) + 8 + 1) (b_data b) = dec_nat n @ CHR '' '' # t @ z"
    using b(2) drop_drop [of 9 "unat (b_read_pos b)" "b_data b"] by (simp add: add.commute)
  have m: "memchr (CHR '' '') (buf_contents b) = Some 8" by (simp add: b(2))
  have "take 4 (buf_contents b) = ''HTTP''" by (simp add: b(2))
  with b(3) m d atoi_mem_status [OF c(2), of "t @ z"] show ?thesis
    using c(1) buf_read_ptr_contents [OF b(1)] by (simp add: note_status_def)
qed

lemma upstream_answers:
  assumes ok: "worker_ok ws" "ws_conns ws p = Some c"
    and c: "cn_cache_store c = None" "buf_contents (cn_upstream_rbuf c) = []" "cn_proxy_status c = 0"
    and env: "ue_relay env = map (\<lambda>s. turn_io mk (s, length s)) (first # chunks)"
    and first: "first = ''HTTP/1.1 '' @ dec_nat n @ CHR '' '' # t" "12 \<le> length first" "0 < n" "int n \<le> INT_MAX"
    and fits: "list_all (\<lambda>s. s \<noteq> [] \<and> length s \<le> 65536) (first # chunks)"
  obtains ws' b where "proxy_on_upstream_event env u EV_READ p ws = Inr ws'" "worker_ok ws'"
    "ws_trace ws' = ws_trace ws @ [Sent (cn_fd c) (concat (first # chunks))]"
    "ws_conns ws' p = Some (c\<lparr>cn_proxy_status := int n, cn_upstream_rbuf := b\<rparr>)" "buf_contents b = []"
proof -
  note wf = conn_at_wf [OF ok]
  let ?t = "map (\<lambda>s. turn_io mk (s, length s)) chunks"
  have f: "first \<noteq> []" "length first \<le> 65536" "list_all (\<lambda>s. s \<noteq> [] \<and> length s \<le> 65536) chunks" using fits by simp_all
  obtain b where b: "relay_loop (turn_io mk (first, length first) # ?t) c =
      mbind (relay_loop ?t (c\<lparr>cn_proxy_status := int n, cn_upstream_rbuf := b\<rparr>)) (\<lambda>(c, n, got, out). Inr (c, n, first @ got, first @ out))"
    "conn_wf (c\<lparr>cn_proxy_status := int n, cn_upstream_rbuf := b\<rparr>)" "buf_contents b = []"
    by (rule relay_chunk [where m = "int n", OF wf c(1,2) f(1,2)]) (use first c(3) in \<open>auto intro!: status_noted simp del: length_append\<close>)
  obtain b' k where r: "relay_loop ?t (c\<lparr>cn_proxy_status := int n, cn_upstream_rbuf := b\<rparr>) =
      Inr (c\<lparr>cn_proxy_status := int n, cn_upstream_rbuf := b'\<rparr>, k, concat chunks, concat chunks)"
    "conn_wf (c\<lparr>cn_proxy_status := int n, cn_upstream_rbuf := b'\<rparr>)" "buf_contents b' = []" "k \<noteq> np_code NP_ERR_CLOSED" "k \<noteq> np_code NP_ERR"
    using relay_chunks [OF b(2) _ _ _ f(3), of mk] c(1) b(3) first(3) by auto
  define c' where "c' = c\<lparr>cn_proxy_status := int n, cn_upstream_rbuf := b'\<rparr>"
  have c': "conn_wf c'" "buf_readable (cn_upstream_rbuf c') = 0" "cn_fd c' = cn_fd c"
    using r(2,3) buf_readable_0_iff [OF conn_wf_buf_ok(3) [OF r(2)]] by (simp_all add: c'_def)
  have l: "relay_loop (ue_relay env) c = Inr (c', k, concat (first # chunks), concat (first # chunks))"
    using b(1) r(1) by (simp add: env c'_def del: relay_loop.simps)
  define ws' where "ws' = emit (sent (cn_fd c') (concat (first # chunks))) (set_conn p c' ws)"
  have "upstream_readable env u p ws = Inr ws'"
    using ok(2) l r(4,5) c'(2) by (simp add: upstream_readable_def conn_at_def Let_def ws'_def)
  then have "proxy_on_upstream_event env u EV_READ p ws = Inr ws'" by (simp add: proxy_on_upstream_event_def)
  then show ?thesis
    by (rule that [where b = b']) (use set_conn_ok [OF ok(1) c'(1)] c'(3) r(3) f(1) in \<open>simp_all add: ws'_def sent_def c'_def\<close>)
qed

section \<open>The whole exchange\<close>

lemma select_server_headers: "req_headers r = req_headers r' \<Longrightarrow> select_server cfg r = select_server cfg r'"
  by (simp add: select_server_def request_header_def)

text \<open>The read event of the client, up to the request that waits for the backend.\<close>

lemma request_passed_on:
  assumes ok: "worker_ok ws" "ws_conns ws p = Some c" "plain_worker ws" "client_env_ok env"
    and idle: "cn_state c = CONN_READING_REQUEST" "buf_contents (cn_rbuf c) = []" "buf_contents (cn_upstream_wbuf c) = []"
    and uri: "wf_uri uri" "\<not> prefix ''/healthz'' uri" "CHR ''?'' \<notin> set uri" "CHR 0x00 \<notin> set uri"
    and hs: "v \<noteq> HTTP_NONE" "list_all wf_header hs" "list_all header_no_nul hs" "length hs \<le> NP_MAX_HEADERS"
      "content_length_of v hs = 0" "\<not> is_upgrade hs"
    and msg: "msg = render_line m uri v @ render_headers hs @ CRLF" "length msg \<le> 65536"
    and fwd: "fwd = forwarded_text (inet_ntop (fst (cn_peer c))) m uri hs" "length fwd < NP_MAX_HEADER_LEN" "length fwd \<le> buf_room (cn_upstream_wbuf c)"
    and env: "cl_reads env = [\<lambda>room. Read_data (take room msg)]" "cl_request env = Some addr"
    and srv: "passes_on ws (select_server (ws_config ws) (request_zero\<lparr>req_headers := hs\<rparr>)) (he_proxy (cl_handler env)) k u" "0 \<le> u"
  obtains ws' c' where "handle_read env p ws = Inr ws'" "worker_ok ws'" "ws_trace ws' = ws_trace ws" "ws_conns ws' p = Some c'"
    "buf_contents (cn_upstream_wbuf c') = fwd" "buf_contents (cn_rbuf c') = []" "cn_state c' = CONN_PROXYING" "cn_upstream_fd c' = u"
    "cn_upstream_rbuf c' = cn_upstream_rbuf c" "cn_cache_store c' = cn_cache_store c" "cn_proxy_status c' = cn_proxy_status c" "cn_fd c' = cn_fd c"
proof -
  obtain ps b where ps: "handle_read env p ws = serve_request env p ps msg (c\<lparr>cn_rbuf := b\<rparr>) (set_conn p (c\<lparr>cn_rbuf := b\<rparr>) ws)"
    "conn_wf (c\<lparr>cn_rbuf := b\<rparr>)" "buf_contents b = msg" "parsed_as ps m uri v hs" "ps_parsed_bytes ps = length msg"
    by (rule handle_read_parsed [OF ok(1,2) idle(1,2) uri(1) hs(1,2,4,5) msg env(1)]) (rule that)
  have raw: "buf_contents (cn_rbuf (c\<lparr>cn_rbuf := b\<rparr>)) = msg" using ps(3) by simp
  let ?w = "set_conn p (c\<lparr>cn_rbuf := b\<rparr>) ws"
  obtain a b2 req where s: "req = request_populate request_zero ps msg (fst (cl_clock env)) (snd (cl_clock env))"
    "serve_request env p ps msg (c\<lparr>cn_rbuf := b\<rparr>) ?w = mbind (handler_dispatch (cl_handler env) p req
       (set_conn p (c\<lparr>cn_rbuf := b, cn_arena := a, cn_rbuf := b2, cn_keep_alive := keep_alive_of v hs, cn_request := Some req\<rparr>) ?w)) (send_response env p)"
    "conn_wf (c\<lparr>cn_rbuf := b, cn_arena := a, cn_rbuf := b2, cn_keep_alive := keep_alive_of v hs, cn_request := Some req\<rparr>)" "buf_contents b2 = []"
    by (rule serve_request_dispatches [OF ps(2) raw ps(4,5) env(2), of p ?w]) (rule that)
  define c1 where "c1 = c\<lparr>cn_rbuf := b, cn_arena := a, cn_rbuf := b2, cn_keep_alive := keep_alive_of v hs, cn_request := Some req\<rparr>"
  define w1 where "w1 = set_conn p c1 ?w"
  define r1 where "r1 = req\<lparr>req_remote_ip := inet_ntop (fst (cn_peer c1))\<rparr>"
  have peer: "cn_peer c1 = cn_peer c" by (simp add: c1_def)
  note r1 = populate_forwarded [OF ps(4) uri(3,4) hs(3,6,5) r1_def [unfolded s(1)], unfolded peer, folded fwd(1)]
  have w1: "worker_ok w1" "ws_conns w1 p = Some c1" "plain_worker w1"
    using set_conn_ok [OF set_conn_ok [OF ok(1) ps(2)]] s(3) ok(3) by (simp_all add: w1_def c1_def plain_worker_def)
  have "req_headers r1 = hs" using ps(4) by (simp add: r1_def s(1) request_populate_def Let_def parsed_as_def split: option.split)
  then have "select_server (ws_config w1) r1 = select_server (ws_config ws) (request_zero\<lparr>req_headers := hs\<rparr>)"
    by (simp add: w1_def select_server_headers [of r1 "request_zero\<lparr>req_headers := hs\<rparr>"])
  then have sv: "passes_on w1 (select_server (ws_config w1) r1) (he_proxy (cl_handler env)) k u" using srv(1) by (simp add: passes_on_def w1_def)
  have al: "handler_alloc_ok (fst (pe_add (he_proxy (cl_handler env))))" using ok(4) by (simp add: client_env_ok_def handler_env_ok_def)
  have q: "\<not> path_matches (req_path r1) ''/healthz''" "length (concat (proxy_texts r1)) < NP_MAX_HEADER_LEN"
    "buf_contents (cn_upstream_wbuf c1) = []" "length (concat (proxy_texts r1)) \<le> buf_room (cn_upstream_wbuf c1)"
    using r1 uri(2) fwd(2,3) idle(3) by (simp_all add: path_matches_prefix c1_def)
  obtain ws' pi b3 where d: "handler_dispatch (cl_handler env) p req w1 = Inr ws'" "worker_ok ws'" "ws_trace ws' = ws_trace w1"
    "ws_conns ws' p = Some (c1\<lparr>cn_request := Some r1, cn_proxy_pool := Some pi, cn_tls_conn := Some k, cn_upstream_fd := u,
       cn_upstream_wbuf := b3, cn_state := CONN_PROXYING\<rparr>)" "buf_contents b3 = concat (proxy_texts r1)"
    by (rule dispatch_proxied [OF w1 al r1_def sv srv(2) r1(2,3) q]) (rule that)
  have "send_response env p ws' = Inr ws'" by (simp add: send_response_def conn_at_def d(4))
  then have "handle_read env p ws = Inr ws'" using ps(1) s(2) d(1) by (simp add: c1_def w1_def)
  then show ?thesis by (rule that [OF _ d(2) _ d(4)]) (use d(3,5) r1(1) s(4) in \<open>simp_all add: w1_def c1_def\<close>)
qed


definition demo_get :: string where
  "demo_get = render_line HTTP_METHOD_GET ''/a'' HTTP_11 @ render_headers [] @ CRLF"

definition demo_get_env :: client_env where
  "demo_get_env = demo_client_env\<lparr>cl_reads := [\<lambda>room. Read_data (take room demo_get)]\<rparr>"

definition demo_front :: worker_state_t where
  "demo_front = demo_worker (config_defaults\<lparr>c_servers := [demo_proxied]\<rparr>) ((demo_conn 5)\<lparr>cn_state := CONN_READING_REQUEST\<rparr>)"

lemma demo_passes_on: "passes_on demo_front 0 (he_proxy demo_handler_env) 0 8"
  using demo_connects by (simp add: passes_on_def demo_front_def demo_worker_def demo_proxied_def server_zero_def)


end
