(* ===== verification/Tls.thy ===== *)
theory Tls
  imports Config
begin

text \<open>
  The layer over OpenSSL of \<^verbatim>\<open>src/src/tls/tls_ctx.c\<close> and \<^verbatim>\<open>src/src/tls/tls_conn.c\<close>. OpenSSL is not part of
  the repository: what its functions answer are arguments, and every function has the list of the
  calls it makes as a result. A replay of these calls tracks which objects are alive. No other part
  of the server calls this layer.
\<close>

section \<open>Model\<close>

text \<open>
  Contexts and connections of OpenSSL are numbers. A callback is the value it returns.
\<close>

datatype ssl_option = NO_SSLv3 | NO_TLSv1 | NO_TLSv1_1 | SINGLE_DH_USE | CIPHER_SERVER_PREFERENCE

datatype ctx_setup =
    Set_min_proto_version int
  | Set_options "ssl_option list"
  | Set_session_cache_mode
  | Set_cache_size int
  | Set_servername_callback int
  | Use_certificate_file string
  | Use_PrivateKey_file string
  | Check_private_key

datatype ssl_use =
    Set_fd int
  | Set_accept_state
  | Do_handshake
  | Get_error int
  | Read_bytes int
  | Write_bytes string int
  | Shutdown

datatype ssl_call =
    Init_ssl
  | CTX_new nat | CTX_call nat ctx_setup | CTX_free nat
  | SSL_new nat nat | SSL_call nat ssl_use | SSL_free nat

abbreviation TLS1_2_VERSION :: int where "TLS1_2_VERSION \<equiv> 0x0303"
abbreviation SSL_TLSEXT_ERR_OK :: int where "SSL_TLSEXT_ERR_OK \<equiv> 0"
abbreviation SSL_ERROR_WANT_READ :: int where "SSL_ERROR_WANT_READ \<equiv> 2"
abbreviation SSL_ERROR_WANT_WRITE :: int where "SSL_ERROR_WANT_WRITE \<equiv> 3"
abbreviation SSL_ERROR_ZERO_RETURN :: int where "SSL_ERROR_ZERO_RETURN \<equiv> 6"

record np_tls_ctx_t =
  tx_ctx :: "nat option"

record np_tls_conn_t =
  tc_ssl :: nat
  tc_handshake_done :: bool

text \<open>What OpenSSL answers while a context is made: the context, and the results for the two files and the check.\<close>

record tls_env =
  te_new :: "nat option"
  te_certificate :: "string \<Rightarrow> int"
  te_key :: "string \<Rightarrow> int"
  te_check :: int

definition sni_callback :: int where
  "sni_callback = SSL_TLSEXT_ERR_OK"

definition tls_ctx_create :: "tls_env \<Rightarrow> np_server_config_t \<Rightarrow> np_tls_ctx_t \<Rightarrow> np_tls_ctx_t \<times> np_status_t \<times> ssl_call list" where
  "tls_ctx_create env cfg tc =
     (case te_new env of
        None \<Rightarrow> (tc\<lparr>tx_ctx := None\<rparr>, NP_ERR_TLS, [Init_ssl])
      | Some c \<Rightarrow>
          (let calls = Init_ssl # CTX_new c # map (CTX_call c)
                 [Set_min_proto_version TLS1_2_VERSION,
                  Set_options [NO_SSLv3, NO_TLSv1, NO_TLSv1_1, SINGLE_DH_USE, CIPHER_SERVER_PREFERENCE],
                  Set_session_cache_mode, Set_cache_size 4096, Set_servername_callback sni_callback];
               cert = tls_cert_file (srv_tls cfg);
               key = tls_key_file (srv_tls cfg);
               calls = calls @ [CTX_call c (Use_certificate_file cert)]
           in if te_certificate env cert \<le> 0 then (tc\<lparr>tx_ctx := None\<rparr>, NP_ERR_TLS, calls @ [CTX_free c])
              else
                (let calls = calls @ [CTX_call c (Use_PrivateKey_file key)]
                 in if te_key env key \<le> 0 then (tc\<lparr>tx_ctx := None\<rparr>, NP_ERR_TLS, calls @ [CTX_free c])
                    else
                      (let calls = calls @ [CTX_call c Check_private_key]
                       in if te_check env = 0 then (tc\<lparr>tx_ctx := None\<rparr>, NP_ERR_TLS, calls @ [CTX_free c])
                          else (tc\<lparr>tx_ctx := Some c\<rparr>, NP_OK, calls)))))"

definition tls_ctx_destroy :: "np_tls_ctx_t \<Rightarrow> np_tls_ctx_t \<times> ssl_call list" where
  "tls_ctx_destroy tc = (case tx_ctx tc of None \<Rightarrow> (tc, []) | Some c \<Rightarrow> (tc\<lparr>tx_ctx := None\<rparr>, [CTX_free c]))"

definition tls_ctx_get :: "np_tls_ctx_t \<Rightarrow> nat option" where
  "tls_ctx_get tc = tx_ctx tc"

text \<open>\<open>m\<close> says whether \<^verbatim>\<open>malloc\<close> succeeds, \<open>ssl\<close> is what \<^verbatim>\<open>SSL_new\<close> returns.\<close>

definition tls_conn_create :: "nat \<Rightarrow> int \<Rightarrow> bool \<Rightarrow> nat option \<Rightarrow> np_tls_conn_t option \<times> ssl_call list" where
  "tls_conn_create ctx fd m ssl =
     (if \<not> m then (None, [])
      else case ssl of
          None \<Rightarrow> (None, [])
        | Some s \<Rightarrow> (Some \<lparr>tc_ssl = s, tc_handshake_done = False\<rparr>, [SSL_new ctx s, SSL_call s (Set_fd fd), SSL_call s Set_accept_state]))"

definition tls_conn_destroy :: "np_tls_conn_t option \<Rightarrow> ssl_call list" where
  "tls_conn_destroy tc = (case tc of None \<Rightarrow> [] | Some t \<Rightarrow> [SSL_call (tc_ssl t) Shutdown, SSL_free (tc_ssl t)])"

text \<open>\<open>rc\<close> and \<open>err\<close> are the answers of \<^verbatim>\<open>SSL_do_handshake\<close> and \<^verbatim>\<open>SSL_get_error\<close>.\<close>

definition tls_conn_handshake :: "np_tls_conn_t \<Rightarrow> int \<Rightarrow> int \<Rightarrow> np_tls_conn_t \<times> np_status_t \<times> ssl_call list" where
  "tls_conn_handshake tc rc err =
     (if tc_handshake_done tc then (tc, NP_OK, [])
      else if rc = 1 then (tc\<lparr>tc_handshake_done := True\<rparr>, NP_OK, [SSL_call (tc_ssl tc) Do_handshake])
      else
        (tc, if err = SSL_ERROR_WANT_READ \<or> err = SSL_ERROR_WANT_WRITE then NP_ERR_AGAIN else NP_ERR_TLS,
         [SSL_call (tc_ssl tc) Do_handshake, SSL_call (tc_ssl tc) (Get_error rc)]))"

text \<open>
  \<open>SSL_read\<close> and \<open>SSL_write\<close> are handed the length as an \<^verbatim>\<open>int\<close>; \<open>n\<close> is what they return for it. The bytes that are read go to the
  buffer of the caller.
\<close>

definition int_len :: "usize \<Rightarrow> int" where
  "int_len len = sint (ucast len :: 32 word)"

definition tls_conn_read :: "np_tls_conn_t \<Rightarrow> usize \<Rightarrow> (int \<Rightarrow> int) \<Rightarrow> int \<Rightarrow> int \<times> ssl_call list" where
  "tls_conn_read tc len ssl_read err =
     (let n = ssl_read (int_len len); s = tc_ssl tc in
      if 0 < n then (n, [SSL_call s (Read_bytes (int_len len))])
      else
        (if err = SSL_ERROR_WANT_READ \<or> err = SSL_ERROR_WANT_WRITE then np_code NP_ERR_AGAIN
         else if err = SSL_ERROR_ZERO_RETURN then np_code NP_ERR_CLOSED
         else np_code NP_ERR, [SSL_call s (Read_bytes (int_len len)), SSL_call s (Get_error n)]))"

definition tls_conn_write :: "np_tls_conn_t \<Rightarrow> string \<Rightarrow> usize \<Rightarrow> (int \<Rightarrow> int) \<Rightarrow> int \<Rightarrow> int \<times> ssl_call list" where
  "tls_conn_write tc buf len ssl_write err =
     (let n = ssl_write (int_len len); s = tc_ssl tc in
      if 0 < n then (n, [SSL_call s (Write_bytes buf (int_len len))])
      else
        (if err = SSL_ERROR_WANT_READ \<or> err = SSL_ERROR_WANT_WRITE then np_code NP_ERR_AGAIN else np_code NP_ERR,
         [SSL_call s (Write_bytes buf (int_len len)), SSL_call s (Get_error n)]))"

section \<open>The life of the objects\<close>

text \<open>
  The contexts and connections that are alive after a call; \<open>None\<close> is a call on an object that is not
  alive, or a second object with the same number.
\<close>

fun ssl_step :: "ssl_call \<Rightarrow> nat list \<times> nat list \<Rightarrow> (nat list \<times> nat list) option" where
  "ssl_step Init_ssl st = Some st"
| "ssl_step (CTX_new c) (cs, ss) = (if c \<in> set cs then None else Some (c # cs, ss))"
| "ssl_step (CTX_free c) (cs, ss) = (if c \<in> set cs then Some (remove1 c cs, ss) else None)"
| "ssl_step (SSL_new c s) (cs, ss) = (if c \<in> set cs \<and> s \<notin> set ss then Some (cs, s # ss) else None)"
| "ssl_step (SSL_free s) (cs, ss) = (if s \<in> set ss then Some (cs, remove1 s ss) else None)"
| "ssl_step (CTX_call c x) (cs, ss) = (if c \<in> set cs then Some (cs, ss) else None)"
| "ssl_step (SSL_call s x) (cs, ss) = (if s \<in> set ss then Some (cs, ss) else None)"

fun ssl_replay :: "ssl_call list \<Rightarrow> nat list \<times> nat list \<Rightarrow> (nat list \<times> nat list) option" where
  "ssl_replay [] st = Some st"
| "ssl_replay (c # cs) st = (case ssl_step c st of None \<Rightarrow> None | Some st \<Rightarrow> ssl_replay cs st)"

lemma ssl_replay_append: "ssl_replay (a @ b) st = (case ssl_replay a st of None \<Rightarrow> None | Some st \<Rightarrow> ssl_replay b st)"
  by (induction a arbitrary: st) (simp_all split: option.split)

text \<open>What a caller does with a connection.\<close>

datatype tls_op = Handshake int int | Read usize "int \<Rightarrow> int" int | Write string usize "int \<Rightarrow> int" int

fun tls_op_step :: "tls_op \<Rightarrow> np_tls_conn_t \<Rightarrow> np_tls_conn_t \<times> ssl_call list" where
  "tls_op_step (Handshake rc err) tc = (case tls_conn_handshake tc rc err of (tc, _, calls) \<Rightarrow> (tc, calls))"
| "tls_op_step (Read len f err) tc = (tc, snd (tls_conn_read tc len f err))"
| "tls_op_step (Write b len f err) tc = (tc, snd (tls_conn_write tc b len f err))"

fun tls_ops :: "tls_op list \<Rightarrow> np_tls_conn_t \<Rightarrow> np_tls_conn_t \<times> ssl_call list" where
  "tls_ops [] tc = (tc, [])"
| "tls_ops (x # xs) tc = (case tls_op_step x tc of (tc, calls) \<Rightarrow> (case tls_ops xs tc of (tc, calls') \<Rightarrow> (tc, calls @ calls')))"

lemma tls_op_alive:
  "tc_ssl tc \<in> set ss \<Longrightarrow> tc_ssl (fst (tls_op_step x tc)) = tc_ssl tc \<and> ssl_replay (snd (tls_op_step x tc)) (cs, ss) = Some (cs, ss)"
  by (cases x) (simp_all add: tls_conn_handshake_def tls_conn_read_def tls_conn_write_def Let_def)

lemma tls_ops_alive:
  "tc_ssl tc \<in> set ss \<Longrightarrow> tc_ssl (fst (tls_ops xs tc)) = tc_ssl tc \<and> ssl_replay (snd (tls_ops xs tc)) (cs, ss) = Some (cs, ss)"
proof (induction xs arbitrary: tc)
  case (Cons x xs)
  obtain tc1 c1 where x: "tls_op_step x tc = (tc1, c1)" by fastforce
  obtain tc2 c2 where xs: "tls_ops xs tc1 = (tc2, c2)" by fastforce
  show ?case using tls_op_alive [OF Cons.prems, of x cs] Cons.IH [of tc1] Cons.prems by (simp add: x xs ssl_replay_append)
qed simp

text \<open>A connection from its start to its end.\<close>

definition tls_session :: "nat \<Rightarrow> int \<Rightarrow> bool \<Rightarrow> nat option \<Rightarrow> tls_op list \<Rightarrow> ssl_call list" where
  "tls_session c fd m ssl xs =
     (case tls_conn_create c fd m ssl of
        (None, calls) \<Rightarrow> calls @ tls_conn_destroy None
      | (Some t, calls) \<Rightarrow> (case tls_ops xs t of (t, calls') \<Rightarrow> calls @ calls' @ tls_conn_destroy (Some t)))"

lemma tls_session_replay: "ssl_replay (tls_session c fd m ssl xs) ([c], []) = Some ([c], [])"
proof (cases "m \<and> ssl \<noteq> None")
  case True
  then obtain s where s: "ssl = Some s" by blast
  let ?t = "\<lparr>tc_ssl = s, tc_handshake_done = False\<rparr>"
  obtain t calls where t: "tls_ops xs ?t = (t, calls)" by fastforce
  have "tc_ssl t = s" "ssl_replay calls ([c], [s]) = Some ([c], [s])" using tls_ops_alive [of ?t "[s]" xs "[c]"] by (simp_all add: t)
  then show ?thesis using True by (simp add: tls_session_def tls_conn_create_def s t ssl_replay_append tls_conn_destroy_def)
qed (auto simp: tls_session_def tls_conn_create_def tls_conn_destroy_def)


end
