(* ===== verification/Spec2Isabelle.thy ===== *)
theory Spec2Isabelle
  imports Nproxy_Main Proxy_Serve Tls
begin

text \<open>
  \<^bold>\<open>A verification of NproxY\<close>, an HTTP reverse proxy and static file server for Linux in C. Paths below
  are those of the repository; \<^verbatim>\<open>src/src\<close> holds the program.

  \<^bold>\<open>The program.\<close> \<^verbatim>\<open>main.c\<close> reads the options and the configuration, loads modules, binds one listener
  per port, may become a daemon, and hands over to the master of \<^verbatim>\<open>proc/master.c\<close>, which forks the workers,
  replaces those that die and loads a new configuration on \<^verbatim>\<open>SIGHUP\<close>. A worker (\<^verbatim>\<open>proc/worker.c\<close>) runs
  one event loop over its clients: it reads bytes into a buffer, parses a request, and gives it to the dispatcher
  (\<^verbatim>\<open>http/handler.c\<close>), which chooses the server by the Host header, rewrites the path, applies the
  rate limit, and answers from the metrics, the health page, the cache, a backend (\<^verbatim>\<open>proxy/\<close>) or a
  file (\<^verbatim>\<open>static/\<close>). The answer goes out through the buffers of the connection or by \<^verbatim>\<open>sendfile\<close>.

  \<^bold>\<open>How the code is modelled.\<close> A C function is a HOL function of the same name on the state it changes. Machine
  integers are words where they can wrap, otherwise integers. A block of memory is a string of bytes and a
  pointer into it an index; objects that are linked, shared or freed (connections, timers, handlers, blocks of
  an arena) are in a heap from addresses to records. Every access outside a block, through a freed
  or null pointer, and every division by zero is the value \<open>Inl\<close> of the type \<open>mem\<close>. What the code outside the
  repository answers is an argument: the kernel (\<^verbatim>\<open>read\<close>, \<^verbatim>\<open>write\<close>, \<^verbatim>\<open>epoll_wait\<close>,
  \<^verbatim>\<open>accept\<close>, \<^verbatim>\<open>fork\<close>, \<^verbatim>\<open>waitpid\<close>, the clocks), \<^verbatim>\<open>malloc\<close>, \<^verbatim>\<open>regexec\<close>, zlib, OpenSSL and the
  modules. The many answers that one callback needs are a record (\<open>client_env\<close>, \<open>upstream_env\<close>,
  \<open>handler_env\<close>, \<open>boot_env\<close>, \<open>turn_env\<close>, \<open>main_env\<close>), and what the code relies on is a predicate on it
  (\<open>client_env_ok\<close>, \<open>answers_ok\<close>, \<open>fork_ok\<close> and so on). Effects on the outside are a trace in
  the state (\<open>ws_trace\<close>, \<open>ma_events\<close>).

  \<^bold>\<open>Theories, in the order of their imports.\<close>

  \<^item> \<open>Prelude\<close>: the types and status codes of \<^verbatim>\<open>core/types.h\<close>, memory faults, the functions of the C
    library the program uses, and the lemmas and collections (\<open>np_word\<close>, \<open>np_clib\<close>, \<open>np_invar\<close>, \<open>np_abs\<close>) shared by all theories.
  \<^item> \<open>Buffer\<close> (\<^verbatim>\<open>net/buffer.c\<close>): the buffer refines a bounded queue of bytes; the locales \<open>byte_queue\<close>
    and \<open>byte_fifo\<close> hold its contract, on which the readers and writers rely.
  \<^item> \<open>String_Util\<close> (\<^verbatim>\<open>core/string_util.c\<close>) and \<open>Arena\<close> (\<^verbatim>\<open>core/memory.c\<close>): slices with their
    specifications; blocks handed out by an arena are aligned and disjoint.
  \<^item> \<open>Parser\<close>, \<open>Request\<close>, \<open>Response\<close> (\<^verbatim>\<open>http/parser.c\<close>, \<^verbatim>\<open>request.c\<close>, \<^verbatim>\<open>response.c\<close>): the parser
    stays within its input, and a request that is written out is read back; header names are compared through the
    locale \<open>name_equality\<close>; error pages are well-formed messages.
  \<^item> \<open>Config\<close> (\<^verbatim>\<open>core/config.c\<close>): the loader keeps every bound of its records, and a file of
    well-formed lines has the effect of its settings in order.
  \<^item> \<open>Upstream\<close> (\<^verbatim>\<open>proxy/upstream.c\<close>, \<^verbatim>\<open>balancer.c\<close>): both balancers satisfy the locale \<open>balancer\<close>; reachable
    pools keep their invariant.
  \<^item> \<open>Rate_Limit\<close>, \<open>Metrics\<close>, \<open>Features\<close>, \<open>Logging\<close> (\<^verbatim>\<open>features/\<close>, \<^verbatim>\<open>core/log.c\<close>): the bound of the token bucket,
    exact counters, the health page and compression, the two logs.
  \<^item> \<open>Cache\<close> (\<^verbatim>\<open>cache/cache.c\<close>): what is inserted is found, an insertion that fails half way is never seen, and the store
    satisfies the locale \<open>entry_store\<close>.
  \<^item> \<open>Timeout\<close>, \<open>Event_Loop\<close>, \<open>Conn\<close>, \<open>Socket\<close> (\<^verbatim>\<open>net/\<close>): the timer wheel with its linked lists, the registrations of
    the loop (locale \<open>event_registry\<close>), the pool of connections, the sockets.
  \<^item> \<open>Static_Files\<close> (\<^verbatim>\<open>static/\<close>) and \<open>Module\<close> (\<^verbatim>\<open>module/module.c\<close>): nothing above the document root is read; loading
    and calling modules.
  \<^item> \<open>Worker_State\<close>, \<open>Proxy_Conn\<close>, \<open>Proxy_Relay\<close>, \<open>Proxy_Events\<close> (\<^verbatim>\<open>proxy/proxy_conn.c\<close>): the request for the backend, the
    relay as a queue of bytes, the end of an answer.
  \<^item> \<open>Handler\<close>, \<open>Dispatch\<close> (\<^verbatim>\<open>http/handler.c\<close>): virtual hosts, rewriting, and the whole dispatcher on the state
    of the worker.
  \<^item> \<open>Worker\<close>, \<open>Worker_Inv\<close>, \<open>Worker_Events\<close>, \<open>Worker_Serve\<close>, \<open>Proxy_Serve\<close> (\<^verbatim>\<open>proc/worker.c\<close>, \<^verbatim>\<open>proc/signal.c\<close>): all
    callbacks, the start and the end of a worker; every run keeps the state well formed; a request is followed from its bytes to
    the answer, for the health page and for a backend, over the events of both sides; three events with effects the code does not intend.
  \<^item> \<open>Listeners\<close>, \<open>Master\<close>, \<open>Master_Run\<close> (\<^verbatim>\<open>proc/master.c\<close>): the two loops that bind ports, and the supervision of the
    workers: the slots of the master hold exactly its children, dead workers are replaced, a new
    configuration replaces everything, and a master that stops leaves no child.
  \<^item> \<open>Daemon\<close> (\<^verbatim>\<open>proc/daemon.c\<close>), \<open>Tls\<close> (\<^verbatim>\<open>tls/\<close>), \<open>Nproxy_Main\<close> (\<^verbatim>\<open>main.c\<close>), and this theory, which has the
    properties of the whole program.

  \<^bold>\<open>Loops and bounds.\<close> Loops over arrays and texts are structural recursion or have a measure. A loop
  over answers of the kernel (reads until \<^verbatim>\<open>EAGAIN\<close>, writes, \<^verbatim>\<open>accept\<close>, the event loop, the turns of the master) is
  recursion over the list of answers, so a run of any length is a list of that length; when the list ends, the state
  reached is the result. The loops over linked lists are partial functions into \<open>option\<close>, and that they
  return for every reachable wheel is a theorem. The sizes of all arrays are those of the source.

  \<^bold>\<open>What is left out.\<close> The slices of a request point into the read buffer of its connection; in the
  model they are values, so what becomes of them when the buffer is compacted while a request is pending is not seen. Messages to
  the error log are left out of the callers; the log itself is modelled. Freeing plain structures has no effect in
  the model unless they are in a heap. The draining of a worker is modelled by the number of its sleeps. A signal that nobody
  has installed a handler for is not modelled, and signals reach the master between the statements
  that read its flags.

  \<^bold>\<open>Not modelled.\<close> The benchmarks and tests of the repository, the \<^verbatim>\<open>Makefile\<close> and the installation scripts, which
  are no part of the server; and the insides of the kernel, the C library's regular expressions, zlib, OpenSSL and
  modules, which are arguments.
\<close>

section \<open>The whole program\<close>


definition demo_main :: main_env where
  "demo_main = \<lparr>me_regcomp = \<lambda>_. True, me_log_fd = 2, me_dl = \<lambda>_. None, me_sockets = demo_sockets\<lparr>so_socket := \<lambda>_. 5\<rparr>, me_daemon = demo_daemon,
     me_boot = demo_boot, me_answers = \<lambda>_. demo_answers, me_waits = [], me_del = True, me_clock = (0, []), me_fork = \<lambda>_. demo_fork,
     me_turns = [demo_turn [] [102], demo_turn [SIGTERM] []], me_eintr = \<lambda>_. False\<rparr>"

definition demo_start :: "string \<Rightarrow> main_state" where
  "demo_start src = \<lparr>mn_process = demo_process\<lparr>pr_fs := [''f'' \<mapsto> src]\<rparr>, mn_log = \<lparr>lg_fd = 2, lg_level = 0\<rparr>, mn_modules = [], mn_listeners = [],
     mn_master = None, mn_out = []\<rparr>"




end
